(* ===== verification/Pvcli_Base.thy ===== *)
theory Pvcli_Base
  imports Main "HOL-Library.Word"
begin

text \<open>
  The prelude of the development: machine types, the errors of the code as values, the
  results of polling, the run-to-completion of an \<^verbatim>\<open>async\<close> function and the
  sequencing of fallible asynchronous steps (the \<^verbatim>\<open>?\<close> operator after
  \<^verbatim>\<open>.await\<close>). It also holds the generic lemmas on lists and words that the
  components share and the named collections of simplification rules.
\<close>

subsection \<open>Machine types\<close>

type_synonym byte = "8 word"
type_synonym bytes = "byte list"
type_synonym u16 = "16 word"
type_synonym u32 = "32 word"
type_synonym u64 = "64 word"

text \<open>The bytes of a string literal of the source.\<close>

definition ascii :: "string \<Rightarrow> bytes" where
  "ascii s = map of_char s"

subsection \<open>Errors\<close>

text \<open>
  An \<^verbatim>\<open>io::Error\<close> is a kind and a cause. Causes that the code formats into a
  message keep the message's text and the values put into it; causes that come from a
  library keep which library error it was.
\<close>

datatype error_kind = UnexpectedEof | InvalidData | ConnectionAborted | OtherKind

datatype hpke_error = SealError | OpenError | MessageLimitReached | HpkeOther string

datatype cause =
    Msg string
  | BufferTooShort
  | TryFromIntError
  | InvalidHeaderName
  | InvalidHeaderValue
  | InvalidMethod
  | InvalidUri
  | InvalidStatusCode
  | InvalidId string u16
  | InvalidSymmetricAlgorithmsLength u16
  | UnknownKeyId byte
  | WrongKemId byte
  | InvalidAlgo byte
  | HpkeCause string hpke_error

datatype io_error = IoError error_kind cause

text \<open>
  The code is generic in an error type with \<^verbatim>\<open>E: From<io::Error>\<close>. The free such
  type has the injected I/O errors and the errors of the wrapped stream. A panic of the
  source (\<^verbatim>\<open>unwrap\<close>, \<^verbatim>\<open>expect\<close>, \<^verbatim>\<open>assert!\<close>, an out-of-range
  split) is a third kind of failure, so that its absence is provable.
\<close>

datatype 'e err = FromIo io_error | Source 'e | Panicked string

type_synonym ('a, 'e) result = "'e err + 'a"

definition invalid_data :: "cause \<Rightarrow> 'e err" where
  "invalid_data c = FromIo (IoError InvalidData c)"

definition unexpected_eof :: "string \<Rightarrow> 'e err" where
  "unexpected_eof msg = FromIo (IoError UnexpectedEof (Msg msg))"

definition panics :: "'e err \<Rightarrow> bool" where
  "panics e = (case e of Panicked _ \<Rightarrow> True | _ \<Rightarrow> False)"

text \<open>
  Operations of the language and of \<^verbatim>\<open>bytes::Bytes\<close> that panic out of range: an
  overflowing subtraction (in a build with overflow checks), \<^verbatim>\<open>split_to\<close> and
  \<^verbatim>\<open>split_at\<close>, \<^verbatim>\<open>advance\<close>, the slice \<^verbatim>\<open>[..n]\<close>, and
  \<^verbatim>\<open>debug_assert_eq!\<close>. Each has a rule for the range in which it succeeds and none
  outside it, so that a guard of the code that a proof does not find leaves a panic behind.
\<close>

definition usize_sub :: "nat \<Rightarrow> nat \<Rightarrow> (nat, 'e) result" where
  "usize_sub a b =
     (if b \<le> a then Inr (a - b) else Inl (Panicked ''attempt to subtract with overflow''))"

definition bytes_split_to :: "nat \<Rightarrow> bytes \<Rightarrow> (bytes \<times> bytes, 'e) result" where
  "bytes_split_to n b =
     (if n \<le> length b then Inr (take n b, drop n b) else Inl (Panicked ''split_to out of bounds''))"

definition bytes_advance :: "nat \<Rightarrow> bytes \<Rightarrow> (bytes, 'e) result" where
  "bytes_advance n b =
     (if n \<le> length b then Inr (drop n b) else Inl (Panicked ''cannot advance past `remaining`''))"

definition slice_to :: "nat \<Rightarrow> bytes \<Rightarrow> (bytes, 'e) result" where
  "slice_to n b =
     (if n \<le> length b then Inr (take n b) else Inl (Panicked ''range end index out of range''))"

definition split_at_mut :: "nat \<Rightarrow> bytes \<Rightarrow> (bytes \<times> bytes, 'e) result" where
  "split_at_mut n b =
     (if n \<le> length b then Inr (take n b, drop n b) else Inl (Panicked ''mid > len''))"

definition debug_assert_eq :: "nat \<Rightarrow> nat \<Rightarrow> (unit, 'e) result" where
  "debug_assert_eq m n = (if m = n then Inr () else Inl (Panicked ''assertion `left == right` failed''))"

subsection \<open>Polling and awaiting\<close>

datatype 'a poll = Pending | Ready 'a

text \<open>
  Awaiting a future polls it until it is ready; \<^const>\<open>None\<close> is a future that never
  completes.
\<close>

partial_function (option) await :: "('s \<Rightarrow> 'a poll \<times> 's) \<Rightarrow> 's \<Rightarrow> ('a \<times> 's) option" where
  "await f s = (case f s of (p, s') \<Rightarrow> (case p of Ready r \<Rightarrow> Some (r, s') | Pending \<Rightarrow> await f s'))"

text \<open>
  An \<^verbatim>\<open>async fn\<close> over a state (a mutably borrowed buffer) run to completion: it
  returns a result and the state it left.
\<close>

type_synonym ('s, 'a, 'e) async = "'s \<Rightarrow> (('a, 'e) result \<times> 's) option"

definition aret :: "'a \<Rightarrow> ('s, 'a, 'e) async" where
  "aret a s = Some (Inr a, s)"

definition alift :: "('a, 'e) result \<Rightarrow> ('s, 'a, 'e) async" where
  "alift r s = Some (r, s)"

definition abind :: "('s, 'a, 'e) async \<Rightarrow> ('a \<Rightarrow> ('s, 'b, 'e) async) \<Rightarrow> ('s, 'b, 'e) async" where
  "abind m f s = Option.bind (m s)
     (\<lambda>(r, s'). case r of Inl e \<Rightarrow> Some (Inl e, s') | Inr a \<Rightarrow> f a s')"

text \<open>A computation that does not touch the buffer, within an \<^verbatim>\<open>async fn\<close>.\<close>

definition aopt :: "('a, 'e) result option \<Rightarrow> ('s, 'a, 'e) async" where
  "aopt r s = map_option (\<lambda>x. (x, s)) r"

text \<open>
  \<open>aloop round a\<close> runs the rounds of a loop until one ends it.
\<close>

partial_function (option) aloop ::
  "('a \<Rightarrow> 's \<Rightarrow> (('a \<times> bool, 'e) result \<times> 's) option) \<Rightarrow> 'a \<Rightarrow> 's \<Rightarrow> (('a, 'e) result \<times> 's) option" where
  "aloop round a s =
     (case round a s of
        None \<Rightarrow> None
      | Some (Inl e, s') \<Rightarrow> Some (Inl e, s')
      | Some (Inr (a', go_on), s') \<Rightarrow> (if go_on then aloop round a' s' else Some (Inr a', s')))"

text \<open>\<^verbatim>\<open>ok_or_else(|| invalid_data(..))\<close> on a library call that may fail.\<close>

definition ok_or :: "cause \<Rightarrow> 'a option \<Rightarrow> ('a, 'e) result" where
  "ok_or c r = (case r of None \<Rightarrow> Inl (invalid_data c) | Some a \<Rightarrow> Inr a)"

definition rbind :: "('a, 'e) result \<Rightarrow> ('a \<Rightarrow> ('b, 'e) result) \<Rightarrow> ('b, 'e) result" where
  "rbind r f = (case r of Inl e \<Rightarrow> Inl e | Inr a \<Rightarrow> f a)"

named_theorems async_simps \<open>evaluation of asynchronous steps\<close>
named_theorems panic_free \<open>operations that never panic\<close>

lemma await_Ready [simp]: "f s = (Ready r, s') \<Longrightarrow> await f s = Some (r, s')"
  by (simp add: await.simps)

lemma await_Pending [simp]: "f s = (Pending, s') \<Longrightarrow> await f s = await f s'"
  by (subst await.simps) simp

lemma abind_aret [simp, async_simps]: "abind (aret a) f = f a"
  by (simp add: abind_def aret_def fun_eq_iff)

lemma abind_Some_Inr [async_simps]: "m s = Some (Inr a, s') \<Longrightarrow> abind m f s = f a s'"
  by (simp add: abind_def)

lemma abind_Some_Inl [async_simps]: "m s = Some (Inl e, s') \<Longrightarrow> abind m f s = Some (Inl e, s')"
  by (simp add: abind_def)

lemma abind_assoc: "abind (abind m f) g = abind m (\<lambda>a. abind (f a) g)"
  by (auto simp: abind_def fun_eq_iff split: sum.splits Option.bind_splits)

lemma alift_Inr [simp, async_simps]: "alift (Inr a) = aret a"
  by (simp add: alift_def aret_def fun_eq_iff)

lemma abind_alift_Inl [simp, async_simps]: "abind (alift (Inl e)) f s = Some (Inl e, s)"
  by (simp add: abind_def alift_def)

lemma aret_apply [simp, async_simps]: "aret a s = Some (Inr a, s)"
  by (simp add: aret_def)

lemma alift_apply [simp]: "alift r s = Some (r, s)"
  by (simp add: alift_def)

lemma ok_or_Some [simp]: "ok_or c (Some a) = Inr a"
  by (simp add: ok_or_def)

lemma ok_or_None [simp]: "ok_or c None = Inl (invalid_data c)"
  by (simp add: ok_or_def)

lemma rbind_Inr [simp]: "rbind (Inr a) f = f a"
  by (simp add: rbind_def)

lemma rbind_Inl [simp]: "rbind (Inl e) f = Inl e"
  by (simp add: rbind_def)

lemma in_range [simp]:
  "b \<le> a \<Longrightarrow> usize_sub a b = Inr (a - b)"
  "n \<le> length bs \<Longrightarrow> bytes_split_to n bs = Inr (take n bs, drop n bs)"
  "n \<le> length bs \<Longrightarrow> bytes_advance n bs = Inr (drop n bs)"
  "n \<le> length bs \<Longrightarrow> slice_to n bs = Inr (take n bs)"
  "n \<le> length bs \<Longrightarrow> split_at_mut n bs = Inr (take n bs, drop n bs)"
  "debug_assert_eq n n = Inr ()"
  by (simp_all add: usize_sub_def bytes_split_to_def bytes_advance_def slice_to_def split_at_mut_def
      debug_assert_eq_def)

lemma rbind_eq_Inr_iff: "rbind r f = Inr b \<longleftrightarrow> (\<exists>a. r = Inr a \<and> f a = Inr b)"
  by (auto simp: rbind_def split: sum.splits)

lemma panics_simps [simp]:
  "\<not> panics (FromIo x)" "\<not> panics (Source y)" "panics (Panicked z)"
  "\<not> panics (invalid_data c)" "\<not> panics (unexpected_eof s)"
  by (simp_all add: panics_def invalid_data_def unexpected_eof_def)

text \<open>A loop is its first round and, unless that ended it, the loop again.\<close>

lemma aloop_unfold:
  "aloop round a = abind (round a) (\<lambda>(a', go_on). if go_on then aloop round a' else aret a')"
  by (rule ext, subst aloop.simps)
    (auto simp: abind_def aret_def split: option.split sum.split prod.split Option.bind_split)

text \<open>What every round keeps, the loop keeps.\<close>

lemma aloop_invariant:
  fixes round :: "'a \<Rightarrow> 's \<Rightarrow> (('a \<times> bool, 'e) result \<times> 's) option"
  assumes round: "\<And>a s a' go_on s'. I a \<Longrightarrow> round a s = Some (Inr (a', go_on), s') \<Longrightarrow> I a'"
    and "aloop round a s = Some (Inr b, s')" and "I a"
  shows "I b"
proof -
  define P where "P round' a s p \<longleftrightarrow> (round' = round \<longrightarrow> I a \<longrightarrow> fst p = Inr b \<longrightarrow> I b)"
    for round' a and s :: 's and p :: "('a, 'e) result \<times> 's"
  have "P round a s (Inr b, s')"
  proof (rule aloop.raw_induct [of P, OF _ assms(2)])
    fix loop round' a s p
    assume IH: "\<And>round' a s p. loop round' a s = Some p \<Longrightarrow> P round' a s p"
      and body: "(case round' a s of None \<Rightarrow> None | Some (Inl e, s') \<Rightarrow> Some (Inl e, s')
        | Some (Inr (a', go_on), s') \<Rightarrow> if go_on then loop round' a' s' else Some (Inr a', s')) = Some p"
    show "P round' a s p"
      unfolding P_def
    proof (intro impI)
      assume "round' = round" "I a" "fst p = Inr b"
      with body show "I b"
        by (auto split: option.splits prod.splits sum.splits if_splits
            dest: IH [unfolded P_def] round)
    qed
  qed
  with assms(3) show ?thesis by (simp add: P_def)
qed

lemma aopt_Some [simp]: "aopt (Some r) = alift r"
  by (simp add: aopt_def alift_def fun_eq_iff)

end
