(* ===== verification/Stream_Buf.thy ===== *)
theory Stream_Buf
  imports Pvcli_Base
begin

text \<open>
  The crate \<^verbatim>\<open>stream-buf\<close> (\<^verbatim>\<open>crates/stream-buf/src/lib.rs\<close>): a buffer
  over an asynchronous stream of byte chunks. A stream is the finite sequence of what
  polling it gives, one event per poll: not ready, a chunk, or an error; after the last
  event it has ended. The buffer's operations consume events. The second half gives the
  abstract view of a buffer, the bytes still to come and how the stream ends after them,
  and shows that reads depend on this view alone: neither the chunk boundaries nor the
  polls that are not ready can be observed.
\<close>

subsection \<open>Streams\<close>

datatype 'e event = Wait | Yield "(bytes, 'e) result"

type_synonym 'e stream = "'e event list"

fun stream_poll_next :: "'e stream \<Rightarrow> (bytes, 'e) result option poll \<times> 'e stream" where
  "stream_poll_next [] = (Ready None, [])"
| "stream_poll_next (Wait # st) = (Pending, st)"
| "stream_poll_next (Yield r # st) = (Ready (Some r), st)"

text \<open>
  Every \<^verbatim>\<open>Stream\<close> that the code implements is a \<^verbatim>\<open>poll_next\<close> on its
  state. A consumer sees the events of polling it until it ends or fails; a stream whose polls make
  progress ends after at most as many polls as its measure says.
\<close>

primrec events_upto ::
  "nat \<Rightarrow> ('s \<Rightarrow> (bytes, 'e) result option poll \<times> 's) \<Rightarrow> 's \<Rightarrow> 'e stream" where
  "events_upto 0 poll s = []"
| "events_upto (Suc n) poll s =
     (case poll s of
        (Pending, s') \<Rightarrow> Wait # events_upto n poll s'
      | (Ready (Some (Inr d)), s') \<Rightarrow> Yield (Inr d) # events_upto n poll s'
      | (Ready (Some (Inl e)), _) \<Rightarrow> [Yield (Inl e)]
      | (Ready None, _) \<Rightarrow> [])"

definition goes_on :: "(bytes, 'e) result option poll \<Rightarrow> bool" where
  "goes_on p = (case p of Pending \<Rightarrow> True | Ready (Some (Inr _)) \<Rightarrow> True | _ \<Rightarrow> False)"

locale progressing_stream =
  fixes poll :: "'s \<Rightarrow> (bytes, 'e) result option poll \<times> 's"
    and polls_left :: "'s \<Rightarrow> nat"
  assumes progress: "poll s = (p, s') \<Longrightarrow> goes_on p \<Longrightarrow> polls_left s' < polls_left s"
begin

text \<open>More polls than the measure show nothing new.\<close>

lemma events_upto_enough:
  "polls_left s < n \<Longrightarrow> events_upto n poll s = events_upto (Suc (polls_left s)) poll s"
proof (induction "polls_left s" arbitrary: s n rule: less_induct)
  case less
  obtain p s' where p: "poll s = (p, s')" by (cases "poll s")
  obtain m where n: "n = Suc m" using less.prems by (cases n) auto
  show ?case
  proof (cases "goes_on p")
    case False
    with p n show ?thesis by (simp add: goes_on_def split: poll.splits option.splits sum.splits)
  next
    case True
    from progress [OF p True] have lt: "polls_left s' < polls_left s" .
    with less.prems n have m: "polls_left s' < m" by simp
    have "events_upto m poll s' = events_upto (polls_left s) poll s'"
      using less.hyps [OF lt m] less.hyps [OF lt lt] by simp
    with p n show ?thesis by (simp split: poll.split option.split sum.split)
  qed
qed

text \<open>The events of a stream, from those of the state after one poll.\<close>

lemma events_step:
  assumes "poll s = (p, s')"
  shows "events_upto (Suc (polls_left s)) poll s =
     (case p of
        Pending \<Rightarrow> Wait # events_upto (Suc (polls_left s')) poll s'
      | Ready (Some (Inr d)) \<Rightarrow> Yield (Inr d) # events_upto (Suc (polls_left s')) poll s'
      | Ready (Some (Inl e)) \<Rightarrow> [Yield (Inl e)]
      | Ready None \<Rightarrow> [])"
proof (cases "goes_on p")
  case True
  from progress [OF assms True] have lt: "polls_left s' < polls_left s" .
  with assms show ?thesis
    using events_upto_enough [OF lt] by (auto split: poll.split option.split sum.split)
next
  case False
  with assms show ?thesis by (simp add: goes_on_def split: poll.splits option.splits sum.splits)
qed

end

subsection \<open>The buffer\<close>

record 'e stream_buf =
  max_buf_size :: nat
  buf :: bytes
  stream :: "'e stream"

definition default_max_buf_size :: nat where
  "default_max_buf_size = 10 * 1024 * 1024"

definition new_stream_buf :: "'e stream \<Rightarrow> 'e stream_buf" where
  "new_stream_buf st = \<lparr>max_buf_size = default_max_buf_size, buf = [], stream = st\<rparr>"

definition with_max_buf_size :: "'e stream_buf \<Rightarrow> nat \<Rightarrow> 'e stream_buf" where
  "with_max_buf_size sb n = sb\<lparr>max_buf_size := n\<rparr>"

definition stream_buf_from :: "bytes \<Rightarrow> 'e stream_buf" where
  "stream_buf_from bs = \<lparr>max_buf_size = length bs, buf = bs, stream = []\<rparr>"

definition check_max_buf_size :: "'e stream_buf \<Rightarrow> (unit, 'e) result" where
  "check_max_buf_size sb =
     (if max_buf_size sb < length (buf sb)
      then Inl (FromIo (IoError InvalidData (Msg ''max buf size reached'')))
      else Inr ())"

definition append_bytes :: "bytes \<Rightarrow> bytes \<Rightarrow> bytes" where
  "append_bytes data more_data = data @ more_data"

definition append_buf :: "bytes \<Rightarrow> 'e stream_buf \<Rightarrow> 'e stream_buf" where
  "append_buf more_data sb =
     (if buf sb = [] then sb\<lparr>buf := more_data\<rparr>
      else sb\<lparr>buf := append_bytes (buf sb) more_data\<rparr>)"

text \<open>
  \<^verbatim>\<open>self.buf.split_to(len)\<close>, and the end of a read that a chunk completes: its first
  \<open>missing_len\<close> bytes follow those of the buffer, the others become the buffer.
\<close>

definition split_buf :: "nat \<Rightarrow> 'e stream_buf \<Rightarrow> (bytes, 'e) result \<times> 'e stream_buf" where
  "split_buf len sb =
     (case bytes_split_to len (buf sb) of
        Inl e \<Rightarrow> (Inl e, sb)
      | Inr (bytes, rest) \<Rightarrow> (Inr bytes, sb\<lparr>buf := rest\<rparr>))"

definition complete_read ::
  "nat \<Rightarrow> nat \<Rightarrow> bytes \<Rightarrow> 'e stream_buf \<Rightarrow> (bytes, 'e) result \<times> 'e stream_buf" where
  "complete_read len missing_len more_data sb =
     (case (if buf sb = []
            then rbind (debug_assert_eq len missing_len) (\<lambda>_. bytes_split_to missing_len more_data)
            else rbind (slice_to missing_len more_data) (\<lambda>part.
                 rbind (bytes_advance missing_len more_data) (\<lambda>rest.
                 Inr (append_bytes (buf sb) part, rest)))) of
        Inl e \<Rightarrow> (Inl e, sb\<lparr>buf := []\<rparr>)
      | Inr (bytes, rest) \<Rightarrow> (Inr bytes, sb\<lparr>buf := rest\<rparr>))"

function poll_read_exact ::
  "nat \<Rightarrow> 'e stream_buf \<Rightarrow> (bytes, 'e) result poll \<times> 'e stream_buf" where
  "poll_read_exact len sb =
     (if len \<le> length (buf sb) then apfst Ready (split_buf len sb)
      else case check_max_buf_size sb of
        Inl e \<Rightarrow> (Ready (Inl e), sb)
      | Inr _ \<Rightarrow>
          (case usize_sub len (length (buf sb)) of
             Inl e \<Rightarrow> (Ready (Inl e), sb)
           | Inr missing_len \<Rightarrow>
               (case stream sb of
                  [] \<Rightarrow> (Ready (Inl (unexpected_eof ''could not read exact amount of bytes'')), sb)
                | Wait # st \<Rightarrow> (Pending, sb\<lparr>stream := st\<rparr>)
                | Yield (Inl e) # st \<Rightarrow> (Ready (Inl e), sb\<lparr>stream := st\<rparr>)
                | Yield (Inr more_data) # st \<Rightarrow>
                    (if missing_len \<le> length more_data
                     then apfst Ready (complete_read len missing_len more_data (sb\<lparr>stream := st\<rparr>))
                     else poll_read_exact len (append_buf more_data (sb\<lparr>stream := st\<rparr>))))))"
  by pat_completeness auto
termination
  by (relation "measure (\<lambda>(len, sb). length (stream sb))") (auto simp: append_buf_def)

function poll_read_to_end ::
  "'e stream_buf \<Rightarrow> (bytes, 'e) result poll \<times> 'e stream_buf" where
  "poll_read_to_end sb =
     (case stream sb of
        [] \<Rightarrow> (Ready (Inr (buf sb)), sb\<lparr>buf := []\<rparr>)
      | Wait # st \<Rightarrow> (Pending, sb\<lparr>stream := st\<rparr>)
      | Yield (Inl e) # st \<Rightarrow> (Ready (Inl e), sb\<lparr>stream := st\<rparr>)
      | Yield (Inr more_data) # st \<Rightarrow> poll_read_to_end (append_buf more_data (sb\<lparr>stream := st\<rparr>)))"
  by pat_completeness auto
termination
  by (relation "measure (\<lambda>sb. length (stream sb))") (auto simp: append_buf_def)

definition poll_has_more_data ::
  "'e stream_buf \<Rightarrow> (bool, 'e) result poll \<times> 'e stream_buf" where
  "poll_has_more_data sb =
     (if buf sb \<noteq> [] then (Ready (Inr True), sb)
      else case stream_poll_next (stream sb) of
        (Pending, st) \<Rightarrow> (Pending, sb\<lparr>stream := st\<rparr>)
      | (Ready None, st) \<Rightarrow> (Ready (Inr False), sb\<lparr>stream := st\<rparr>)
      | (Ready (Some (Inl e)), st) \<Rightarrow> (Ready (Inl e), sb\<lparr>stream := st\<rparr>)
      | (Ready (Some (Inr more_data)), st) \<Rightarrow>
          (Ready (Inr True), sb\<lparr>buf := more_data, stream := st\<rparr>))"

definition poll_fill_buf ::
  "'e stream_buf \<Rightarrow> (unit, 'e) result poll \<times> 'e stream_buf" where
  "poll_fill_buf sb =
     (case check_max_buf_size sb of
        Inl e \<Rightarrow> (Ready (Inl e), sb)
      | Inr _ \<Rightarrow>
          (case stream_poll_next (stream sb) of
             (Pending, st) \<Rightarrow> (Pending, sb\<lparr>stream := st\<rparr>)
           | (Ready None, st) \<Rightarrow>
               (Ready (Inl (unexpected_eof ''could not accumulate more data'')), sb\<lparr>stream := st\<rparr>)
           | (Ready (Some (Inl e)), st) \<Rightarrow> (Ready (Inl e), sb\<lparr>stream := st\<rparr>)
           | (Ready (Some (Inr more_data)), st) \<Rightarrow>
               (Ready (Inr ()), append_buf more_data (sb\<lparr>stream := st\<rparr>))))"

definition poll_read_at_most ::
  "nat \<Rightarrow> 'e stream_buf \<Rightarrow> (bytes, 'e) result poll \<times> 'e stream_buf" where
  "poll_read_at_most len sb =
     (let split = (\<lambda>sb. apfst Ready (split_buf (min len (length (buf sb))) sb))
      in if len = 0 then (Ready (Inr []), sb)
         else if buf sb = []
         then (case poll_fill_buf sb of
                 (Pending, sb') \<Rightarrow> (Pending, sb')
               | (Ready (Inl e), sb') \<Rightarrow> (Ready (Inl e), sb')
               | (Ready (Inr _), sb') \<Rightarrow> split sb')
         else split sb)"

text \<open>The \<^verbatim>\<open>Buf\<close> and \<^verbatim>\<open>Stream\<close> implementations of the buffer.\<close>

definition remaining :: "'e stream_buf \<Rightarrow> nat" where
  "remaining sb = length (buf sb)"

definition chunk :: "'e stream_buf \<Rightarrow> bytes" where
  "chunk sb = buf sb"

definition advance :: "nat \<Rightarrow> 'e stream_buf \<Rightarrow> (unit, 'e) result \<times> 'e stream_buf" where
  "advance cnt sb =
     (if cnt \<le> length (buf sb) then (Inr (), sb\<lparr>buf := drop cnt (buf sb)\<rparr>)
      else (Inl (Panicked ''cannot advance past `remaining`''), sb))"

definition copy_to_bytes :: "nat \<Rightarrow> 'e stream_buf \<Rightarrow> (bytes, 'e) result \<times> 'e stream_buf" where
  "copy_to_bytes len sb =
     (if len \<le> length (buf sb) then (Inr (take len (buf sb)), sb\<lparr>buf := drop len (buf sb)\<rparr>)
      else (Inl (Panicked ''advance out of bounds''), sb))"

definition buf_poll_next ::
  "'e stream_buf \<Rightarrow> (bytes, 'e) result option poll \<times> 'e stream_buf" where
  "buf_poll_next sb =
     (if buf sb \<noteq> [] then (Ready (Some (Inr (buf sb))), sb\<lparr>buf := []\<rparr>)
      else case stream_poll_next (stream sb) of (p, st) \<Rightarrow> (p, sb\<lparr>stream := st\<rparr>))"

text \<open>The \<^verbatim>\<open>async\<close> wrappers.\<close>

definition read_exact :: "nat \<Rightarrow> ('e stream_buf, bytes, 'e) async" where
  "read_exact len = await (poll_read_exact len)"

definition read_to_end :: "('e stream_buf, bytes, 'e) async" where
  "read_to_end = await poll_read_to_end"

definition has_more_data :: "('e stream_buf, bool, 'e) async" where
  "has_more_data = await poll_has_more_data"

definition fill_buf :: "('e stream_buf, unit, 'e) async" where
  "fill_buf = await poll_fill_buf"

declare poll_read_exact.simps [simp del] poll_read_to_end.simps [simp del]

subsection \<open>Unfolding the awaited operations\<close>

lemma await_cong: "f s = f s' \<Longrightarrow> await f s = await f s'"
  by (simp add: await.simps [of f s] await.simps [of f s'])

lemma append_buf_eq [simp]: "append_buf more_data sb = sb\<lparr>buf := buf sb @ more_data\<rparr>"
  by (simp add: append_buf_def append_bytes_def)

text \<open>
  The guards of the code keep every split, slice and subtraction in range: the reads are
  those without a panic.
\<close>

lemma split_buf_in_range [simp]:
  "n \<le> length (buf sb) \<Longrightarrow> split_buf n sb = (Inr (take n (buf sb)), sb\<lparr>buf := drop n (buf sb)\<rparr>)"
  by (simp add: split_buf_def)

lemma complete_read_in_range:
  assumes "n \<le> length d" and "len = length (buf sb) + n"
  shows "complete_read len n d sb = (Inr (buf sb @ take n d), sb\<lparr>buf := drop n d\<rparr>)"
  using assms by (simp add: complete_read_def append_bytes_def)

lemma poll_read_exact_eq:
  "poll_read_exact len sb =
     (if len \<le> length (buf sb)
      then (Ready (Inr (take len (buf sb))), sb\<lparr>buf := drop len (buf sb)\<rparr>)
      else case check_max_buf_size sb of
        Inl e \<Rightarrow> (Ready (Inl e), sb)
      | Inr _ \<Rightarrow>
          (let missing_len = len - length (buf sb)
           in case stream sb of
                [] \<Rightarrow> (Ready (Inl (unexpected_eof ''could not read exact amount of bytes'')), sb)
              | Wait # st \<Rightarrow> (Pending, sb\<lparr>stream := st\<rparr>)
              | Yield (Inl e) # st \<Rightarrow> (Ready (Inl e), sb\<lparr>stream := st\<rparr>)
              | Yield (Inr more_data) # st \<Rightarrow>
                  (if missing_len \<le> length more_data
                   then (let bytes = (if buf sb = [] then take missing_len more_data
                                      else append_bytes (buf sb) (take missing_len more_data))
                         in (Ready (Inr bytes),
                             sb\<lparr>buf := drop missing_len more_data, stream := st\<rparr>))
                   else poll_read_exact len (append_buf more_data (sb\<lparr>stream := st\<rparr>)))))"
  by (subst poll_read_exact.simps)
    (auto simp: complete_read_in_range append_bytes_def Let_def split: sum.split list.split event.split)

lemma poll_read_at_most_eq:
  "poll_read_at_most len sb =
     (let split = (\<lambda>sb. (Ready (Inr (take (min len (length (buf sb))) (buf sb))),
                         sb\<lparr>buf := drop (min len (length (buf sb))) (buf sb)\<rparr>))
      in if len = 0 then (Ready (Inr []), sb)
         else if buf sb = []
         then (case poll_fill_buf sb of
                 (Pending, sb') \<Rightarrow> (Pending, sb')
               | (Ready (Inl e), sb') \<Rightarrow> (Ready (Inl e), sb')
               | (Ready (Inr _), sb') \<Rightarrow> split sb')
         else split sb)"
  by (simp add: poll_read_at_most_def)

text \<open>A chunk that arrives is as good as one that was buffered already.\<close>

lemma poll_read_exact_data:
  assumes "length (buf sb) < len" and "length (buf sb) \<le> max_buf_size sb"
    and st: "stream sb = Yield (Inr d) # st"
  shows "poll_read_exact len sb = poll_read_exact len (sb\<lparr>stream := st, buf := buf sb @ d\<rparr>)"
proof (cases "len - length (buf sb) \<le> length d")
  case True
  with assms(1) have "len \<le> length (buf sb @ d)" "length (buf sb) \<le> len" by auto
  with True assms show ?thesis
    by (simp add: poll_read_exact_eq [of len sb] check_max_buf_size_def append_bytes_def
        Let_def poll_read_exact_eq [of len "sb\<lparr>stream := st, buf := buf sb @ d\<rparr>"])
next
  case False
  with assms show ?thesis
    by (simp add: poll_read_exact_eq [of len sb] check_max_buf_size_def Let_def)
qed

lemma poll_read_to_end_data:
  "stream sb = Yield (Inr d) # st \<Longrightarrow>
   poll_read_to_end sb = poll_read_to_end (sb\<lparr>stream := st, buf := buf sb @ d\<rparr>)"
  by (simp add: poll_read_to_end.simps [of sb])

lemma read_exact_unfold:
  "read_exact len sb =
     (if len \<le> length (buf sb)
      then Some (Inr (take len (buf sb)), sb\<lparr>buf := drop len (buf sb)\<rparr>)
      else if max_buf_size sb < length (buf sb)
      then Some (Inl (FromIo (IoError InvalidData (Msg ''max buf size reached''))), sb)
      else case stream sb of
        [] \<Rightarrow> Some (Inl (unexpected_eof ''could not read exact amount of bytes''), sb)
      | Wait # st \<Rightarrow> read_exact len (sb\<lparr>stream := st\<rparr>)
      | Yield (Inl e) # st \<Rightarrow> Some (Inl e, sb\<lparr>stream := st\<rparr>)
      | Yield (Inr d) # st \<Rightarrow> read_exact len (sb\<lparr>stream := st, buf := buf sb @ d\<rparr>))"
proof (cases "len \<le> length (buf sb) \<or> max_buf_size sb < length (buf sb)")
  case True
  then show ?thesis
    by (auto simp: read_exact_def poll_read_exact_eq [of len sb] check_max_buf_size_def)
next
  case False
  then show ?thesis
    by (auto simp: read_exact_def poll_read_exact_eq [of len sb] check_max_buf_size_def Let_def
        split: list.split event.split sum.split
        intro!: await_cong poll_read_exact_data [unfolded poll_read_exact_eq [of len sb]])
qed

lemma read_to_end_unfold:
  "read_to_end sb =
     (case stream sb of
        [] \<Rightarrow> Some (Inr (buf sb), sb\<lparr>buf := []\<rparr>)
      | Wait # st \<Rightarrow> read_to_end (sb\<lparr>stream := st\<rparr>)
      | Yield (Inl e) # st \<Rightarrow> Some (Inl e, sb\<lparr>stream := st\<rparr>)
      | Yield (Inr d) # st \<Rightarrow> read_to_end (sb\<lparr>stream := st, buf := buf sb @ d\<rparr>))"
  by (auto simp: read_to_end_def poll_read_to_end.simps [of sb]
      split: list.split event.split sum.split intro!: await_cong)

lemma has_more_data_unfold:
  "has_more_data sb =
     (if buf sb \<noteq> [] then Some (Inr True, sb)
      else case stream sb of
        [] \<Rightarrow> Some (Inr False, sb)
      | Wait # st \<Rightarrow> has_more_data (sb\<lparr>stream := st\<rparr>)
      | Yield (Inl e) # st \<Rightarrow> Some (Inl e, sb\<lparr>stream := st\<rparr>)
      | Yield (Inr d) # st \<Rightarrow> Some (Inr True, sb\<lparr>buf := d, stream := st\<rparr>))"
  by (auto simp: has_more_data_def poll_has_more_data_def split: list.splits event.splits sum.splits)

lemma fill_buf_unfold:
  "fill_buf sb =
     (if max_buf_size sb < length (buf sb)
      then Some (Inl (FromIo (IoError InvalidData (Msg ''max buf size reached''))), sb)
      else case stream sb of
        [] \<Rightarrow> Some (Inl (unexpected_eof ''could not accumulate more data''), sb)
      | Wait # st \<Rightarrow> fill_buf (sb\<lparr>stream := st\<rparr>)
      | Yield (Inl e) # st \<Rightarrow> Some (Inl e, sb\<lparr>stream := st\<rparr>)
      | Yield (Inr d) # st \<Rightarrow> Some (Inr (), sb\<lparr>stream := st, buf := buf sb @ d\<rparr>))"
  by (auto simp: fill_buf_def poll_fill_buf_def check_max_buf_size_def
      split: list.splits event.splits sum.splits)

subsection \<open>The view of a buffer: the bytes to come and how they end\<close>

fun stream_bytes :: "'e stream \<Rightarrow> bytes" where
  "stream_bytes [] = []"
| "stream_bytes (Wait # st) = stream_bytes st"
| "stream_bytes (Yield (Inl e) # st) = []"
| "stream_bytes (Yield (Inr d) # st) = d @ stream_bytes st"

fun stream_tail :: "'e stream \<Rightarrow> 'e err option" where
  "stream_tail [] = None"
| "stream_tail (Wait # st) = stream_tail st"
| "stream_tail (Yield (Inl e) # st) = Some e"
| "stream_tail (Yield (Inr d) # st) = stream_tail st"

definition avail :: "'e stream_buf \<Rightarrow> bytes" where
  "avail sb = buf sb @ stream_bytes (stream sb)"

definition tail :: "'e stream_buf \<Rightarrow> 'e err option" where
  "tail sb = stream_tail (stream sb)"

definition no_empty_chunks :: "'e stream \<Rightarrow> bool" where
  "no_empty_chunks st \<longleftrightarrow> Yield (Inr []) \<notin> set st"

text \<open>
  A buffer is well formed when its limit covers everything that is still to come and its
  stream yields no empty chunk.
\<close>

definition wf_buf :: "'e stream_buf \<Rightarrow> bool" where
  "wf_buf sb \<longleftrightarrow> length (avail sb) \<le> max_buf_size sb \<and> no_empty_chunks (stream sb)"

definition same_view :: "'e stream_buf \<Rightarrow> 'e stream_buf \<Rightarrow> bool" where
  "same_view sb1 sb2 \<longleftrightarrow> avail sb1 = avail sb2 \<and> tail sb1 = tail sb2"

text \<open>The error with which a read past the end fails.\<close>

definition end_error :: "string \<Rightarrow> 'e err option \<Rightarrow> 'e err" where
  "end_error msg t = (case t of None \<Rightarrow> unexpected_eof msg | Some e \<Rightarrow> e)"

lemma no_empty_chunks_simps [simp]:
  "no_empty_chunks []"
  "no_empty_chunks (Wait # st) = no_empty_chunks st"
  "no_empty_chunks (Yield (Inl e) # st) = no_empty_chunks st"
  "no_empty_chunks (Yield (Inr d) # st) \<longleftrightarrow> d \<noteq> [] \<and> no_empty_chunks st"
  by (auto simp: no_empty_chunks_def)

lemmas view_defs = avail_def tail_def wf_buf_def same_view_def

lemma wf_buf_from_bytes [simp]: "wf_buf (stream_buf_from bs)"
  by (simp add: wf_buf_def avail_def stream_buf_from_def)

lemma avail_from_bytes [simp]: "avail (stream_buf_from bs) = bs"
  by (simp add: avail_def stream_buf_from_def)

lemma tail_from_bytes [simp]: "tail (stream_buf_from bs) = None"
  by (simp add: tail_def stream_buf_from_def)

subsection \<open>What the reads return\<close>

text \<open>A read of \<open>len\<close> bytes cannot run into the buffer limit.\<close>

definition roomy :: "nat \<Rightarrow> 'e stream_buf \<Rightarrow> bool" where
  "roomy len sb \<longleftrightarrow> len \<le> Suc (max_buf_size sb) \<or> length (avail sb) \<le> max_buf_size sb"

text \<open>
  The buffer after a successful read: the rest of the bytes, the same end, the same limit
  and a later position in the same stream.
\<close>

definition advanced_to :: "bytes \<Rightarrow> 'e stream_buf \<Rightarrow> 'e stream_buf \<Rightarrow> bool" where
  "advanced_to rest sb sb' \<longleftrightarrow> avail sb' = rest \<and> tail sb' = tail sb
     \<and> max_buf_size sb' = max_buf_size sb \<and> (\<exists>k. stream sb' = drop k (stream sb))"

lemma advanced_to_trans:
  "advanced_to r sb sb' \<Longrightarrow> advanced_to r' sb' sb'' \<Longrightarrow> advanced_to r' sb sb''"
  by (auto simp: advanced_to_def)

lemma advanced_to_Wait:
  assumes "stream sb = Wait # st" and "advanced_to r (sb\<lparr>stream := st\<rparr>) sb'"
  shows "advanced_to r sb sb'"
proof -
  from assms have "\<exists>k. stream sb' = drop (Suc k) (stream sb)" by (auto simp: advanced_to_def)
  then have "\<exists>k. stream sb' = drop k (stream sb)" by blast
  with assms show ?thesis by (simp add: advanced_to_def tail_def)
qed

lemma advanced_to_Yield:
  assumes "stream sb = Yield (Inr d) # st" and "advanced_to r (sb\<lparr>stream := st, buf := b\<rparr>) sb'"
  shows "advanced_to r sb sb'"
proof -
  from assms have "\<exists>k. stream sb' = drop (Suc k) (stream sb)" by (auto simp: advanced_to_def)
  then have "\<exists>k. stream sb' = drop k (stream sb)" by blast
  with assms show ?thesis by (simp add: advanced_to_def tail_def)
qed

lemma advanced_to_wf:
  assumes "wf_buf sb" and "advanced_to rest sb sb'" and "length rest \<le> length (avail sb)"
  shows "wf_buf sb'"
proof -
  from assms(2) obtain k where "stream sb' = drop k (stream sb)" by (auto simp: advanced_to_def)
  with assms(1) have "no_empty_chunks (stream sb')"
    by (auto simp: wf_buf_def no_empty_chunks_def dest: in_set_dropD)
  with assms show ?thesis by (simp add: wf_buf_def advanced_to_def)
qed

lemma advanced_to_drop: "len \<le> length (buf sb) \<Longrightarrow>
    advanced_to (drop len (avail sb)) sb (sb\<lparr>buf := drop len (buf sb)\<rparr>)"
  by (auto simp: advanced_to_def avail_def tail_def intro: exI [of _ 0])

text \<open>One event at the head of the stream does not change what is to come.\<close>

lemma avail_Wait [simp]:
  "stream sb = Wait # st \<Longrightarrow> avail (sb\<lparr>stream := st\<rparr>) = avail sb"
  by (simp add: avail_def)

lemma avail_Yield [simp]:
  "stream sb = Yield (Inr d) # st \<Longrightarrow> avail (sb\<lparr>stream := st, buf := buf sb @ d\<rparr>) = avail sb"
  by (simp add: avail_def)

lemma event_cases [case_names W E D]:
  assumes "e = Wait \<Longrightarrow> P" and "\<And>x. e = Yield (Inl x) \<Longrightarrow> P" and "\<And>d. e = Yield (Inr d) \<Longrightarrow> P"
  shows P
  using assms by (metis event.exhaust sum.exhaust)

lemma read_exact_Inr_aux:
  "stream sb = st \<Longrightarrow> len \<le> length (avail sb) \<Longrightarrow> roomy len sb \<Longrightarrow>
   \<exists>sb'. read_exact len sb = Some (Inr (take len (avail sb)), sb')
     \<and> advanced_to (drop len (avail sb)) sb sb'"
proof (induction st arbitrary: sb)
  case Nil
  then have "len \<le> length (buf sb)" by (simp add: avail_def)
  with Nil show ?case
    by (simp add: read_exact_unfold [of len sb] advanced_to_drop) (simp add: avail_def)
next
  case (Cons e st)
  show ?case
  proof (cases "len \<le> length (buf sb)")
    case True
    then show ?thesis
      by (simp add: read_exact_unfold [of len sb] advanced_to_drop) (simp add: avail_def)
  next
    case False
    with Cons.prems have "\<not> max_buf_size sb < length (buf sb)"
      by (auto simp: roomy_def avail_def)
    note step = read_exact_unfold [of len sb] False this Cons.prems(1)
    show ?thesis
    proof (cases e rule: event_cases)
      case W
      let ?sb = "sb\<lparr>stream := st\<rparr>"
      have "avail ?sb = avail sb" using Cons.prems(1) W by simp
      with Cons.IH [of ?sb] Cons.prems obtain sb' where
        "read_exact len ?sb = Some (Inr (take len (avail sb)), sb')"
        "advanced_to (drop len (avail sb)) ?sb sb'"
        by (auto simp: roomy_def)
      with step W show ?thesis
        by (auto intro: advanced_to_Wait)
    next
      case (E x)
      with Cons.prems False show ?thesis by (simp add: avail_def)
    next
      case (D d)
      let ?sb = "sb\<lparr>stream := st, buf := buf sb @ d\<rparr>"
      have "avail ?sb = avail sb" using Cons.prems(1) D by simp
      with Cons.IH [of ?sb] Cons.prems obtain sb' where
        "read_exact len ?sb = Some (Inr (take len (avail sb)), sb')"
        "advanced_to (drop len (avail sb)) ?sb sb'"
        by (auto simp: roomy_def)
      with step D show ?thesis
        by (auto intro: advanced_to_Yield)
    qed
  qed
qed

lemmas read_exact_Inr = read_exact_Inr_aux [OF refl]

lemma read_exact_Inl_aux:
  "stream sb = st \<Longrightarrow> length (avail sb) < len \<Longrightarrow> roomy len sb \<Longrightarrow>
   \<exists>sb'. read_exact len sb
     = Some (Inl (end_error ''could not read exact amount of bytes'' (tail sb)), sb')"
proof (induction st arbitrary: sb)
  case Nil
  then show ?case
    by (auto simp: read_exact_unfold [of len sb] avail_def tail_def end_error_def roomy_def)
next
  case (Cons e st)
  have "\<not> len \<le> length (buf sb)" "\<not> max_buf_size sb < length (buf sb)"
    using Cons.prems by (auto simp: roomy_def avail_def)
  note step = read_exact_unfold [of len sb] this Cons.prems(1)
  show ?case
  proof (cases e rule: event_cases)
    case W
    with Cons.prems Cons.IH [of "sb\<lparr>stream := st\<rparr>"] step show ?thesis
      by (simp add: roomy_def) (simp add: tail_def)
  next
    case (E x)
    with step show ?thesis by (simp add: tail_def end_error_def)
  next
    case (D d)
    with Cons.prems Cons.IH [of "sb\<lparr>stream := st, buf := buf sb @ d\<rparr>"] step
    show ?thesis by (simp add: roomy_def) (simp add: tail_def)
  qed
qed

lemmas read_exact_Inl = read_exact_Inl_aux [OF refl]

text \<open>Reading to the end: everything, unless the stream fails first.\<close>

lemma read_to_end_result:
  "stream sb = st \<Longrightarrow>
   (\<exists>sb'. read_to_end sb = Some (case tail sb of None \<Rightarrow> Inr (avail sb) | Some e \<Rightarrow> Inl e, sb')
     \<and> (tail sb = None \<longrightarrow> advanced_to [] sb sb'))"
proof (induction st arbitrary: sb)
  case Nil
  then show ?case
    by (auto simp: read_to_end_unfold [of sb] avail_def tail_def advanced_to_def)
next
  case (Cons e st)
  note step = read_to_end_unfold [of sb] Cons.prems
  show ?case
  proof (cases e rule: event_cases)
    case W
    let ?sb = "sb\<lparr>stream := st\<rparr>"
    have eqs: "avail ?sb = avail sb" "tail ?sb = tail sb"
      using Cons.prems W by (simp_all add: tail_def)
    obtain sb' where
      "read_to_end ?sb = Some (case tail sb of None \<Rightarrow> Inr (avail sb) | Some e \<Rightarrow> Inl e, sb')"
      "tail sb = None \<longrightarrow> advanced_to [] ?sb sb'"
      using Cons.IH [of ?sb] unfolding eqs by force
    with step W show ?thesis
      by (auto intro: advanced_to_Wait)
  next
    case (E x)
    with step show ?thesis by (auto simp: tail_def)
  next
    case (D d)
    let ?sb = "sb\<lparr>stream := st, buf := buf sb @ d\<rparr>"
    have eqs: "avail ?sb = avail sb" "tail ?sb = tail sb"
      using Cons.prems D by (simp_all add: tail_def)
    obtain sb' where
      "read_to_end ?sb = Some (case tail sb of None \<Rightarrow> Inr (avail sb) | Some e \<Rightarrow> Inl e, sb')"
      "tail sb = None \<longrightarrow> advanced_to [] ?sb sb'"
      using Cons.IH [of ?sb] unfolding eqs by force
    with step D show ?thesis
      by (auto intro: advanced_to_Yield)
  qed
qed

text \<open>
  Asking for more data: exact when no chunk of the stream is empty.
\<close>

lemma has_more_data_result:
  "stream sb = st \<Longrightarrow> no_empty_chunks st \<Longrightarrow>
   (\<exists>sb'. has_more_data sb =
       Some (if avail sb \<noteq> [] then Inr True
             else case tail sb of None \<Rightarrow> Inr False | Some e \<Rightarrow> Inl e, sb')
     \<and> (avail sb \<noteq> [] \<or> tail sb = None \<longrightarrow> advanced_to (avail sb) sb sb'))"
proof (induction st arbitrary: sb)
  case Nil
  then show ?case
    by (auto simp: has_more_data_unfold [of sb] avail_def tail_def advanced_to_def)
next
  case (Cons e st)
  note step = has_more_data_unfold [of sb] Cons.prems(1)
  show ?case
  proof (cases "buf sb = []")
    case False
    then show ?thesis
      by (auto simp: step avail_def advanced_to_def intro: exI [of _ 0])
  next
    case empty: True
    show ?thesis
    proof (cases e rule: event_cases)
      case W
      let ?sb = "sb\<lparr>stream := st\<rparr>"
      have eqs: "avail ?sb = avail sb" "tail ?sb = tail sb"
        using Cons.prems W by (simp_all add: tail_def)
      have "stream ?sb = st" "no_empty_chunks st" using Cons.prems W by simp_all
      note IH = Cons.IH [OF this, unfolded eqs]
      obtain sb' where
        "has_more_data ?sb = Some (if avail sb \<noteq> [] then Inr True
             else case tail sb of None \<Rightarrow> Inr False | Some e \<Rightarrow> Inl e, sb')"
        "avail sb \<noteq> [] \<or> tail sb = None \<longrightarrow> advanced_to (avail sb) ?sb sb'"
        using IH by (elim exE conjE) (rule that)
      with step W empty show ?thesis
        by (auto intro: advanced_to_Wait)
    next
      case (E x)
      with step empty show ?thesis by (auto simp: tail_def avail_def)
    next
      case (D d)
      with Cons.prems have "d \<noteq> []" by simp
      with step D empty show ?thesis
        by (auto simp: tail_def avail_def advanced_to_def intro: exI [of _ 1])
    qed
  qed
qed

subsection \<open>Independence of the chunking\<close>

text \<open>
  Two outcomes agree when both computations complete, with the same error, or with the
  same value and buffers of the same view.
\<close>

definition same_outcome ::
  "(('a, 'e) result \<times> 'e stream_buf) option \<Rightarrow> (('a, 'e) result \<times> 'e stream_buf) option \<Rightarrow> bool" where
  "same_outcome o1 o2 \<longleftrightarrow>
     (\<exists>e s1 s2. o1 = Some (Inl e, s1) \<and> o2 = Some (Inl e, s2))
   \<or> (\<exists>a s1 s2. o1 = Some (Inr a, s1) \<and> o2 = Some (Inr a, s2)
        \<and> wf_buf s1 \<and> wf_buf s2 \<and> same_view s1 s2)"

definition chunk_invariant_below :: "nat \<Rightarrow> ('e stream_buf, 'a, 'e) async \<Rightarrow> bool" where
  "chunk_invariant_below k m \<longleftrightarrow>
     (\<forall>sb1 sb2. wf_buf sb1 \<longrightarrow> wf_buf sb2 \<longrightarrow> same_view sb1 sb2 \<longrightarrow> length (avail sb1) < k \<longrightarrow>
        same_outcome (m sb1) (m sb2)
      \<and> (\<forall>a s. m sb1 = Some (Inr a, s) \<longrightarrow> length (avail s) \<le> length (avail sb1)))"

text \<open>
  An operation is independent of the chunking when buffers of the same view give outcomes
  that agree, and it never puts bytes back. The bounded form is for loops, whose
  independence is shown by induction on the number of bytes to come.
\<close>

definition chunk_invariant :: "('e stream_buf, 'a, 'e) async \<Rightarrow> bool" where
  "chunk_invariant m \<longleftrightarrow> (\<forall>k. chunk_invariant_below k m)"

lemma chunk_invariant_belowI:
  "(\<And>sb1 sb2. wf_buf sb1 \<Longrightarrow> wf_buf sb2 \<Longrightarrow> same_view sb1 sb2 \<Longrightarrow> length (avail sb1) < k \<Longrightarrow>
      same_outcome (m sb1) (m sb2)
      \<and> (\<forall>a s. m sb1 = Some (Inr a, s) \<longrightarrow> length (avail s) \<le> length (avail sb1)))
   \<Longrightarrow> chunk_invariant_below k m"
  by (simp add: chunk_invariant_below_def)

lemma chunk_invariantI:
  "(\<And>sb1 sb2. wf_buf sb1 \<Longrightarrow> wf_buf sb2 \<Longrightarrow> same_view sb1 sb2 \<Longrightarrow>
      same_outcome (m sb1) (m sb2)
      \<and> (\<forall>a s. m sb1 = Some (Inr a, s) \<longrightarrow> length (avail s) \<le> length (avail sb1)))
   \<Longrightarrow> chunk_invariant m"
  by (simp add: chunk_invariant_def chunk_invariant_below_def)

lemma chunk_invariantD:
  assumes "chunk_invariant m" "wf_buf sb1" "wf_buf sb2" "same_view sb1 sb2"
  shows "same_outcome (m sb1) (m sb2)"
  using assms unfolding chunk_invariant_def chunk_invariant_below_def by blast

lemma chunk_invariant_below: "chunk_invariant m \<Longrightarrow> chunk_invariant_below k m"
  by (simp add: chunk_invariant_def)

lemma same_outcome_cases:
  assumes "same_outcome o1 o2"
  obtains (err) e s1 s2 where "o1 = Some (Inl e, s1)" "o2 = Some (Inl e, s2)"
  | (ok) a s1 s2 where "o1 = Some (Inr a, s1)" "o2 = Some (Inr a, s2)"
      "wf_buf s1" "wf_buf s2" "same_view s1 s2"
  using assms by (auto simp: same_outcome_def)

named_theorems chunk_inv \<open>operations that do not see chunk boundaries\<close>

text \<open>An operation described by the view alone is independent of the chunking.\<close>

lemma chunk_invariant_by_view:
  assumes "\<And>sb. wf_buf sb \<Longrightarrow> \<exists>sb'. m sb = Some (f (avail sb) (tail sb), sb')
      \<and> (\<forall>a. f (avail sb) (tail sb) = Inr a \<longrightarrow>
            advanced_to (g (avail sb)) sb sb' \<and> length (g (avail sb)) \<le> length (avail sb))"
  shows "chunk_invariant m"
proof (rule chunk_invariantI)
  fix sb1 sb2 :: "'a stream_buf"
  assume wf: "wf_buf sb1" "wf_buf sb2" and sv: "same_view sb1 sb2"
  let ?r = "f (avail sb1) (tail sb1)"
  from assms [OF wf(1)] assms [OF wf(2)] sv obtain s1 s2 where
    o: "m sb1 = Some (?r, s1)" "m sb2 = Some (?r, s2)"
    and adv: "\<And>a. ?r = Inr a \<Longrightarrow> advanced_to (g (avail sb1)) sb1 s1
           \<and> advanced_to (g (avail sb1)) sb2 s2 \<and> length (g (avail sb1)) \<le> length (avail sb1)"
    by (auto simp: same_view_def)
  show "same_outcome (m sb1) (m sb2)
      \<and> (\<forall>a s. m sb1 = Some (Inr a, s) \<longrightarrow> length (avail s) \<le> length (avail sb1))"
  proof (cases ?r)
    case (Inl e)
    with o show ?thesis by (auto simp: same_outcome_def)
  next
    case (Inr a)
    note adv = adv [OF this]
    from adv wf sv have "wf_buf s1" "wf_buf s2"
      by (auto simp: same_view_def intro: advanced_to_wf)
    moreover from adv sv have "same_view s1 s2"
      by (auto simp: same_view_def advanced_to_def)
    ultimately show ?thesis using o Inr adv by (auto simp: same_outcome_def advanced_to_def)
  qed
qed

lemma chunk_invariant_alift [chunk_inv]: "chunk_invariant (alift r)"
  by (rule chunk_invariantI, cases r) (auto simp: same_outcome_def)

lemma chunk_invariant_aret [chunk_inv]: "chunk_invariant (aret a)"
  by (rule chunk_invariantI) (auto simp: same_outcome_def)

text \<open>
  Sequencing: the second operation runs on no more bytes than the first, and on fewer when
  the first consumes.
\<close>

lemma chunk_invariant_below_seq:
  assumes m: "chunk_invariant_below k m"
    and f: "\<And>a sb s. wf_buf sb \<Longrightarrow> length (avail sb) < k \<Longrightarrow> m sb = Some (Inr a, s)
        \<Longrightarrow> \<exists>j. length (avail s) < j \<and> chunk_invariant_below j (f a)"
  shows "chunk_invariant_below k (abind m f)"
proof (rule chunk_invariant_belowI)
  fix sb1 sb2 :: "'a stream_buf"
  assume h: "wf_buf sb1" "wf_buf sb2" "same_view sb1 sb2" "length (avail sb1) < k"
  from m h have "same_outcome (m sb1) (m sb2)" by (simp add: chunk_invariant_below_def)
  then show "same_outcome (abind m f sb1) (abind m f sb2)
      \<and> (\<forall>a s. abind m f sb1 = Some (Inr a, s) \<longrightarrow> length (avail s) \<le> length (avail sb1))"
  proof (cases rule: same_outcome_cases)
    case (err e s1 s2)
    then show ?thesis by (auto simp: async_simps same_outcome_def)
  next
    case (ok a s1 s2)
    from f [OF h(1,4) ok(1)] obtain j where
      j: "length (avail s1) < j" "chunk_invariant_below j (f a)" by blast
    moreover from m h ok have "length (avail s1) \<le> length (avail sb1)"
      unfolding chunk_invariant_below_def by blast
    ultimately show ?thesis
      using ok h unfolding chunk_invariant_below_def by (fastforce simp: async_simps)
  qed
qed

lemma chunk_invariant_below_abind:
  assumes m: "chunk_invariant_below k m" and f: "\<And>a. chunk_invariant_below k (f a)"
  shows "chunk_invariant_below k (abind m f)"
proof (rule chunk_invariant_below_seq [OF m])
  fix a and sb s :: "'a stream_buf"
  assume "wf_buf sb" "length (avail sb) < k" "m sb = Some (Inr a, s)"
  with m have "length (avail s) < k"
    unfolding chunk_invariant_below_def same_view_def by (blast intro: le_less_trans)
  with f show "\<exists>j. length (avail s) < j \<and> chunk_invariant_below j (f a)" by blast
qed

definition consumes :: "('e stream_buf, 'a, 'e) async \<Rightarrow> bool" where
  "consumes m \<longleftrightarrow> (\<forall>sb a s. wf_buf sb \<longrightarrow> m sb = Some (Inr a, s) \<longrightarrow>
     length (avail s) < length (avail sb))"

lemma chunk_invariant_below_consume:
  assumes m: "chunk_invariant m" and c: "consumes m"
    and f: "\<And>a j. j < k \<Longrightarrow> chunk_invariant_below j (f a)"
  shows "chunk_invariant_below k (abind m f)"
proof (rule chunk_invariant_below_seq [OF chunk_invariant_below [OF m]])
  fix a and sb s :: "'a stream_buf"
  assume h: "wf_buf sb" "length (avail sb) < k" "m sb = Some (Inr a, s)"
  with c have "length (avail s) < length (avail sb)" by (auto simp: consumes_def)
  with f [OF h(2)] show "\<exists>j. length (avail s) < j \<and> chunk_invariant_below j (f a)" by blast
qed

lemma chunk_invariant_abind [chunk_inv]:
  assumes "chunk_invariant m" and "\<And>a. chunk_invariant (f a)"
  shows "chunk_invariant (abind m f)"
  unfolding chunk_invariant_def
  using assms by (auto intro!: chunk_invariant_below_abind intro: chunk_invariant_below)

lemma chunk_invariant_aloop:
  assumes inv: "\<And>a. chunk_invariant (round a)"
    and dec: "\<And>a a' sb s. wf_buf sb \<Longrightarrow> round a sb = Some (Inr (a', True), s) \<Longrightarrow>
        length (avail s) < length (avail sb)"
  shows "chunk_invariant (aloop round a)"
proof -
  have "chunk_invariant_below k (aloop round a)" for k a
  proof (induction k arbitrary: a rule: less_induct)
    case (less k)
    show ?case
      unfolding aloop_unfold [of round a]
    proof (rule chunk_invariant_below_seq [OF chunk_invariant_below [OF inv]])
      fix p and sb s :: "'b stream_buf"
      assume h: "wf_buf sb" "length (avail sb) < k" "round a sb = Some (Inr p, s)"
      obtain a' go_on where p: "p = (a', go_on)" by (cases p)
      show "\<exists>j. length (avail s) < j
          \<and> chunk_invariant_below j (case p of (a', go_on) \<Rightarrow> if go_on then aloop round a' else aret a')"
      proof (cases go_on)
        case True
        with dec h p less.IH [OF h(2)] show ?thesis by fastforce
      next
        case False
        with p show ?thesis
          by (auto intro!: exI [of _ "Suc (length (avail s))"]
              chunk_invariant_below [OF chunk_invariant_aret])
      qed
    qed
  qed
  then show ?thesis by (simp add: chunk_invariant_def)
qed

text \<open>How much an operation has read when it succeeds.\<close>

lemma chunk_invariant_shrinks:
  assumes "chunk_invariant m" "wf_buf sb" "m sb = Some (Inr a, s)"
  shows "length (avail s) \<le> length (avail sb)" "wf_buf s"
proof -
  have "same_view sb sb" by (simp add: same_view_def)
  with assms have so: "same_outcome (m sb) (m sb)"
      and "\<forall>a s. m sb = Some (Inr a, s) \<longrightarrow> length (avail s) \<le> length (avail sb)"
    unfolding chunk_invariant_def chunk_invariant_below_def by blast+
  with assms show "length (avail s) \<le> length (avail sb)" "wf_buf s"
    by (auto elim!: same_outcome_cases)
qed

lemma consumes_abind1:
  assumes "consumes m" "chunk_invariant m" "\<And>a. chunk_invariant (f a)"
  shows "consumes (abind m f)"
  unfolding consumes_def
proof (intro allI impI)
  fix sb s :: "'a stream_buf" and b
  assume wf: "wf_buf sb" and r: "abind m f sb = Some (Inr b, s)"
  then obtain a s' where "m sb = Some (Inr a, s')" "f a s' = Some (Inr b, s)"
    by (auto simp: abind_def split: Option.bind_splits sum.splits)
  with assms wf show "length (avail s) < length (avail sb)"
    using chunk_invariant_shrinks [of m] chunk_invariant_shrinks(1) [of "f a"]
    by (fastforce simp: consumes_def)
qed

lemma consumes_abind2:
  assumes "chunk_invariant m" "\<And>a. consumes (f a)"
  shows "consumes (abind m f)"
  unfolding consumes_def
proof (intro allI impI)
  fix sb s :: "'a stream_buf" and b
  assume wf: "wf_buf sb" and r: "abind m f sb = Some (Inr b, s)"
  then obtain a s' where "m sb = Some (Inr a, s')" "f a s' = Some (Inr b, s)"
    by (auto simp: abind_def split: Option.bind_splits sum.splits)
  with assms wf show "length (avail s) < length (avail sb)"
    using chunk_invariant_shrinks [of m] by (fastforce simp: consumes_def)
qed

lemma roomy_wf: "wf_buf sb \<Longrightarrow> roomy len sb"
  by (simp add: wf_buf_def roomy_def)

lemma chunk_invariant_read_exact [chunk_inv]: "chunk_invariant (read_exact len)"
proof (rule chunk_invariant_by_view)
  fix sb :: "'a stream_buf"
  assume "wf_buf sb"
  then have "roomy len sb" by (rule roomy_wf)
  then show "\<exists>sb'. read_exact len sb = Some
      ((if len \<le> length (avail sb) then Inr (take len (avail sb))
        else Inl (end_error ''could not read exact amount of bytes'' (tail sb))), sb')
    \<and> (\<forall>a. (if len \<le> length (avail sb) then Inr (take len (avail sb))
        else Inl (end_error ''could not read exact amount of bytes'' (tail sb))) = Inr a \<longrightarrow>
       advanced_to (drop len (avail sb)) sb sb' \<and> length (drop len (avail sb)) \<le> length (avail sb))"
    using read_exact_Inr [of len sb] read_exact_Inl [of sb len] by (cases "len \<le> length (avail sb)") auto
qed

lemma chunk_invariant_has_more_data [chunk_inv]: "chunk_invariant has_more_data"
proof (rule chunk_invariant_by_view)
  fix sb :: "'a stream_buf"
  assume "wf_buf sb"
  then show "\<exists>sb'. has_more_data sb = Some
      ((if avail sb \<noteq> [] then Inr True else case tail sb of None \<Rightarrow> Inr False | Some e \<Rightarrow> Inl e), sb')
    \<and> (\<forall>a. (if avail sb \<noteq> [] then Inr True
            else case tail sb of None \<Rightarrow> Inr False | Some e \<Rightarrow> Inl e) = Inr a \<longrightarrow>
       advanced_to (avail sb) sb sb' \<and> length (avail sb) \<le> length (avail sb))"
    using has_more_data_result [OF refl, of sb]
    by (auto simp: wf_buf_def split: if_splits option.splits)
qed

lemma chunk_invariant_read_to_end [chunk_inv]: "chunk_invariant read_to_end"
proof (rule chunk_invariant_by_view)
  fix sb :: "'a stream_buf"
  show "\<exists>sb'. read_to_end sb = Some ((case tail sb of None \<Rightarrow> Inr (avail sb) | Some e \<Rightarrow> Inl e), sb')
    \<and> (\<forall>a. (case tail sb of None \<Rightarrow> Inr (avail sb) | Some e \<Rightarrow> Inl e) = Inr a \<longrightarrow>
       advanced_to [] sb sb' \<and> length ([] :: bytes) \<le> length (avail sb))"
    using read_to_end_result [OF refl, of sb] by (auto split: option.splits)
qed

subsection \<open>Streams that deliver what a relation describes\<close>

text \<open>
  For a stream with an intended meaning, \<open>del s out t\<close> says that from state
  \<open>s\<close> it delivers the bytes \<open>out\<close> and then ends (\<open>t = None\<close>) or fails.
  A poll respects the meaning when, together with what the new state delivers, it makes
  what the old state delivers; a stream all of whose polls do, delivers it.
\<close>

definition step_delivers ::
  "('s \<Rightarrow> bool) \<Rightarrow> ('s \<Rightarrow> bytes \<Rightarrow> 'e err option \<Rightarrow> bool)
     \<Rightarrow> 's \<Rightarrow> (bytes, 'e) result option poll \<Rightarrow> 's \<Rightarrow> bool" where
  "step_delivers ok del s p s' \<longleftrightarrow>
     (case p of
        Pending \<Rightarrow> ok s' \<and> (\<forall>out t. del s' out t \<longrightarrow> del s out t)
      | Ready None \<Rightarrow> del s [] None
      | Ready (Some (Inl e)) \<Rightarrow> del s [] (Some e)
      | Ready (Some (Inr d)) \<Rightarrow> ok s' \<and> (\<forall>out t. del s' out t \<longrightarrow> del s (d @ out) t))"

locale delivering_stream = progressing_stream poll polls_left
  for poll :: "'s \<Rightarrow> (bytes, 'e) result option poll \<times> 's" and polls_left :: "'s \<Rightarrow> nat" +
  fixes ok :: "'s \<Rightarrow> bool" and del :: "'s \<Rightarrow> bytes \<Rightarrow> 'e err option \<Rightarrow> bool"
  assumes step: "ok s \<Longrightarrow> poll s = (p, s') \<Longrightarrow> step_delivers ok del s p s'"
begin

lemma events_deliver:
  "ok s \<Longrightarrow> del s (stream_bytes (events_upto (Suc (polls_left s)) poll s))
     (stream_tail (events_upto (Suc (polls_left s)) poll s))"
proof (induction "polls_left s" arbitrary: s rule: less_induct)
  case less
  obtain p s' where r: "poll s = (p, s')" by (cases "poll s")
  note events = events_step [OF r] and st = step [OF less.prems r]
  show ?case
  proof (cases "goes_on p")
    case True
    from progress [OF r True] have lt: "polls_left s' < polls_left s" .
    from True st have "ok s'"
      by (auto simp: step_delivers_def goes_on_def split: poll.splits option.splits sum.splits)
    from less.hyps [OF lt this] st True events show ?thesis
      by (auto simp: step_delivers_def goes_on_def split: poll.splits option.splits sum.splits)
  next
    case False
    with st events show ?thesis
      by (auto simp: step_delivers_def goes_on_def split: poll.splits option.splits sum.splits)
  qed
qed

end

lemma step_delivers_mono:
  assumes "step_delivers ok del s p s'" and "\<And>out t. del s out t \<Longrightarrow> del s0 out t"
  shows "step_delivers ok del s0 p s'"
  using assms by (auto simp: step_delivers_def split: poll.splits option.splits sum.splits)

subsection \<open>Polls that are not ready, and the size of the buffer\<close>

text \<open>A poll that returns \<open>Pending\<close> has consumed no byte and kept the end of the stream.\<close>

lemma append_view:
  "stream sb = Yield (Inr d) # st \<Longrightarrow> same_view sb' (sb\<lparr>stream := st, buf := buf sb @ d\<rparr>)
   \<Longrightarrow> same_view sb' sb"
  by (simp add: same_view_def avail_def tail_def)

lemma poll_read_exact_Pending_aux:
  "stream sb = st \<Longrightarrow> poll_read_exact len sb = (Pending, sb') \<Longrightarrow> same_view sb' sb"
proof (induction st arbitrary: sb)
  case Nil
  then show ?case
    by (simp add: poll_read_exact_eq [of len sb] Let_def split: if_splits sum.splits)
next
  case (Cons e st)
  from Cons.prems have guard: "length (buf sb) < len" "length (buf sb) \<le> max_buf_size sb"
    by (auto simp: poll_read_exact_eq [of len sb] check_max_buf_size_def split: if_splits)
  show ?case
  proof (cases e rule: event_cases)
    case W
    with Cons.prems guard show ?thesis
      by (auto simp: poll_read_exact_eq [of len sb] check_max_buf_size_def Let_def
          same_view_def avail_def tail_def)
  next
    case (E x)
    with Cons.prems guard show ?thesis
      by (simp add: poll_read_exact_eq [of len sb] check_max_buf_size_def Let_def)
  next
    case (D d)
    with Cons.prems have st: "stream sb = Yield (Inr d) # st" by simp
    show ?thesis
      using Cons.IH [of "sb\<lparr>stream := st, buf := buf sb @ d\<rparr>"] Cons.prems(2)
      unfolding poll_read_exact_data [OF guard st] by (auto intro: append_view [OF st])
  qed
qed

lemmas poll_read_exact_Pending = poll_read_exact_Pending_aux [OF refl]

lemma poll_read_to_end_Pending_aux:
  "stream sb = st \<Longrightarrow> poll_read_to_end sb = (Pending, sb') \<Longrightarrow> same_view sb' sb"
proof (induction st arbitrary: sb)
  case Nil
  then show ?case by (simp add: poll_read_to_end.simps [of sb])
next
  case (Cons e st)
  show ?case
  proof (cases e rule: event_cases)
    case W
    with Cons.prems show ?thesis
      by (auto simp: poll_read_to_end.simps [of sb] same_view_def avail_def tail_def)
  next
    case (E x)
    with Cons.prems show ?thesis by (simp add: poll_read_to_end.simps [of sb])
  next
    case (D d)
    with Cons.prems have st: "stream sb = Yield (Inr d) # st" by simp
    show ?thesis
      using Cons.IH [of "sb\<lparr>stream := st, buf := buf sb @ d\<rparr>"] Cons.prems(2)
      unfolding poll_read_to_end_data [OF st] by (auto intro: append_view [OF st])
  qed
qed

lemmas poll_read_to_end_Pending = poll_read_to_end_Pending_aux [OF refl]

lemma poll_fill_buf_Pending: "poll_fill_buf sb = (Pending, sb') \<Longrightarrow> same_view sb' sb"
  by (cases "stream sb" rule: stream_poll_next.cases)
    (auto simp: poll_fill_buf_def same_view_def avail_def tail_def split: sum.splits)

lemma poll_has_more_data_Pending: "poll_has_more_data sb = (Pending, sb') \<Longrightarrow> same_view sb' sb"
  by (cases "stream sb" rule: stream_poll_next.cases)
    (auto simp: poll_has_more_data_def same_view_def avail_def tail_def split: if_splits sum.splits)

lemma poll_read_at_most_Pending:
  "poll_read_at_most len sb = (Pending, sb') \<Longrightarrow> same_view sb' sb"
  by (auto simp: poll_read_at_most_eq Let_def intro: poll_fill_buf_Pending
      split: if_splits sum.splits option.splits poll.splits prod.splits)

text \<open>
  The buffer holds at most its limit and one chunk more: the limit is checked before every
  chunk that a bounded read adds.
\<close>

definition chunks_at_most :: "nat \<Rightarrow> 'e stream \<Rightarrow> bool" where
  "chunks_at_most n st \<longleftrightarrow> (\<forall>d. Yield (Inr d) \<in> set st \<longrightarrow> length d \<le> n)"

definition buf_bounded :: "nat \<Rightarrow> 'e stream_buf \<Rightarrow> bool" where
  "buf_bounded n sb \<longleftrightarrow> length (buf sb) \<le> max_buf_size sb + n \<and> chunks_at_most n (stream sb)"

lemma chunks_at_most_simps [simp]:
  "chunks_at_most n []"
  "chunks_at_most n (Wait # st) = chunks_at_most n st"
  "chunks_at_most n (Yield (Inl e) # st) = chunks_at_most n st"
  "chunks_at_most n (Yield (Inr d) # st) \<longleftrightarrow> length d \<le> n \<and> chunks_at_most n st"
  by (auto simp: chunks_at_most_def)

lemma poll_read_exact_bounded_aux:
  "stream sb = st \<Longrightarrow> buf_bounded n sb \<Longrightarrow> buf_bounded n (snd (poll_read_exact len sb))"
proof (induction st arbitrary: sb)
  case Nil
  then show ?case
    by (auto simp: poll_read_exact_eq [of len sb] Let_def buf_bounded_def split: sum.splits)
next
  case (Cons e st)
  show ?case
  proof (cases "length (buf sb) < len \<and> length (buf sb) \<le> max_buf_size sb")
    case False
    with Cons.prems show ?thesis
      by (auto simp: poll_read_exact_eq [of len sb] buf_bounded_def check_max_buf_size_def)
  next
    case guard: True
    show ?thesis
    proof (cases e rule: event_cases)
      case (D d)
      with Cons.prems have st: "stream sb = Yield (Inr d) # st" by simp
      have "buf_bounded n (sb\<lparr>stream := st, buf := buf sb @ d\<rparr>)"
        using Cons.prems(2) guard st by (simp add: buf_bounded_def)
      with Cons.IH [of "sb\<lparr>stream := st, buf := buf sb @ d\<rparr>"] guard show ?thesis
        using poll_read_exact_data [OF _ _ st, of len] by simp
    qed (use Cons.prems guard in \<open>simp_all add: poll_read_exact_eq [of len sb]
        check_max_buf_size_def Let_def buf_bounded_def\<close>)
  qed
qed

lemmas poll_read_exact_bounded = poll_read_exact_bounded_aux [OF refl]

lemma poll_fill_buf_bounded: "buf_bounded n sb \<Longrightarrow> buf_bounded n (snd (poll_fill_buf sb))"
  by (cases "stream sb" rule: stream_poll_next.cases)
    (auto simp: poll_fill_buf_def buf_bounded_def check_max_buf_size_def split: sum.splits)

subsection \<open>Progress and results of single polls\<close>

text \<open>The events and bytes that are left, which every poll of the buffer uses up.\<close>

fun stream_weight :: "'e stream \<Rightarrow> nat" where
  "stream_weight [] = 0"
| "stream_weight (Wait # st) = Suc (stream_weight st)"
| "stream_weight (Yield (Inl e) # st) = Suc (stream_weight st)"
| "stream_weight (Yield (Inr d) # st) = Suc (length d + stream_weight st)"

definition weight :: "'e stream_buf \<Rightarrow> nat" where
  "weight sb = length (buf sb) + stream_weight (stream sb)"

lemma goes_on_simps [simp]:
  "goes_on Pending" "goes_on (Ready (Some (Inr d)))"
  "\<not> goes_on (Ready None)" "\<not> goes_on (Ready (Some (Inl e)))"
  by (simp_all add: goes_on_def)

lemma weight_fill:
  "poll_fill_buf sb = (Pending, sb') \<Longrightarrow> weight sb' < weight sb"
  "poll_fill_buf sb = (Ready (Inr u), sb') \<Longrightarrow> weight sb' < weight sb"
  by (cases "stream sb" rule: stream_poll_next.cases;
      force simp: poll_fill_buf_def weight_def split: sum.splits)+

lemma weight_read_at_most:
  "0 < n \<Longrightarrow> poll_read_at_most n sb = (Pending, sb') \<Longrightarrow> weight sb' < weight sb"
  "0 < n \<Longrightarrow> poll_read_at_most n sb = (Ready (Inr d), sb') \<Longrightarrow> weight sb' < weight sb"
proof -
  show "0 < n \<Longrightarrow> poll_read_at_most n sb = (Pending, sb') \<Longrightarrow> weight sb' < weight sb"
    by (auto simp: poll_read_at_most_eq Let_def dest: weight_fill
        split: if_splits prod.splits poll.splits sum.splits)
  show "0 < n \<Longrightarrow> poll_read_at_most n sb = (Ready (Inr d), sb') \<Longrightarrow> weight sb' < weight sb"
    by (cases "buf sb")
      (auto simp: poll_read_at_most_eq Let_def weight_def
        dest!: weight_fill [unfolded weight_def] split: if_splits prod.splits poll.splits sum.splits)
qed

lemma weight_has_more:
  "poll_has_more_data sb = (Pending, sb') \<Longrightarrow> weight sb' < weight sb"
  "poll_has_more_data sb = (Ready (Inr d), sb') \<Longrightarrow> weight sb' \<le> weight sb"
  by (cases "stream sb" rule: stream_poll_next.cases;
      force simp: poll_has_more_data_def weight_def split: if_splits sum.splits)+

text \<open>Reading at most \<open>n\<close> bytes takes a prefix of the bytes to come.\<close>

lemma read_at_most_result:
  assumes n: "0 < n" and wf: "wf_buf sb"
    and r: "poll_read_at_most n sb = (p, sb')"
  shows "case p of
      Pending \<Rightarrow> wf_buf sb' \<and> same_view sb' sb
    | Ready (Inl e) \<Rightarrow> avail sb = [] \<and> e = end_error ''could not accumulate more data'' (tail sb)
    | Ready (Inr d) \<Rightarrow> wf_buf sb' \<and> tail sb' = tail sb \<and> length d \<le> n \<and> avail sb = d @ avail sb'"
proof (cases "buf sb = []")
  case False
  with n r show ?thesis
    using wf by (auto simp: poll_read_at_most_eq Let_def view_defs)
next
  case empty: True
  show ?thesis
  proof (cases "stream sb" rule: stream_poll_next.cases)
    case 1
    with empty n r show ?thesis
      by (auto simp: poll_read_at_most_eq poll_fill_buf_def check_max_buf_size_def view_defs end_error_def)
  next
    case (2 st)
    with empty n r wf show ?thesis
      by (auto simp: poll_read_at_most_eq poll_fill_buf_def check_max_buf_size_def view_defs)
  next
    case (3 x st)
    with empty n r wf show ?thesis
      by (cases x) (auto simp: poll_read_at_most_eq poll_fill_buf_def check_max_buf_size_def
          view_defs end_error_def Let_def)
  qed
qed

lemma has_more_poll_result:
  assumes wf: "wf_buf sb" and r: "poll_has_more_data sb = (p, sb')"
  shows "case p of
      Pending \<Rightarrow> wf_buf sb' \<and> same_view sb' sb
    | Ready (Inl e) \<Rightarrow> avail sb = [] \<and> tail sb = Some e
    | Ready (Inr d) \<Rightarrow> wf_buf sb' \<and> same_view sb' sb \<and> d = (avail sb \<noteq> []) \<and> (d \<or> tail sb = None)"
proof (cases "stream sb" rule: stream_poll_next.cases)
  case (3 x st)
  with r wf show ?thesis
    by (cases x; cases "buf sb = []") (auto simp: poll_has_more_data_def view_defs)
qed (use r wf in \<open>auto simp: poll_has_more_data_def view_defs split: if_splits\<close>)

lemma weight_read_exact_aux:
  "stream sb = st \<Longrightarrow> poll_read_exact len sb = (p, sb') \<Longrightarrow>
   (p = Pending \<longrightarrow> weight sb' < weight sb) \<and> (\<forall>d. p = Ready (Inr d) \<longrightarrow> weight sb' + len \<le> weight sb)"
proof (induction st arbitrary: sb)
  case Nil
  then show ?case
    by (auto simp: poll_read_exact_eq [of len sb] weight_def Let_def split: if_splits sum.splits)
next
  case (Cons e st)
  show ?case
  proof (cases "length (buf sb) < len \<and> length (buf sb) \<le> max_buf_size sb")
    case False
    with Cons.prems show ?thesis
      by (auto simp: poll_read_exact_eq [of len sb] check_max_buf_size_def weight_def split: if_splits)
  next
    case guard: True
    show ?thesis
    proof (cases e rule: event_cases)
      case (D d)
      let ?sb = "sb\<lparr>stream := st, buf := buf sb @ d\<rparr>"
      have st: "stream sb = Yield (Inr d) # st" using D Cons.prems(1) by simp
      have "poll_read_exact len ?sb = (p, sb')"
        using poll_read_exact_data [OF _ _ st, of len] guard Cons.prems(2) by simp
      moreover have "weight sb = Suc (weight ?sb)" using st by (simp add: weight_def)
      ultimately show ?thesis using Cons.IH [of ?sb] by auto
    qed (use Cons.prems guard in \<open>auto simp: poll_read_exact_eq [of len sb] check_max_buf_size_def
        Let_def weight_def\<close>)
  qed
qed

lemma weight_read_exact:
  "poll_read_exact len sb = (Pending, sb') \<Longrightarrow> weight sb' < weight sb"
  "poll_read_exact len sb = (Ready (Inr d), sb') \<Longrightarrow> weight sb' + len \<le> weight sb"
  using weight_read_exact_aux [OF refl] by blast+

lemma weight_read_to_end_aux:
  "stream sb = st \<Longrightarrow> poll_read_to_end sb = (Pending, sb') \<Longrightarrow> weight sb' < weight sb"
proof (induction st arbitrary: sb)
  case Nil
  then show ?case by (simp add: poll_read_to_end.simps [of sb])
next
  case (Cons e st)
  show ?case
  proof (cases e rule: event_cases)
    case (D d)
    let ?sb = "sb\<lparr>stream := st, buf := buf sb @ d\<rparr>"
    have st: "stream sb = Yield (Inr d) # st" using D Cons.prems(1) by simp
    with Cons.IH [of ?sb] Cons.prems(2) show ?thesis
      using poll_read_to_end_data [OF st] by (simp add: weight_def)
  qed (use Cons.prems in \<open>auto simp: poll_read_to_end.simps [of sb] weight_def\<close>)
qed

lemmas weight_read_to_end = weight_read_to_end_aux [OF refl]

lemma poll_read_exact_view_aux:
  "stream sb = st \<Longrightarrow> wf_buf sb \<Longrightarrow> poll_read_exact len sb = (p, sb') \<Longrightarrow>
   (case p of
      Pending \<Rightarrow> wf_buf sb' \<and> same_view sb' sb
    | Ready (Inl e) \<Rightarrow> length (avail sb) < len
        \<and> e = end_error ''could not read exact amount of bytes'' (tail sb)
    | Ready (Inr d) \<Rightarrow> wf_buf sb' \<and> tail sb' = tail sb \<and> length d = len \<and> avail sb = d @ avail sb')"
proof (induction st arbitrary: sb)
  case Nil
  then show ?case
    by (cases "len \<le> length (buf sb)")
      (auto simp: poll_read_exact_eq [of len sb] check_max_buf_size_def Let_def view_defs
        end_error_def)
next
  case (Cons e st)
  show ?case
  proof (cases "len \<le> length (buf sb)")
    case True
    with Cons.prems show ?thesis
      by (auto simp: poll_read_exact_eq [of len sb] view_defs)
  next
    case False
    from Cons.prems(2) have room: "\<not> max_buf_size sb < length (buf sb)" by (simp add: view_defs)
    note step = poll_read_exact_eq [of len sb] check_max_buf_size_def Let_def
    show ?thesis
    proof (cases e rule: event_cases)
      case W
      with False room Cons.prems show ?thesis by (auto simp: step view_defs)
    next
      case (E x)
      with False room Cons.prems show ?thesis by (auto simp: step view_defs end_error_def)
    next
      case (D d)
      let ?sb = "sb\<lparr>stream := st, buf := buf sb @ d\<rparr>"
      have st: "stream sb = Yield (Inr d) # st" using D Cons.prems(1) by simp
      have "poll_read_exact len ?sb = (p, sb')"
        using poll_read_exact_data [OF _ _ st, of len] False room Cons.prems(3) by simp
      moreover have "wf_buf ?sb" "avail ?sb = avail sb" "tail ?sb = tail sb"
        using Cons.prems(2) st by (simp_all add: view_defs)
      ultimately show ?thesis using Cons.IH [of ?sb]
        by (auto simp: same_view_def split: poll.splits sum.splits)
    qed
  qed
qed

lemmas poll_read_exact_view = poll_read_exact_view_aux [OF refl]

lemma poll_read_to_end_view_aux:
  "stream sb = st \<Longrightarrow> poll_read_to_end sb = (p, sb') \<Longrightarrow>
   (case p of
      Pending \<Rightarrow> (wf_buf sb \<longrightarrow> wf_buf sb') \<and> same_view sb' sb
    | Ready (Inl e) \<Rightarrow> tail sb = Some e
    | Ready (Inr d) \<Rightarrow> (wf_buf sb \<longrightarrow> wf_buf sb') \<and> tail sb = None \<and> tail sb' = None \<and> avail sb' = [] \<and> d = avail sb)"
proof (induction st arbitrary: sb)
  case Nil
  then show ?case by (auto simp: poll_read_to_end.simps [of sb] view_defs)
next
  case (Cons e st)
  show ?case
  proof (cases e rule: event_cases)
    case W
    with Cons.prems show ?thesis by (auto simp: poll_read_to_end.simps [of sb] view_defs)
  next
    case (E x)
    with Cons.prems show ?thesis by (auto simp: poll_read_to_end.simps [of sb] view_defs)
  next
    case (D d)
    let ?sb = "sb\<lparr>stream := st, buf := buf sb @ d\<rparr>"
    have st: "stream sb = Yield (Inr d) # st" using D Cons.prems(1) by simp
    have "poll_read_to_end ?sb = (p, sb')"
      using poll_read_to_end_data [OF st] Cons.prems(2) by simp
    moreover have "wf_buf sb \<longrightarrow> wf_buf ?sb" "avail ?sb = avail sb" "tail ?sb = tail sb"
      using st by (simp_all add: view_defs)
    ultimately show ?thesis using Cons.IH [of ?sb]
      by (auto simp: same_view_def split: poll.splits sum.splits)
  qed
qed

lemmas poll_read_to_end_view = poll_read_to_end_view_aux [OF refl]

subsection \<open>Parsing from a filled buffer\<close>

text \<open>
  \<open>parses m bs rest a\<close>: on a buffer that holds \<open>bs\<close>, \<open>m\<close> returns
  \<open>a\<close> and leaves \<open>rest\<close>, without touching the stream.
\<close>

definition parses :: "('e stream_buf, 'a, 'e) async \<Rightarrow> bytes \<Rightarrow> bytes \<Rightarrow> 'a \<Rightarrow> bool" where
  "parses m bs rest a \<longleftrightarrow> (\<forall>sb. buf sb = bs \<longrightarrow> m sb = Some (Inr a, sb\<lparr>buf := rest\<rparr>))"

named_theorems parses_rules \<open>what the decoders read from the buffer\<close>

lemma parses_abind [parses_rules]:
  assumes "parses m bs r a" and "parses (f a) r rest b"
  shows "parses (abind m f) bs rest b"
  using assms by (simp add: parses_def abind_Some_Inr)

lemma parses_aret [parses_rules]: "parses (aret a) bs bs a"
  by (auto simp: parses_def)

lemma parses_Some [parses_rules]: "parses (\<lambda>sb. Some (Inr a, sb)) bs bs a"
  by (auto simp: parses_def)

lemma parses_alift [parses_rules]: "r = Inr a \<Longrightarrow> parses (alift r) bs bs a"
  by (simp add: parses_aret)

lemma parses_aopt [parses_rules]: "r = Some (Inr a) \<Longrightarrow> parses (aopt r) bs bs a"
  by (simp add: parses_aret)

lemma parses_has_more_data [parses_rules]: "bs \<noteq> [] \<Longrightarrow> parses has_more_data bs bs True"
  by (auto simp: parses_def has_more_data_unfold)

lemma parses_read_exact [parses_rules]:
  "n = length bs \<Longrightarrow> parses (read_exact n) (bs @ rest) rest bs"
  by (auto simp: parses_def read_exact_unfold)

lemma parses_aloop_done:
  assumes "parses (round a) bs rest (a', False)"
  shows "parses (aloop round a) bs rest a'"
  unfolding aloop_unfold [of round a]
  by (rule parses_abind [OF assms]) (simp add: parses_aret)

lemma parses_aloop_step:
  assumes "parses (round a) bs r (a', True)" and "parses (aloop round a') r rest b"
  shows "parses (aloop round a) bs rest b"
  unfolding aloop_unfold [of round a]
  by (rule parses_abind [OF assms(1)]) (simp add: assms(2))

text \<open>From a filled buffer to any buffer with the same bytes to come.\<close>

lemma parses_view:
  assumes "chunk_invariant m" "parses m bs rest a" "wf_buf sb" "avail sb = bs"
  obtains sb' where "m sb = Some (Inr a, sb')" "wf_buf sb'" "avail sb' = rest" "tail sb' = tail sb"
proof -
  define full where "full = \<lparr>max_buf_size = length bs, buf = bs,
    stream = (case tail sb of None \<Rightarrow> [] | Some e \<Rightarrow> [Yield (Inl e)])\<rparr>"
  have "wf_buf full" "same_view full sb"
    using assms(4) by (auto simp: full_def view_defs split: option.split)
  with assms(1,3) have "same_outcome (m full) (m sb)" by (intro chunk_invariantD)
  moreover have "m full = Some (Inr a, full\<lparr>buf := rest\<rparr>)"
    using assms(2) by (simp add: parses_def full_def)
  ultimately obtain sb' where "m sb = Some (Inr a, sb')" "wf_buf sb'" "same_view (full\<lparr>buf := rest\<rparr>) sb'"
    by (auto elim: same_outcome_cases)
  moreover have "avail (full\<lparr>buf := rest\<rparr>) = rest" "tail (full\<lparr>buf := rest\<rparr>) = tail sb"
    by (auto simp: full_def view_defs split: option.split)
  ultimately show thesis using that by (simp add: same_view_def)
qed

subsection \<open>Properties\<close>

text \<open>
  C13: \<^verbatim>\<open>read_exact(len)\<close> completes, and returns exactly the next \<open>len\<close>
  bytes of the stream and leaves the rest, or, when fewer are to come, fails with the
  stream's own error or an \<^verbatim>\<open>UnexpectedEof\<close>; this holds for every chunking of the
  stream and every sequence of polls that are not ready, as long as the read fits the
  buffer's limit.
\<close>

theorem read_exact_reads:
  assumes "roomy len sb"
  shows "\<exists>sb'. read_exact len sb =
      Some (if len \<le> length (avail sb) then Inr (take len (avail sb))
            else Inl (end_error ''could not read exact amount of bytes'' (tail sb)), sb')
    \<and> (len \<le> length (avail sb) \<longrightarrow> advanced_to (drop len (avail sb)) sb sb')"
  using read_exact_Inr [of len sb] read_exact_Inl [of sb len] assms
  by (cases "len \<le> length (avail sb)") auto

theorem read_exact_reads_witness:
  "\<exists>sb'. read_exact 3 (new_stream_buf [Wait, Yield (Inr [1, 2]), Wait, Yield (Inr [3, 4])] :: unit stream_buf)
      = Some (Inr [1, 2, 3], sb') \<and> avail sb' = [4]"
  using read_exact_reads [of 3 "new_stream_buf [Wait, Yield (Inr [1, 2]), Wait, Yield (Inr [3, 4])]"]
  by (auto simp: roomy_def new_stream_buf_def avail_def advanced_to_def default_max_buf_size_def)

text \<open>
  C24: a buffer that was within its limit plus one chunk stays so under every poll of an
  exact read: the limit is checked before each chunk that is added.
\<close>

theorem read_exact_bounded:
  assumes "buf_bounded n sb"
  shows "buf_bounded n (snd (poll_read_exact len sb))"
  using assms by (rule poll_read_exact_bounded)

theorem read_exact_bounded_witness:
  "buf_bounded 2 (snd (poll_read_exact 9
     (with_max_buf_size (new_stream_buf [Yield (Inr [1, 2]), Yield (Inr [3, 4])] :: unit stream_buf) 1)))"
  by (rule read_exact_bounded)
    (simp add: buf_bounded_def with_max_buf_size_def new_stream_buf_def)

text \<open>
  An empty chunk at the end of a stream makes \<^verbatim>\<open>has_more_data\<close> report data where
  there is none: the buffer it leaves has nothing to come.
\<close>

lemma has_more_data_empty_chunk:
  "\<exists>sb'. has_more_data (new_stream_buf [Yield (Inr [])] :: unit stream_buf) = Some (Inr True, sb')
    \<and> avail sb' = [] \<and> tail sb' = None"
  by (simp add: has_more_data_unfold new_stream_buf_def avail_def tail_def)

end
