(* ===== verification/Octets_Crate.thy ===== *)
theory Octets_Crate
  imports Pvcli_Base
begin

text \<open>
  The interface of the \<^verbatim>\<open>octets\<close> crate, which the repository calls to read and
  write integers in network byte order and variable-length integers. Its code is not part
  of the repository: a value of type \<open>octets_api\<close> stands for it in every definition
  that uses it, and the locale \<open>octets_crate\<close> states what the crate documents. The
  last section gives the encodings of RFC 9000, section 16, and shows that they satisfy
  the interface.

  A read cursor (\<^verbatim>\<open>Octets\<close>) is the bytes from its offset on; a read returns the
  value and the bytes left. A write cursor (\<^verbatim>\<open>OctetsMut\<close>) is a buffer of fixed
  length and an offset. \<open>usize_max\<close> is \<^verbatim>\<open>usize::MAX\<close> of the target, which
  the code is compiled for at both 32 and 64 bits.
\<close>

record octets_mut =
  om_buf :: bytes
  om_off :: nat

record octets_api =
  usize_max :: nat
  get_u8 :: "bytes \<Rightarrow> (byte \<times> bytes) option"
  get_u16 :: "bytes \<Rightarrow> (u16 \<times> bytes) option"
  get_u32 :: "bytes \<Rightarrow> (u32 \<times> bytes) option"
  get_u64 :: "bytes \<Rightarrow> (u64 \<times> bytes) option"
  get_varint :: "bytes \<Rightarrow> (u64 \<times> bytes) option"
  get_bytes :: "nat \<Rightarrow> bytes \<Rightarrow> (bytes \<times> bytes) option"
  varint_len :: "u64 \<Rightarrow> nat"
  put_u8 :: "byte \<Rightarrow> octets_mut \<Rightarrow> octets_mut option"
  put_u16 :: "u16 \<Rightarrow> octets_mut \<Rightarrow> octets_mut option"
  put_varint :: "u64 \<Rightarrow> octets_mut \<Rightarrow> octets_mut option"
  put_bytes :: "bytes \<Rightarrow> octets_mut \<Rightarrow> octets_mut option"

text \<open>\<^verbatim>\<open>OctetsMut::with_slice(&mut vec![0; n])\<close>, and overwriting at the offset.\<close>

definition om_zeroed :: "nat \<Rightarrow> octets_mut" where
  "om_zeroed n = \<lparr>om_buf = replicate n 0, om_off = 0\<rparr>"

definition om_write :: "bytes \<Rightarrow> octets_mut \<Rightarrow> octets_mut" where
  "om_write bs om =
     \<lparr>om_buf = take (om_off om) (om_buf om) @ bs @ drop (om_off om + length bs) (om_buf om),
      om_off = om_off om + length bs\<rparr>"

text \<open>The bytes that a write produces in a buffer of exactly its length.\<close>

definition encoded :: "('a \<Rightarrow> octets_mut \<Rightarrow> octets_mut option) \<Rightarrow> ('a \<Rightarrow> nat) \<Rightarrow> 'a \<Rightarrow> bytes" where
  "encoded put len v = (case put v (om_zeroed (len v)) of None \<Rightarrow> [] | Some om \<Rightarrow> om_buf om)"

subsection \<open>The documented behaviour\<close>

text \<open>
  A read consumes a non-empty prefix that decides the value, whatever follows it.
\<close>

locale reader =
  fixes get :: "bytes \<Rightarrow> ('a \<times> bytes) option"
  assumes get_prefix: "get bs = Some (v, rest) \<Longrightarrow>
      \<exists>p. p \<noteq> [] \<and> bs = p @ rest \<and> (\<forall>rest'. get (p @ rest') = Some (v, rest'))"
begin

lemma get_mono: "get bs = Some (v, rest) \<Longrightarrow> get (bs @ xs) = Some (v, rest @ xs)"
  by (drule get_prefix) auto

lemma get_shorter: "get bs = Some (v, rest) \<Longrightarrow> length rest < length bs"
  by (drule get_prefix) auto

lemma get_suffix: "get bs = Some (v, rest) \<Longrightarrow> rest = drop (length bs - length rest) bs"
  by (drule get_prefix) auto

end

text \<open>
  A codec also writes: a value in its range takes a known number of bytes, the write fails
  exactly when they do not fit, and reading them back gives the value.
\<close>

locale codec = reader get for get :: "bytes \<Rightarrow> ('a \<times> bytes) option" +
  fixes put :: "'a \<Rightarrow> octets_mut \<Rightarrow> octets_mut option"
    and len :: "'a \<Rightarrow> nat"
    and ok :: "'a \<Rightarrow> bool"
  assumes put_room: "ok v \<Longrightarrow> om_off om + len v \<le> length (om_buf om)
      \<Longrightarrow> put v om = Some (om_write (encoded put len v) om)"
    and put_full: "ok v \<Longrightarrow> length (om_buf om) < om_off om + len v \<Longrightarrow> put v om = None"
    and len_encoded: "ok v \<Longrightarrow> length (encoded put len v) = len v"
    and get_encoded: "ok v \<Longrightarrow> get (encoded put len v @ rest) = Some (v, rest)"

text \<open>The largest variable-length integer is \<open>2 ^ 62 - 1\<close>.\<close>

definition varint_ok :: "u64 \<Rightarrow> bool" where
  "varint_ok v \<longleftrightarrow> unat v < 2 ^ 62"

locale octets_crate =
    u8: codec "get_u8 oct" "put_u8 oct" "\<lambda>_. Suc 0" "\<lambda>_. True"
  + u16: codec "get_u16 oct" "put_u16 oct" "\<lambda>_. 2" "\<lambda>_. True"
  + u32: reader "get_u32 oct"
  + u64: reader "get_u64 oct"
  + vi: codec "get_varint oct" "put_varint oct" "varint_len oct" varint_ok
  for oct :: octets_api +
  assumes usize_at_least_32: "2 ^ 32 \<le> Suc (usize_max oct)"
    and usize_at_most_64: "Suc (usize_max oct) \<le> 2 ^ 64"
    and get_varint_ok: "get_varint oct bs = Some (v, rest) \<Longrightarrow> varint_ok v"
    and get_varint_zero: "get_varint oct (0 # rest) = Some (0, rest)"
    and get_bytes_spec: "get_bytes oct n bs
      = (if n \<le> length bs then Some (take n bs, drop n bs) else None)"
    and put_bytes_spec: "put_bytes oct bs om
      = (if om_off om + length bs \<le> length (om_buf om) then Some (om_write bs om) else None)"

abbreviation u8_bytes :: "octets_api \<Rightarrow> byte \<Rightarrow> bytes" where
  "u8_bytes oct \<equiv> encoded (put_u8 oct) (\<lambda>_. Suc 0)"

abbreviation u16_bytes :: "octets_api \<Rightarrow> u16 \<Rightarrow> bytes" where
  "u16_bytes oct \<equiv> encoded (put_u16 oct) (\<lambda>_. 2)"

abbreviation varint_bytes :: "octets_api \<Rightarrow> u64 \<Rightarrow> bytes" where
  "varint_bytes oct \<equiv> encoded (put_varint oct) (varint_len oct)"

subsection \<open>Writing in sequence\<close>

text \<open>
  Every \<^verbatim>\<open>put\<close> function of the code is a sequence of writes to one cursor, ended by
  the first that fails (\<^verbatim>\<open>?\<close>). \<open>writes w bs\<close> says that \<open>w\<close> appends
  exactly the bytes \<open>bs\<close> at the offset, or fails when they do not fit.
\<close>

type_synonym om_writer = "octets_mut \<Rightarrow> octets_mut option"

fun put_all :: "om_writer list \<Rightarrow> om_writer" where
  "put_all [] om = Some om"
| "put_all (w # ws) om = Option.bind (w om) (put_all ws)"

definition writes :: "om_writer \<Rightarrow> bytes \<Rightarrow> bool" where
  "writes w bs \<longleftrightarrow> (\<forall>om. om_off om \<le> length (om_buf om) \<longrightarrow> w om =
     (if om_off om + length bs \<le> length (om_buf om) then Some (om_write bs om) else None))"

text \<open>\<^verbatim>\<open>unwrap\<close> of a write.\<close>

definition unwrap_write :: "octets_mut option \<Rightarrow> (octets_mut, 'e) result" where
  "unwrap_write r =
     (case r of None \<Rightarrow> Inl (Panicked ''called `Result::unwrap()` on an `Err` value: BufferTooShortError'')
              | Some om \<Rightarrow> Inr om)"

lemma unwrap_write_Some [simp]: "unwrap_write (Some om) = Inr om"
  by (simp add: unwrap_write_def)

named_theorems writes_rules \<open>what the writers of the code append\<close>

lemma om_write_append:
  assumes "om_off om + length bs + length cs \<le> length (om_buf om)"
  shows "om_write cs (om_write bs om) = om_write (bs @ cs) om"
  using assms by (simp add: om_write_def add.assoc add.commute add.left_commute)

lemma om_write_room [simp]:
  "om_off om + length bs \<le> length (om_buf om) \<Longrightarrow> length (om_buf (om_write bs om)) = length (om_buf om)"
  "om_off (om_write bs om) = om_off om + length bs"
  by (simp_all add: om_write_def)

lemma writes_Nil: "writes (put_all []) []"
  by (simp add: writes_def om_write_def)

lemma writes_Cons:
  assumes "writes w bs" and "writes (put_all ws) cs"
  shows "writes (put_all (w # ws)) (bs @ cs)"
  unfolding writes_def
proof (intro allI impI)
  fix om :: octets_mut
  assume off: "om_off om \<le> length (om_buf om)"
  show "put_all (w # ws) om =
      (if om_off om + length (bs @ cs) \<le> length (om_buf om) then Some (om_write (bs @ cs) om) else None)"
  proof (cases "om_off om + length bs \<le> length (om_buf om)")
    case True
    then show ?thesis
      using assms off om_write_append [of om bs cs] by (auto simp: writes_def add.assoc)
  next
    case False
    then show ?thesis using assms off by (simp add: writes_def)
  qed
qed

lemma writes_put_all:
  "list_all2 writes ws bss \<Longrightarrow> writes (put_all ws) (concat bss)"
proof (induction ws bss rule: list_all2_induct)
  case Nil
  show ?case unfolding concat.simps by (rule writes_Nil)
next
  case (Cons w ws bs bss)
  then show ?case unfolding concat.simps by (intro writes_Cons)
qed

lemma writes_put_all_map:
  "(\<And>x. x \<in> set xs \<Longrightarrow> writes (f x) (g x)) \<Longrightarrow> writes (put_all (map f xs)) (concat (map g xs))"
  by (rule writes_put_all) (simp add: list_all2_map1 list_all2_map2 list.rel_refl_strong)

text \<open>A buffer sized for the writes is filled exactly; a larger one keeps its zeros.\<close>

lemma writes_zeroed:
  assumes "writes w bs" and "length bs \<le> n"
  shows "w (om_zeroed n) = Some \<lparr>om_buf = bs @ replicate (n - length bs) 0, om_off = length bs\<rparr>"
  using assms by (simp add: writes_def om_zeroed_def om_write_def)

lemma writes_exact:
  assumes "writes w bs" and "length bs = n"
  shows "w (om_zeroed n) = Some \<lparr>om_buf = bs, om_off = n\<rparr>"
  using writes_zeroed [OF assms(1), of n] assms(2) by simp

context codec
begin

lemma writes_encoded: "ok v \<Longrightarrow> writes (put v) (encoded put len v)"
  unfolding writes_def using put_room put_full by (auto simp: len_encoded not_le)

end

context octets_crate
begin

lemmas length_encodings [simp] = u8.len_encoded [simplified] u16.len_encoded [simplified] vi.len_encoded

lemma writes_put_u8: "writes (put_u8 oct v) (u8_bytes oct v)"
  by (rule u8.writes_encoded) simp

lemma writes_put_u16: "writes (put_u16 oct v) (u16_bytes oct v)"
  by (rule u16.writes_encoded) simp

lemmas writes_put_varint = vi.writes_encoded

lemma writes_put_bytes: "writes (put_bytes oct bs) bs"
  by (simp add: writes_def put_bytes_spec)

lemma get_u8_append: "get_u8 oct (u8_bytes oct v @ rest) = Some (v, rest)"
  by (rule u8.get_encoded) simp

lemma get_u16_append: "get_u16 oct (u16_bytes oct v @ rest) = Some (v, rest)"
  by (rule u16.get_encoded) simp

lemmas get_varint_append = vi.get_encoded

end

subsection \<open>The encodings of RFC 9000\<close>

text \<open>Network byte order.\<close>

fun be_bytes :: "nat \<Rightarrow> nat \<Rightarrow> bytes" where
  "be_bytes 0 x = []"
| "be_bytes (Suc n) x = be_bytes n (x div 256) @ [of_nat x]"

definition be_value :: "bytes \<Rightarrow> nat" where
  "be_value bs = foldl (\<lambda>a b. a * 256 + unat b) 0 bs"

lemma length_be_bytes [simp]: "length (be_bytes n x) = n"
  by (induction n arbitrary: x) simp_all

lemma be_value_snoc [simp]: "be_value (bs @ [b]) = be_value bs * 256 + unat b"
  by (simp add: be_value_def)

lemma be_value_be_bytes: "be_value (be_bytes n x) = x mod 256 ^ n"
proof (induction n arbitrary: x)
  case 0
  show ?case by (simp add: be_value_def)
next
  case (Suc n)
  have "x mod (256 * 256 ^ n) = 256 * (x div 256 mod 256 ^ n) + x mod 256"
    by (rule mod_mult2_eq)
  with Suc show ?case by (simp add: unat_of_nat mult.commute)
qed

lemma be_value_bound: "be_value bs < 256 ^ length bs"
proof (induction bs rule: rev_induct)
  case Nil
  show ?case by (simp add: be_value_def)
next
  case (snoc b bs)
  have "unat b < 256" using unsigned_less [of b, where ?'a = nat] by simp
  with snoc show ?case by simp
qed

definition get_be :: "nat \<Rightarrow> bytes \<Rightarrow> (nat \<times> bytes) option" where
  "get_be n bs = (if n \<le> length bs then Some (be_value (take n bs), drop n bs) else None)"

definition put_encoding :: "('a \<Rightarrow> bytes) \<Rightarrow> 'a \<Rightarrow> om_writer" where
  "put_encoding enc v om =
     (if om_off om + length (enc v) \<le> length (om_buf om) then Some (om_write (enc v) om) else None)"

text \<open>
  A variable-length integer has the base-2 logarithm of its length in the two high bits
  of its first byte.
\<close>

definition rfc9000_len :: "u64 \<Rightarrow> nat" where
  "rfc9000_len v =
     (if unat v < 2 ^ 6 then 1 else if unat v < 2 ^ 14 then 2 else if unat v < 2 ^ 30 then 4 else 8)"

definition rfc9000_bytes :: "u64 \<Rightarrow> bytes" where
  "rfc9000_bytes v =
     (if unat v < 2 ^ 6 then be_bytes 1 (unat v)
      else if unat v < 2 ^ 14 then be_bytes 2 (unat v + 1 * 2 ^ 14)
      else if unat v < 2 ^ 30 then be_bytes 4 (unat v + 2 * 2 ^ 30)
      else be_bytes 8 (unat v + 3 * 2 ^ 62))"

definition rfc9000_get :: "bytes \<Rightarrow> (u64 \<times> bytes) option" where
  "rfc9000_get bs =
     (case bs of
        [] \<Rightarrow> None
      | b # _ \<Rightarrow>
          (let n = 2 ^ (unat b div 64)
           in map_option (\<lambda>(x, rest). (of_nat (x mod 2 ^ (8 * n - 2)), rest)) (get_be n bs)))"

definition rfc9000_octets :: "nat \<Rightarrow> octets_api" where
  "rfc9000_octets mx =
     \<lparr>usize_max = mx,
      get_u8 = (\<lambda>bs. map_option (\<lambda>(x, r). (of_nat x, r)) (get_be (Suc 0) bs)),
      get_u16 = (\<lambda>bs. map_option (\<lambda>(x, r). (of_nat x, r)) (get_be 2 bs)),
      get_u32 = (\<lambda>bs. map_option (\<lambda>(x, r). (of_nat x, r)) (get_be 4 bs)),
      get_u64 = (\<lambda>bs. map_option (\<lambda>(x, r). (of_nat x, r)) (get_be 8 bs)),
      get_varint = rfc9000_get,
      get_bytes = (\<lambda>n bs. if n \<le> length bs then Some (take n bs, drop n bs) else None),
      varint_len = rfc9000_len,
      put_u8 = put_encoding (\<lambda>v. be_bytes (Suc 0) (unat v)),
      put_u16 = put_encoding (\<lambda>v. be_bytes 2 (unat v)),
      put_varint = put_encoding rfc9000_bytes,
      put_bytes = put_encoding (\<lambda>bs. bs)\<rparr>"

lemma encoded_put_encoding:
  "length (enc v) = len v \<Longrightarrow> encoded (put_encoding enc) len v = enc v"
  by (simp add: encoded_def put_encoding_def om_zeroed_def om_write_def)

text \<open>A reader that takes a number of bytes fixed by the first one.\<close>

lemma reader_get_be:
  assumes "0 < n"
  shows "reader (\<lambda>bs. map_option (\<lambda>(x, r). (f x, r)) (get_be n bs))"
proof
  fix bs v rest
  assume "map_option (\<lambda>(x, r). (f x, r)) (get_be n bs) = Some (v, rest)"
  then have "n \<le> length bs" "v = f (be_value (take n bs))" "rest = drop n bs"
    by (auto simp: get_be_def split: if_splits)
  with assms show "\<exists>p. p \<noteq> [] \<and> bs = p @ rest
      \<and> (\<forall>rest'. map_option (\<lambda>(x, r). (f x, r)) (get_be n (p @ rest')) = Some (v, rest'))"
    by (intro exI [of _ "take n bs"]) (auto simp: get_be_def)
qed

lemma rfc9000_get_hd:
  "n = 2 ^ (unat (hd bs) div 64) \<Longrightarrow> bs \<noteq> [] \<Longrightarrow>
   rfc9000_get bs = map_option (\<lambda>(x, rest). (of_nat (x mod 2 ^ (8 * n - 2)), rest)) (get_be n bs)"
  by (cases bs) (simp_all add: rfc9000_get_def Let_def)

lemma get_be_append: "length p = n \<Longrightarrow> get_be n (p @ rest) = Some (be_value p, rest)"
  by (auto simp: get_be_def)

lemma reader_rfc9000: "reader rfc9000_get"
proof
  fix bs v rest
  assume a: "rfc9000_get bs = Some (v, rest)"
  then have ne: "bs \<noteq> []" by (auto simp: rfc9000_get_def)
  define n :: nat where "n = 2 ^ (unat (hd bs) div 64)"
  then have n: "0 < n" by simp
  from a ne have len: "n \<le> length bs" and rest: "rest = drop n bs"
    and v: "v = of_nat (be_value (take n bs) mod 2 ^ (8 * n - 2))"
    by (auto simp: rfc9000_get_hd [OF n_def ne] get_be_def split: if_splits)
  have p: "hd (take n bs @ rest') = hd bs" "take n bs @ rest' \<noteq> []" for rest'
    using n ne by (cases bs; cases n; simp)+
  have "rfc9000_get (take n bs @ rest') = Some (v, rest')" for rest'
    using rfc9000_get_hd [of n "take n bs @ rest'"] p [of rest'] n_def v len
    by (simp add: get_be_append)
  moreover have "take n bs \<noteq> []" using n ne by simp
  ultimately show "\<exists>p. p \<noteq> [] \<and> bs = p @ rest \<and> (\<forall>rest'. rfc9000_get (p @ rest') = Some (v, rest'))"
    using rest by (intro exI [of _ "take n bs"]) simp
qed

lemma be_bytes_first: "\<exists>t. be_bytes (Suc n) x = of_nat (x div 256 ^ n) # t"
proof (induction n arbitrary: x)
  case 0
  show ?case by simp
next
  case (Suc n)
  from Suc [of "x div 256"] obtain t where
    "be_bytes (Suc n) (x div 256) = of_nat (x div 256 div 256 ^ n) # t" by blast
  then show ?case
    by (simp only: be_bytes.simps(2) [of "Suc n"]) (simp add: div_mult2_eq)
qed

lemma rfc9000_get_tagged:
  assumes n: "n = 2 ^ k" and k: "k \<le> 3" and y: "y < 2 ^ (8 * n - 2)"
  shows "rfc9000_get (be_bytes n (y + k * 2 ^ (8 * n - 2)) @ rest) = Some (of_nat y, rest)"
proof -
  let ?x = "y + k * 2 ^ (8 * n - 2)"
  obtain m where m: "n = Suc m" using n by (metis not0_implies_Suc power_not_zero zero_neq_numeral)
  have q: "(2::nat) ^ (8 * n - 2) = 256 ^ m * 64"
  proof -
    have "(2::nat) ^ (8 * n - 2) = 2 ^ (8 * m + 6)" by (simp add: m)
    also have "\<dots> = (2 ^ 8) ^ m * 2 ^ 6" by (simp only: power_add power_mult)
    finally show ?thesis by simp
  qed
  have kdiv: "?x div 256 ^ m div 64 = k"
    using y by (simp add: q flip: div_mult2_eq)
  have "?x div 256 ^ m < 256"
  proof -
    have "?x < 256 ^ m * 256"
    proof -
      have "?x < Suc k * 2 ^ (8 * n - 2)" using y by simp
      also have "\<dots> \<le> 4 * 2 ^ (8 * n - 2)" using k by (intro mult_right_mono) simp_all
      finally show ?thesis by (simp add: q)
    qed
    then show ?thesis by (simp add: less_mult_imp_div_less mult.commute)
  qed
  then have top: "unat (of_nat (?x div 256 ^ m) :: byte) div 64 = k"
    using kdiv by (simp add: unat_of_nat)
  have lt: "?x < 256 ^ n"
    using \<open>?x div 256 ^ m < 256\<close> by (simp add: m div_less_iff_less_mult mult.commute)
  obtain t where "be_bytes n ?x = of_nat (?x div 256 ^ m) # t"
    using be_bytes_first [of m ?x] unfolding m by blast
  then have "n = 2 ^ (unat (hd (be_bytes n ?x @ rest)) div 64)" "be_bytes n ?x @ rest \<noteq> []"
    using top n by simp_all
  then show ?thesis
    using lt y by (simp add: rfc9000_get_hd get_be_append be_value_be_bytes)
qed

lemma rfc9000_get_bytes:
  assumes "unat v < 2 ^ 62"
  shows "rfc9000_get (rfc9000_bytes v @ rest) = Some (v, rest)"
  using rfc9000_get_tagged [of 1 0 "unat v" rest] rfc9000_get_tagged [of 2 1 "unat v" rest]
    rfc9000_get_tagged [of 4 2 "unat v" rest] rfc9000_get_tagged [of 8 3 "unat v" rest] assms
  by (simp add: rfc9000_bytes_def)

lemma rfc9000_get_range: "rfc9000_get bs = Some (v, rest) \<Longrightarrow> varint_ok v"
proof -
  assume a: "rfc9000_get bs = Some (v, rest)"
  then have ne: "bs \<noteq> []" by (auto simp: rfc9000_get_def)
  define n :: nat where "n = 2 ^ (unat (hd bs) div 64)"
  from a obtain x where v: "v = of_nat (x mod 2 ^ (8 * n - 2))"
    by (auto simp: rfc9000_get_hd [OF n_def ne])
  have "unat (hd bs) < 256" using unsigned_less [of "hd bs", where ?'a = nat] by simp
  then have "unat (hd bs) div 64 \<le> 3" by simp
  then have "n \<le> 2 ^ 3" unfolding n_def by (intro power_increasing) simp_all
  then have "(2::nat) ^ (8 * n - 2) \<le> 2 ^ 62" by (intro power_increasing) simp_all
  then have "x mod 2 ^ (8 * n - 2) < 2 ^ 62"
    by (rule order_less_le_trans [rotated]) simp
  then show ?thesis by (simp add: v varint_ok_def unat_of_nat)
qed

lemma codec_put_encoding:
  assumes "reader get" and "\<And>v. ok v \<Longrightarrow> length (enc v) = len v"
    and "\<And>v rest. ok v \<Longrightarrow> get (enc v @ rest) = Some (v, rest)"
  shows "codec get (put_encoding enc) len ok"
proof (rule codec.intro [OF assms(1)], unfold_locales)
qed (auto simp: encoded_put_encoding assms put_encoding_def)

lemma codec_be:
  fixes n :: nat
  assumes "0 < n" and "256 ^ n = (2 ^ LENGTH('a::len) :: nat)"
  shows "codec (\<lambda>bs. map_option (\<lambda>(x, r). (of_nat x :: 'a word, r)) (get_be n bs))
     (put_encoding (\<lambda>v. be_bytes n (unat v))) (\<lambda>_. n) (\<lambda>_. True)"
proof (rule codec_put_encoding [OF reader_get_be [OF assms(1)]])
  fix v :: "'a word" and rest
  have "unat v < 256 ^ n" using assms(2) unsigned_less [of v, where ?'a = nat] by simp
  then show "map_option (\<lambda>(x, r). (of_nat x, r)) (get_be n (be_bytes n (unat v) @ rest)) = Some (v, rest)"
    by (simp add: get_be_def be_value_be_bytes)
qed simp

lemma rfc9000_get_zero: "rfc9000_get (0 # rest) = Some (0, rest)"
  by (simp add: rfc9000_get_def get_be_def be_value_def Let_def)

lemma octets_crate_rfc9000:
  assumes "2 ^ 32 \<le> Suc mx" and "Suc mx \<le> 2 ^ 64"
  shows "octets_crate (rfc9000_octets mx)"
proof (intro octets_crate.intro octets_crate_axioms.intro)
  show "codec (get_u8 (rfc9000_octets mx)) (put_u8 (rfc9000_octets mx)) (\<lambda>_. Suc 0) (\<lambda>_. True)"
    unfolding rfc9000_octets_def octets_api.simps by (rule codec_be) simp_all
  show "codec (get_u16 (rfc9000_octets mx)) (put_u16 (rfc9000_octets mx)) (\<lambda>_. 2) (\<lambda>_. True)"
    unfolding rfc9000_octets_def octets_api.simps by (rule codec_be) simp_all
  show "reader (get_u32 (rfc9000_octets mx))" "reader (get_u64 (rfc9000_octets mx))"
    unfolding rfc9000_octets_def octets_api.simps by (rule reader_get_be; simp)+
  show "codec (get_varint (rfc9000_octets mx)) (put_varint (rfc9000_octets mx))
     (varint_len (rfc9000_octets mx)) varint_ok"
    unfolding rfc9000_octets_def octets_api.simps
    by (rule codec_put_encoding [OF reader_rfc9000])
      (simp add: rfc9000_bytes_def rfc9000_len_def, simp add: rfc9000_get_bytes varint_ok_def)
qed (use assms in \<open>auto simp: rfc9000_octets_def put_encoding_def rfc9000_get_zero intro: rfc9000_get_range\<close>)

text \<open>The two targets of the repository: native 64-bit code and 32-bit WebAssembly.\<close>

interpretation native: octets_crate "rfc9000_octets (2 ^ 64 - 1)"
  by (rule octets_crate_rfc9000) simp_all

interpretation wasm32: octets_crate "rfc9000_octets (2 ^ 32 - 1)"
  by (rule octets_crate_rfc9000) simp_all

end
