(* ===== verification/Stream_Octets.thy ===== *)
theory Stream_Octets
  imports Stream_Buf Octets_Crate
begin

text \<open>
  The crate \<^verbatim>\<open>stream-octets\<close> (\<^verbatim>\<open>crates/stream-octets/src/lib.rs\<close>): decoding
  integers from a buffered stream. The lemmas of the interface locale show that a decoder
  returns what the integer codec reads from the bytes to come, however they arrive, and
  that it consumes exactly the bytes of the integer.
\<close>

lemma poll_fill_buf_shorter:
  "poll_fill_buf sb = (Ready (Inr u), sb') \<Longrightarrow> length (stream sb') < length (stream sb)"
  by (cases "stream sb" rule: stream_poll_next.cases)
    (auto simp: poll_fill_buf_def split: sum.splits)

function poll_with_octets ::
  "(bytes \<Rightarrow> ('a \<times> bytes) option) \<Rightarrow> 'e stream_buf \<Rightarrow> ('a, 'e) result poll \<times> 'e stream_buf" where
  "poll_with_octets f sb =
     (case f (chunk sb) of
        Some (v, rest) \<Rightarrow>
          (case advance (length (chunk sb) - length rest) sb of
             (Inl e, sb') \<Rightarrow> (Ready (Inl e), sb')
           | (Inr _, sb') \<Rightarrow> (Ready (Inr v), sb'))
      | None \<Rightarrow>
          (case poll_fill_buf sb of
             (Pending, sb') \<Rightarrow> (Pending, sb')
           | (Ready (Inl e), sb') \<Rightarrow> (Ready (Inl e), sb')
           | (Ready (Inr _), sb') \<Rightarrow> poll_with_octets f sb'))"
  by pat_completeness auto
termination
  by (relation "measure (\<lambda>(f, sb). length (stream sb))")
    (auto dest!: sym [of _ "poll_fill_buf _"] poll_fill_buf_shorter)

declare poll_with_octets.simps [simp del]

definition poll_decode_u8 :: "octets_api \<Rightarrow> 'e stream_buf \<Rightarrow> (byte, 'e) result poll \<times> 'e stream_buf" where
  "poll_decode_u8 oct sb = poll_with_octets (get_u8 oct) sb"

definition decode_u8 :: "octets_api \<Rightarrow> ('e stream_buf, byte, 'e) async" where
  "decode_u8 oct = await (poll_decode_u8 oct)"

definition poll_decode_u16 :: "octets_api \<Rightarrow> 'e stream_buf \<Rightarrow> (u16, 'e) result poll \<times> 'e stream_buf" where
  "poll_decode_u16 oct sb = poll_with_octets (get_u16 oct) sb"

definition decode_u16 :: "octets_api \<Rightarrow> ('e stream_buf, u16, 'e) async" where
  "decode_u16 oct = await (poll_decode_u16 oct)"

definition poll_decode_u32 :: "octets_api \<Rightarrow> 'e stream_buf \<Rightarrow> (u32, 'e) result poll \<times> 'e stream_buf" where
  "poll_decode_u32 oct sb = poll_with_octets (get_u32 oct) sb"

definition decode_u32 :: "octets_api \<Rightarrow> ('e stream_buf, u32, 'e) async" where
  "decode_u32 oct = await (poll_decode_u32 oct)"

definition poll_decode_u64 :: "octets_api \<Rightarrow> 'e stream_buf \<Rightarrow> (u64, 'e) result poll \<times> 'e stream_buf" where
  "poll_decode_u64 oct sb = poll_with_octets (get_u64 oct) sb"

definition decode_u64 :: "octets_api \<Rightarrow> ('e stream_buf, u64, 'e) async" where
  "decode_u64 oct = await (poll_decode_u64 oct)"

definition poll_decode_varint_u64 ::
  "octets_api \<Rightarrow> 'e stream_buf \<Rightarrow> (u64, 'e) result poll \<times> 'e stream_buf" where
  "poll_decode_varint_u64 oct sb = poll_with_octets (get_varint oct) sb"

definition decode_varint_u64 :: "octets_api \<Rightarrow> ('e stream_buf, u64, 'e) async" where
  "decode_varint_u64 oct = await (poll_decode_varint_u64 oct)"

text \<open>\<^verbatim>\<open>usize::try_from\<close> of a 64-bit value; it can only fail on a 32-bit target.\<close>

definition usize_try_from :: "octets_api \<Rightarrow> u64 \<Rightarrow> (nat, 'e) result" where
  "usize_try_from oct v =
     (if unat v \<le> usize_max oct then Inr (unat v) else Inl (invalid_data TryFromIntError))"

definition poll_decode_varint_usize ::
  "octets_api \<Rightarrow> 'e stream_buf \<Rightarrow> (nat, 'e) result poll \<times> 'e stream_buf" where
  "poll_decode_varint_usize oct sb =
     (case poll_decode_varint_u64 oct sb of
        (Pending, sb') \<Rightarrow> (Pending, sb')
      | (Ready (Inl e), sb') \<Rightarrow> (Ready (Inl e), sb')
      | (Ready (Inr v), sb') \<Rightarrow> (Ready (usize_try_from oct v), sb'))"

definition decode_varint_usize :: "octets_api \<Rightarrow> ('e stream_buf, nat, 'e) async" where
  "decode_varint_usize oct = await (poll_decode_varint_usize oct)"

definition read_with_varint_length :: "octets_api \<Rightarrow> ('e stream_buf, bytes, 'e) async" where
  "read_with_varint_length oct = abind (decode_varint_usize oct) read_exact"

subsection \<open>Decoding is reading from the view\<close>

text \<open>Awaiting the polled decoder of an integer.\<close>

definition decode_with :: "(bytes \<Rightarrow> ('a \<times> bytes) option) \<Rightarrow> ('e stream_buf, 'a, 'e) async" where
  "decode_with f = await (poll_with_octets f)"

lemmas decode_with_folds =
  decode_u8_def [unfolded poll_decode_u8_def [abs_def], folded decode_with_def]
  decode_u16_def [unfolded poll_decode_u16_def [abs_def], folded decode_with_def]
  decode_u32_def [unfolded poll_decode_u32_def [abs_def], folded decode_with_def]
  decode_u64_def [unfolded poll_decode_u64_def [abs_def], folded decode_with_def]
  decode_varint_u64_def [unfolded poll_decode_varint_u64_def [abs_def], folded decode_with_def]

lemma decode_with_unfold:
  "decode_with f sb =
     (case f (buf sb) of
        Some (v, rest) \<Rightarrow>
          (case advance (length (buf sb) - length rest) sb of
             (Inl e, sb') \<Rightarrow> Some (Inl e, sb')
           | (Inr _, sb') \<Rightarrow> Some (Inr v, sb'))
      | None \<Rightarrow>
          (if max_buf_size sb < length (buf sb)
           then Some (Inl (FromIo (IoError InvalidData (Msg ''max buf size reached''))), sb)
           else case stream sb of
             [] \<Rightarrow> Some (Inl (unexpected_eof ''could not accumulate more data''), sb)
           | Wait # st \<Rightarrow> decode_with f (sb\<lparr>stream := st\<rparr>)
           | Yield (Inl e) # st \<Rightarrow> Some (Inl e, sb\<lparr>stream := st\<rparr>)
           | Yield (Inr d) # st \<Rightarrow> decode_with f (sb\<lparr>stream := st, buf := buf sb @ d\<rparr>)))"
  unfolding decode_with_def
  by (cases "stream sb" rule: stream_poll_next.cases)
    (auto simp: poll_with_octets.simps [of f sb] chunk_def poll_fill_buf_def check_max_buf_size_def
      split: option.split sum.split prod.split intro!: await_cong)

lemma poll_with_octets_Pending:
  "poll_with_octets f sb = (Pending, sb') \<Longrightarrow> length (stream sb') < length (stream sb)"
proof (induction f sb rule: poll_with_octets.induct)
  case (1 f sb)
  show ?case
  proof (cases "f (chunk sb)")
    case None
    with 1 show ?thesis
      by (cases "stream sb" rule: stream_poll_next.cases)
        (auto simp: poll_with_octets.simps [of f sb] poll_fill_buf_def intro: less_SucI split: sum.splits)
  next
    case (Some p)
    with 1 show ?thesis
      by (auto simp: poll_with_octets.simps [of f sb] split: prod.splits sum.splits)
  qed
qed

text \<open>The \<open>usize\<close> decoder is the 64-bit one followed by the conversion.\<close>

lemma decode_varint_usize_eq:
  "decode_varint_usize oct sb
     = abind (decode_varint_u64 oct) (\<lambda>v. alift (usize_try_from oct v)) sb"
proof (induction "length (stream sb)" arbitrary: sb rule: less_induct)
  case less
  obtain p sb' where p: "poll_with_octets (get_varint oct) sb = (p, sb')"
    by (cases "poll_with_octets (get_varint oct) sb")
  show ?case
  proof (cases p)
    case Pending
    with p poll_with_octets_Pending have "length (stream sb') < length (stream sb)" by blast
    from less [OF this] p Pending show ?thesis
      by (simp add: decode_varint_usize_def decode_varint_u64_def abind_def
          poll_decode_varint_usize_def poll_decode_varint_u64_def)
  next
    case (Ready r)
    with p show ?thesis
      by (cases r) (simp_all add: decode_varint_usize_def decode_varint_u64_def abind_def
          poll_decode_varint_usize_def poll_decode_varint_u64_def)
  qed
qed

context reader
begin

lemma advance_get:
  assumes "get (buf sb) = Some (v, rest)"
  shows "advance (length (buf sb) - length rest) sb = (Inr (), sb\<lparr>buf := rest\<rparr>)"
  using get_shorter [OF assms] get_suffix [OF assms, symmetric] by (simp add: advance_def)

lemma decode_with_buffered:
  "get (buf sb) = Some (v, rest) \<Longrightarrow> decode_with get sb = Some (Inr v, sb\<lparr>buf := rest\<rparr>)"
  by (simp add: decode_with_unfold [of get sb] advance_get)

lemma decode_with_view:
  "stream sb = st \<Longrightarrow> length (avail sb) \<le> max_buf_size sb \<Longrightarrow>
   (\<exists>sb'. decode_with get sb =
       Some (case get (avail sb) of
               Some (v, rest) \<Rightarrow> Inr v
             | None \<Rightarrow> Inl (end_error ''could not accumulate more data'' (tail sb)), sb')
     \<and> (\<forall>v rest. get (avail sb) = Some (v, rest) \<longrightarrow> advanced_to rest sb sb'))"
proof (induction st arbitrary: sb)
  case Nil
  then show ?case
    by (auto simp: decode_with_unfold [of get sb] avail_def tail_def end_error_def
        advanced_to_def advance_get split: option.split)
next
  case (Cons e st)
  note room = \<open>length (avail sb) \<le> max_buf_size sb\<close>
  show ?case
  proof (cases "get (buf sb)")
    case (Some p)
    obtain v rest where vr: "get (buf sb) = Some (v, rest)" using Some by (cases p) auto
    from get_mono [OF this] have "get (avail sb) = Some (v, rest @ stream_bytes (stream sb))"
      by (simp add: avail_def)
    with decode_with_buffered [OF vr] show ?thesis
      by (auto simp: advanced_to_def avail_def tail_def intro: exI [of _ 0])
  next
    case None
    from room have "\<not> max_buf_size sb < length (buf sb)" by (simp add: avail_def)
    note step = decode_with_unfold [of get sb] None this Cons.prems(1)
    show ?thesis
    proof (cases e rule: event_cases)
      case W
      with Cons.prems have eqs: "avail (sb\<lparr>stream := st\<rparr>) = avail sb" "tail (sb\<lparr>stream := st\<rparr>) = tail sb"
        by (simp_all add: tail_def)
      show ?thesis
        using Cons.IH [of "sb\<lparr>stream := st\<rparr>", unfolded eqs] room step W
        by (fastforce intro: advanced_to_Wait)
    next
      case (E x)
      with Cons.prems have "avail sb = buf sb" "tail sb = Some x" by (simp_all add: avail_def tail_def)
      with step E show ?thesis by (auto simp: end_error_def)
    next
      case (D d)
      let ?sb = "sb\<lparr>stream := st, buf := buf sb @ d\<rparr>"
      from D Cons.prems have eqs: "avail ?sb = avail sb" "tail ?sb = tail sb"
        by (simp_all add: tail_def)
      show ?thesis
        using Cons.IH [of ?sb, unfolded eqs] room step D
        by (fastforce intro: advanced_to_Yield)
    qed
  qed
qed

lemma chunk_invariant_decode_with: "chunk_invariant (decode_with get)"
proof (rule chunk_invariant_by_view)
  fix sb :: "'e stream_buf"
  assume "wf_buf sb"
  then have "length (avail sb) \<le> max_buf_size sb" by (simp add: wf_buf_def)
  from decode_with_view [OF refl this] obtain sb' where
    "decode_with get sb = Some (case get (avail sb) of Some (v, rest) \<Rightarrow> Inr v
       | None \<Rightarrow> Inl (end_error ''could not accumulate more data'' (tail sb)), sb')"
    "\<forall>v rest. get (avail sb) = Some (v, rest) \<longrightarrow> advanced_to rest sb sb'"
    by blast
  then show "\<exists>sb'. decode_with get sb =
       Some (case get (avail sb) of Some (v, rest) \<Rightarrow> Inr v
             | None \<Rightarrow> Inl (end_error ''could not accumulate more data'' (tail sb)), sb')
     \<and> (\<forall>a. (case get (avail sb) of Some (v, rest) \<Rightarrow> Inr v
             | None \<Rightarrow> Inl (end_error ''could not accumulate more data'' (tail sb))) = Inr a \<longrightarrow>
          advanced_to (snd (the (get (avail sb)))) sb sb'
          \<and> length (snd (the (get (avail sb)))) \<le> length (avail sb))"
    by (auto split: option.splits dest: get_shorter)
qed

lemma consumes_decode_with: "consumes (decode_with get)"
  unfolding consumes_def
proof (intro allI impI)
  fix sb s :: "'e stream_buf" and a
  assume wf: "wf_buf sb" and r: "decode_with get sb = Some (Inr a, s)"
  from wf have "length (avail sb) \<le> max_buf_size sb" by (simp add: wf_buf_def)
  from decode_with_view [OF refl this] r obtain rest where
    g: "get (avail sb) = Some (a, rest)" and "advanced_to rest sb s"
    by (auto split: option.splits)
  with get_shorter [OF g] show "length (avail s) < length (avail sb)"
    by (simp add: advanced_to_def)
qed

end

context octets_crate
begin

lemma chunk_invariant_decoders [chunk_inv]:
  "chunk_invariant (decode_u8 oct)"
  "chunk_invariant (decode_u16 oct)"
  "chunk_invariant (decode_varint_u64 oct)"
  unfolding decode_with_folds
  by (rule u8.chunk_invariant_decode_with u16.chunk_invariant_decode_with
      vi.chunk_invariant_decode_with)+

lemma chunk_invariant_varint_usize [chunk_inv]: "chunk_invariant (decode_varint_usize oct)"
  unfolding decode_varint_usize_eq [abs_def] by (intro chunk_inv)

lemma consumes_varint_u64: "consumes (decode_varint_u64 oct)"
  unfolding decode_with_folds by (rule vi.consumes_decode_with)

lemma consumes_varint_usize: "consumes (decode_varint_usize oct)"
  using consumes_varint_u64 unfolding consumes_def decode_varint_usize_eq
  by (fastforce simp: abind_def split: Option.bind_splits sum.splits)

lemma chunk_invariant_read_with_varint_length [chunk_inv]:
  "chunk_invariant (read_with_varint_length oct)"
  unfolding read_with_varint_length_def by (intro chunk_inv)

end

lemma weight_with_octets_aux:
  "poll_with_octets f sb = (p, sb') \<Longrightarrow>
   (p = Pending \<longrightarrow> weight sb' < weight sb) \<and> (\<forall>v. p = Ready (Inr v) \<longrightarrow> weight sb' \<le> weight sb)"
proof (induction f sb rule: poll_with_octets.induct)
  case (1 f sb)
  show ?case
  proof (cases "f (chunk sb)")
    case (Some vr)
    with "1.prems" show ?thesis
      by (auto simp: poll_with_octets.simps [of f sb] advance_def weight_def
          split: prod.splits sum.splits if_splits)
  next
    case None
    obtain q sb1 where q: "poll_fill_buf sb = (q, sb1)" by (cases "poll_fill_buf sb")
    consider "q = Pending" | e where "q = Ready (Inl e)" | "q = Ready (Inr ())"
      by (cases q) (metis sum.exhaust unit.exhaust)+
    then show ?thesis
    proof cases
      case 3
      with None q "1.prems" have "poll_with_octets f sb1 = (p, sb')"
        by (simp add: poll_with_octets.simps [of f sb])
      from "1.IH" [OF None q [symmetric, unfolded 3] refl refl this] weight_fill(2) [OF q [unfolded 3]]
      show ?thesis by auto
    qed (use None q "1.prems" weight_fill(1) [of sb] in \<open>auto simp: poll_with_octets.simps [of f sb]\<close>)
  qed
qed

lemma weight_varint:
  "poll_decode_varint_u64 oct sb = (Pending, sb') \<Longrightarrow> weight sb' < weight sb"
  "poll_decode_varint_u64 oct sb = (Ready (Inr v), sb') \<Longrightarrow> weight sb' \<le> weight sb"
  using weight_with_octets_aux [of "get_varint oct" sb] by (simp_all add: poll_decode_varint_u64_def)

context reader
begin

lemma poll_with_octets_view:
  "stream sb = st \<Longrightarrow> wf_buf sb \<Longrightarrow> poll_with_octets get sb = (p, sb') \<Longrightarrow>
   (case p of
      Pending \<Rightarrow> wf_buf sb' \<and> same_view sb' sb
    | Ready (Inl e) \<Rightarrow> get (avail sb) = None \<and> e = end_error ''could not accumulate more data'' (tail sb)
    | Ready (Inr v) \<Rightarrow> wf_buf sb' \<and> tail sb' = tail sb \<and> get (avail sb) = Some (v, avail sb'))"
proof (induction st arbitrary: sb)
  case Nil
  show ?case
  proof (cases "get (buf sb)")
    case (Some vr)
    then obtain v rest where vr: "get (buf sb) = Some (v, rest)" by (cases vr) simp
    with Nil get_shorter [OF vr] show ?thesis
      by (auto simp: poll_with_octets.simps [of get sb] chunk_def advance_get [OF vr] view_defs)
  next
    case None
    with Nil show ?thesis
      by (auto simp: poll_with_octets.simps [of get sb] chunk_def poll_fill_buf_def
          check_max_buf_size_def view_defs end_error_def)
  qed
next
  case (Cons e st)
  show ?case
  proof (cases "get (buf sb)")
    case (Some vr)
    then obtain v rest where vr: "get (buf sb) = Some (v, rest)" by (cases vr) simp
    with get_shorter [OF vr] get_mono [OF vr] Cons.prems show ?thesis
      by (auto simp: poll_with_octets.simps [of get sb] chunk_def advance_get [OF vr] view_defs)
  next
    case None
    from Cons.prems(2) have room: "\<not> max_buf_size sb < length (buf sb)" by (simp add: view_defs)
    note step = poll_with_octets.simps [of get sb] chunk_def poll_fill_buf_def check_max_buf_size_def
    show ?thesis
    proof (cases e rule: event_cases)
      case W
      with None room Cons.prems show ?thesis by (auto simp: step view_defs)
    next
      case (E x)
      with None room Cons.prems show ?thesis by (auto simp: step view_defs end_error_def)
    next
      case (D d)
      let ?sb = "sb\<lparr>stream := st, buf := buf sb @ d\<rparr>"
      from D None room Cons.prems have "poll_with_octets get ?sb = (p, sb')" "wf_buf ?sb"
        by (auto simp: step view_defs)
      moreover from D Cons.prems(1) have "avail ?sb = avail sb" "tail ?sb = tail sb"
        by (simp_all add: tail_def)
      ultimately show ?thesis using Cons.IH [of ?sb]
        by (auto simp: same_view_def split: poll.splits sum.splits)
    qed
  qed
qed

end

context octets_crate
begin

lemma parses_varint_u64 [parses_rules]:
  "varint_ok v \<Longrightarrow> parses (decode_varint_u64 oct) (varint_bytes oct v @ rest) rest v"
  unfolding decode_with_folds parses_def
  by (simp add: vi.decode_with_buffered get_varint_append)

lemma parses_varint_usize [parses_rules]:
  "varint_ok v \<Longrightarrow> unat v \<le> usize_max oct \<Longrightarrow> n = unat v \<Longrightarrow>
   parses (decode_varint_usize oct) (varint_bytes oct v @ rest) rest n"
  unfolding decode_varint_usize_eq [abs_def]
  by (rule parses_abind [OF parses_varint_u64]) (simp_all add: usize_try_from_def parses_aret)

lemma parses_u8 [parses_rules]: "parses (decode_u8 oct) (u8_bytes oct v @ rest) rest v"
  unfolding decode_with_folds parses_def
  by (simp add: u8.decode_with_buffered get_u8_append)

lemma parses_u16 [parses_rules]: "parses (decode_u16 oct) (u16_bytes oct v @ rest) rest v"
  unfolding decode_with_folds parses_def
  by (simp add: u16.decode_with_buffered get_u16_append)

end

subsection \<open>Properties\<close>

text \<open>
  C14: decoding a variable-length integer from a stream completes, and returns what the
  integer codec reads from the bytes to come and consumes exactly the bytes of the
  integer, or fails as the stream does when the bytes to come hold no integer.
\<close>

theorem varint_decoded:
  assumes "octets_crate oct" and "wf_buf sb"
  shows "\<exists>sb'. decode_varint_u64 oct sb =
       Some (case get_varint oct (avail sb) of
               Some (v, rest) \<Rightarrow> Inr v
             | None \<Rightarrow> Inl (end_error ''could not accumulate more data'' (tail sb)), sb')
     \<and> (\<forall>v rest. get_varint oct (avail sb) = Some (v, rest) \<longrightarrow> advanced_to rest sb sb')"
proof -
  from assms(2) have "length (avail sb) \<le> max_buf_size sb" by (simp add: wf_buf_def)
  with reader.decode_with_view [OF codec.axioms(1) [OF octets_crate.axioms(5) [OF assms(1)]] refl]
  show ?thesis unfolding decode_with_folds by blast
qed

theorem varint_decoded_witness:
  "\<exists>sb'. decode_varint_u64 (rfc9000_octets (2 ^ 64 - 1))
      (new_stream_buf [Yield (Inr [64]), Wait, Yield (Inr [5, 7])] :: unit stream_buf) = Some (Inr 5, sb')
    \<and> avail sb' = [7]"
  using varint_decoded [OF native.octets_crate_axioms, of "new_stream_buf [Yield (Inr [64]), Wait, Yield (Inr [5, 7])]"]
  by (auto simp: rfc9000_octets_def rfc9000_get_def get_be_def be_value_def new_stream_buf_def view_defs
      default_max_buf_size_def advanced_to_def)

end
