(* ===== verification/Rust_Text.thy ===== *)
theory Rust_Text
  imports Pvcli_Base
begin

text \<open>
  The operations of Rust's \<^verbatim>\<open>str\<close> that the client uses, on a string as its UTF-8
  bytes: searching, splitting, trimming, ASCII case, the parsers of \<^verbatim>\<open>u16\<close> and
  \<^verbatim>\<open>IpAddr\<close> and the decimal rendering of numbers, with the lemmas that relate them.
\<close>

abbreviation colon :: byte where "colon \<equiv> 58"
abbreviation slash :: byte where "slash \<equiv> 47"
abbreviation comma :: byte where "comma \<equiv> 44"

definition lower_byte :: "byte \<Rightarrow> byte" where
  "lower_byte b = (if 65 \<le> unat b \<and> unat b \<le> 90 then b + 32 else b)"

lemma ascii_Nil [simp]: "ascii s = [] \<longleftrightarrow> s = []"
  by (simp add: ascii_def)

lemma length_ascii [simp]: "length (ascii s) = length s"
  by (simp add: ascii_def)

definition to_ascii_lowercase :: "bytes \<Rightarrow> bytes" where
  "to_ascii_lowercase = map lower_byte"

definition is_ascii :: "bytes \<Rightarrow> bool" where
  "is_ascii = list_all (\<lambda>b. unat b < 128)"

lemma is_ascii_lower: "is_ascii s \<Longrightarrow> is_ascii (to_ascii_lowercase s)"
  by (auto simp: is_ascii_def to_ascii_lowercase_def list_all_iff lower_byte_def unat_word_ariths)

subsection \<open>Searching and splitting\<close>

definition starts_with :: "bytes \<Rightarrow> bytes \<Rightarrow> bool" where
  "starts_with p s \<longleftrightarrow> take (length p) s = p"

fun contains :: "bytes \<Rightarrow> bytes \<Rightarrow> bool" where
  "contains p [] \<longleftrightarrow> p = []"
| "contains p (c # s) \<longleftrightarrow> starts_with p (c # s) \<or> contains p s"

fun split_once :: "bytes \<Rightarrow> bytes \<Rightarrow> (bytes \<times> bytes) option" where
  "split_once sep [] = (if sep = [] then Some ([], []) else None)"
| "split_once sep (c # s) =
     (if starts_with sep (c # s) then Some ([], drop (length sep) (c # s))
      else map_option (apfst ((#) c)) (split_once sep s))"

fun splitn :: "nat \<Rightarrow> byte \<Rightarrow> bytes \<Rightarrow> bytes list" where
  "splitn 0 c s = []"
| "splitn (Suc 0) c s = [s]"
| "splitn (Suc (Suc n)) c s =
     (case split_once [c] s of None \<Rightarrow> [s] | Some (a, b) \<Rightarrow> a # splitn (Suc n) c b)"

fun split_char :: "byte \<Rightarrow> bytes \<Rightarrow> bytes list" where
  "split_char c [] = [[]]"
| "split_char c (x # s) =
     (if x = c then [] # split_char c s
      else (x # hd (split_char c s)) # tl (split_char c s))"

definition strip_prefix :: "bytes \<Rightarrow> bytes \<Rightarrow> bytes option" where
  "strip_prefix p s = (if starts_with p s then Some (drop (length p) s) else None)"

definition strip_suffix :: "bytes \<Rightarrow> bytes \<Rightarrow> bytes option" where
  "strip_suffix p s = map_option rev (strip_prefix (rev p) (rev s))"

definition trim_start_matches :: "byte \<Rightarrow> bytes \<Rightarrow> bytes" where
  "trim_start_matches c = dropWhile ((=) c)"

definition trim_end_matches :: "byte \<Rightarrow> bytes \<Rightarrow> bytes" where
  "trim_end_matches c s = rev (dropWhile ((=) c) (rev s))"

lemma starts_with_append [simp]: "starts_with p (p @ s)"
  by (simp add: starts_with_def)

lemma starts_with_iff: "starts_with p s \<longleftrightarrow> (\<exists>t. s = p @ t)"
  by (metis append_take_drop_id starts_with_append starts_with_def)

lemma starts_with_single [simp]: "starts_with [c] (x # s) \<longleftrightarrow> x = c"
  by (auto simp: starts_with_def)

lemma contains_iff: "contains p s \<longleftrightarrow> (\<exists>a b. s = a @ p @ b)"
proof (induction p s rule: contains.induct)
  case (2 p c s)
  show ?case
  proof
    assume "contains p (c # s)"
    then consider "starts_with p (c # s)" | "contains p s" by auto
    then show "\<exists>a b. c # s = a @ p @ b"
      by cases (metis append_Nil starts_with_iff, metis "2.IH" append_Cons)
  next
    assume "\<exists>a b. c # s = a @ p @ b"
    then obtain a b where "c # s = a @ p @ b" by blast
    then show "contains p (c # s)"
    proof (cases a)
      case Nil
      with \<open>c # s = a @ p @ b\<close> have "starts_with p (c # s)" by (metis append_Nil starts_with_append)
      then show ?thesis by simp
    qed (use 2 in auto)
  qed
qed auto

lemma split_once_Some:
  "split_once sep s = Some (a, b) \<Longrightarrow> s = a @ sep @ b"
  by (induction s arbitrary: a) (auto simp: starts_with_iff split: if_splits)

lemma split_once_None: "split_once sep s = None \<longleftrightarrow> \<not> contains sep s"
  by (induction s) auto

lemma split_once_char_notin:
  "split_once [c] s = Some (a, b) \<Longrightarrow> c \<notin> set a"
  by (induction s arbitrary: a) (auto split: if_splits)

lemma split_once_char [simp]:
  "c \<notin> set a \<Longrightarrow> split_once [c] (a @ c # b) = Some (a, b)"
  by (induction a) auto

lemma split_once_absent [simp]: "c \<notin> set s \<Longrightarrow> split_once [c] s = None"
  by (induction s) auto

lemma split_char_nonempty [simp]: "split_char c s \<noteq> []"
  by (cases s) auto

lemma split_char_absent [simp]: "c \<notin> set s \<Longrightarrow> split_char c s = [s]"
  by (induction s) auto

lemma split_char_append [simp]:
  "c \<notin> set s \<Longrightarrow> split_char c (s @ c # t) = s # split_char c t"
  by (induction s) auto

lemma split_char_parts: "\<forall>p \<in> set (split_char c s). c \<notin> set p"
proof (induction s)
  case (Cons x s)
  have "hd (split_char c s) \<in> set (split_char c s)" by simp
  moreover have "set (tl (split_char c s)) \<subseteq> set (split_char c s)" by (metis list.set_sel(2) subsetI split_char_nonempty)
  ultimately show ?case using Cons by auto
qed simp

lemma trim_end_matches_decomp: "\<exists>n. s = trim_end_matches c s @ replicate n c"
proof -
  have "takeWhile ((=) c) (rev s) = replicate (length (takeWhile ((=) c) (rev s))) c"
    by (rule replicate_eqI) (auto dest: set_takeWhileD)
  then have "s = trim_end_matches c s @ replicate (length (takeWhile ((=) c) (rev s))) c"
    unfolding trim_end_matches_def
    by (metis rev_append rev_replicate rev_swap takeWhile_dropWhile_id)
  then show ?thesis ..
qed

lemma trim_end_matches_last:
  assumes "trim_end_matches c s \<noteq> []"
  shows "last (trim_end_matches c s) \<noteq> c"
proof -
  have "dropWhile ((=) c) (rev s) \<noteq> []" using assms by (simp add: trim_end_matches_def)
  from hd_dropWhile [OF this] show ?thesis by (simp add: trim_end_matches_def last_rev)
qed

subsection \<open>White space\<close>

text \<open>
  \<^verbatim>\<open>char::is_whitespace\<close>: the UTF-8 encodings of the characters with the Unicode
  property \<^verbatim>\<open>White_Space\<close>.
\<close>

definition white_space :: "bytes list" where
  "white_space = map (\<lambda>n. [of_nat n]) [9, 10, 11, 12, 13, 32]
     @ [[0xC2, 0x85], [0xC2, 0xA0], [0xE1, 0x9A, 0x80]]
     @ map (\<lambda>n. [0xE2, 0x80, of_nat n]) ([128..<139] @ [168, 169, 175])
     @ [[0xE2, 0x81, 0x9F], [0xE3, 0x80, 0x80]]"

function strip_all :: "bytes list \<Rightarrow> bytes \<Rightarrow> bytes" where
  "strip_all ws s =
     (case find (\<lambda>w. w \<noteq> [] \<and> starts_with w s) ws of
        None \<Rightarrow> s | Some w \<Rightarrow> strip_all ws (drop (length w) s))"
  by auto
termination
  by (relation "measure (length \<circ> snd)")
     (auto simp: find_Some_iff starts_with_iff)

declare strip_all.simps [simp del]

definition trim_start :: "bytes \<Rightarrow> bytes" where
  "trim_start = strip_all white_space"

definition trim_end :: "bytes \<Rightarrow> bytes" where
  "trim_end s = rev (strip_all (map rev white_space) (rev s))"

definition trim :: "bytes \<Rightarrow> bytes" where
  "trim s = trim_end (trim_start s)"

lemma strip_all_suffix: "\<exists>p. s = p @ strip_all ws s"
proof (induction ws s rule: strip_all.induct)
  case (1 ws s)
  show ?case
  proof (cases "find (\<lambda>w. w \<noteq> [] \<and> starts_with w s) ws")
    case (Some w)
    with 1 obtain p where "drop (length w) s = p @ strip_all ws (drop (length w) s)" by blast
    moreover have "strip_all ws s = strip_all ws (drop (length w) s)"
      by (subst strip_all.simps) (simp add: Some)
    ultimately have "s = (take (length w) s @ p) @ strip_all ws s"
      by (metis append.assoc append_take_drop_id)
    then show ?thesis ..
  qed (simp add: strip_all.simps)
qed

lemma trim_inside: "\<exists>x y. s = x @ trim s @ y"
proof -
  obtain x where x: "s = x @ trim_start s" unfolding trim_start_def using strip_all_suffix by blast
  obtain y where "rev (trim_start s) = y @ strip_all (map rev white_space) (rev (trim_start s))"
    using strip_all_suffix by blast
  then have "trim_start s = trim s @ rev y" unfolding trim_def trim_end_def by (metis rev_append rev_rev_ident)
  with x have "s = x @ trim s @ rev y" by simp
  then show ?thesis by blast
qed

text \<open>A string of visible ASCII characters has nothing to trim.\<close>

definition visible :: "bytes \<Rightarrow> bool" where
  "visible = list_all (\<lambda>b. 33 \<le> unat b \<and> unat b < 127)"

lemma white_space_bytes:
  "w \<in> set white_space \<Longrightarrow> w \<noteq> [] \<and> (unat (hd w) < 33 \<or> 128 \<le> unat (hd w)) \<and> (unat (last w) < 33 \<or> 128 \<le> unat (last w))"
  unfolding white_space_def by (auto simp: upt_rec_numeral)

lemma strip_all_visible:
  assumes "\<And>w. w \<in> set ws \<Longrightarrow> w \<noteq> [] \<Longrightarrow> unat (hd w) < 33 \<or> 128 \<le> unat (hd w)" "visible s"
  shows "strip_all ws s = s"
proof -
  have "find (\<lambda>w. w \<noteq> [] \<and> starts_with w s) ws = None"
  proof (unfold find_None_iff, clarify)
    fix w assume w: "w \<in> set ws" "w \<noteq> []" "starts_with w s"
    then obtain t where "s = w @ t" by (auto simp: starts_with_iff)
    with w(2) assms(2) have "33 \<le> unat (hd w)" "unat (hd w) < 127" by (auto simp: visible_def neq_Nil_conv)
    with assms(1) [OF w(1,2)] show False by simp
  qed
  then show ?thesis by (simp add: strip_all.simps)
qed

lemma trim_visible [simp]: "visible s \<Longrightarrow> trim s = s"
  unfolding trim_def trim_end_def trim_start_def
  by (subst strip_all_visible, use white_space_bytes in blast, assumption,
      subst strip_all_visible) (auto simp: visible_def hd_rev dest: white_space_bytes)

subsection \<open>Case and encoding\<close>

text \<open>
  \<^verbatim>\<open>str::to_lowercase\<close> follows the tables of the Unicode Character Database, which are a
  parameter; on ASCII text it is \<^verbatim>\<open>to_ascii_lowercase\<close>.
\<close>

locale unicode_case =
  fixes to_lowercase :: "bytes \<Rightarrow> bytes"
  assumes lowercase_ascii: "is_ascii s \<Longrightarrow> to_lowercase s = to_ascii_lowercase s"

interpretation ascii_case: unicode_case to_ascii_lowercase
  by unfold_locales simp

text \<open>
  \<^verbatim>\<open>String::from_utf8_lossy\<close>: \<open>utf8_step\<close> is the length of the sequence at the head of
  the bytes and whether it encodes a character; each maximal invalid sequence becomes the
  replacement character.
\<close>

definition cont :: "nat \<Rightarrow> nat \<Rightarrow> bytes \<Rightarrow> nat \<Rightarrow> bool" where
  "cont lo hi s i \<longleftrightarrow> i < length s \<and> lo \<le> unat (s ! i) \<and> unat (s ! i) \<le> hi"

definition utf8_step :: "bytes \<Rightarrow> nat \<times> bool" where
  "utf8_step s =
     (let b = unat (hd s);
          tail3 = (\<lambda>lo hi. if \<not> cont lo hi s 1 then (1, False)
                           else if \<not> cont 0x80 0xBF s 2 then (2, False) else (3, True));
          tail4 = (\<lambda>lo hi. if \<not> cont lo hi s 1 then (1, False)
                           else if \<not> cont 0x80 0xBF s 2 then (2, False)
                           else if \<not> cont 0x80 0xBF s 3 then (3, False) else (4, True))
      in if b < 0x80 then (1, True)
         else if 0xC2 \<le> b \<and> b \<le> 0xDF then (if cont 0x80 0xBF s 1 then (2, True) else (1, False))
         else if b = 0xE0 then tail3 0xA0 0xBF
         else if b = 0xED then tail3 0x80 0x9F
         else if 0xE1 \<le> b \<and> b \<le> 0xEF then tail3 0x80 0xBF
         else if b = 0xF0 then tail4 0x90 0xBF
         else if b = 0xF4 then tail4 0x80 0x8F
         else if 0xF1 \<le> b \<and> b \<le> 0xF3 then tail4 0x80 0xBF
         else (1, False))"

lemma utf8_step_pos: "0 < fst (utf8_step s)"
  by (simp add: utf8_step_def Let_def)

function from_utf8_lossy :: "bytes \<Rightarrow> bytes" where
  "from_utf8_lossy s =
     (if s = [] then []
      else (case utf8_step s of (n, valid) \<Rightarrow>
              (if valid then take n s else [0xEF, 0xBF, 0xBD]) @ from_utf8_lossy (drop n s)))"
  by auto
termination
proof (relation "measure length")
  fix s :: bytes and n valid assume "s \<noteq> []" "(n, valid) = utf8_step s"
  moreover from this have "0 < n" using utf8_step_pos [of s] by (metis fst_conv)
  ultimately show "(drop n s, s) \<in> measure length" by simp
qed simp

declare from_utf8_lossy.simps [simp del]

lemma from_utf8_lossy_ascii [simp]: "is_ascii s \<Longrightarrow> from_utf8_lossy s = s"
proof (induction s)
  case (Cons b s)
  then have "utf8_step (b # s) = (1, True)" by (simp add: utf8_step_def is_ascii_def)
  with Cons show ?case by (subst from_utf8_lossy.simps) (simp add: is_ascii_def)
qed (simp add: from_utf8_lossy.simps)

subsection \<open>Numbers\<close>

definition is_digit :: "byte \<Rightarrow> bool" where
  "is_digit b \<longleftrightarrow> 48 \<le> unat b \<and> unat b \<le> 57"

definition decimal :: "bytes \<Rightarrow> nat" where
  "decimal = foldl (\<lambda>a b. 10 * a + (unat b - 48)) 0"

text \<open>\<^verbatim>\<open>u16::from_str\<close>: an optional plus sign and at least one digit, in range.\<close>

definition parse_u16 :: "bytes \<Rightarrow> u16 option" where
  "parse_u16 s =
     (let ds = (case s of c # cs \<Rightarrow> if c = 43 \<and> cs \<noteq> [] then cs else s | [] \<Rightarrow> [])
      in if ds \<noteq> [] \<and> list_all is_digit ds \<and> decimal ds < 2 ^ 16
         then Some (of_nat (decimal ds)) else None)"

text \<open>\<^verbatim>\<open>Display\<close> of an unsigned integer.\<close>

fun show_nat :: "nat \<Rightarrow> bytes" where
  "show_nat n = (if n < 10 then [of_nat (48 + n)] else show_nat (n div 10) @ [of_nat (48 + n mod 10)])"

declare show_nat.simps [simp del]

lemma unat_digit: "n < 10 \<Longrightarrow> unat (of_nat (48 + n) :: byte) = 48 + n"
  by (simp add: unat_of_nat take_bit_eq_mod del: of_nat_add)

lemma show_nat_digits: "show_nat n \<noteq> [] \<and> list_all is_digit (show_nat n)"
proof (induction n rule: show_nat.induct)
  case (1 n)
  moreover have "n mod 10 \<le> 9" using mod_less_divisor [of 10 n] by linarith
  ultimately show ?case
    using unat_digit [of n] unat_digit [of "n mod 10"]
    by (subst (1 2) show_nat.simps) (simp add: is_digit_def [abs_def] del: of_nat_add)
qed

lemma decimal_show_nat [simp]: "decimal (show_nat n) = n"
proof (induction n rule: show_nat.induct)
  case (1 n)
  then show ?case
    using unat_digit [of n] unat_digit [of "n mod 10"]
    by (subst show_nat.simps) (simp add: decimal_def del: of_nat_add)
qed

lemma parse_show_u16 [simp]: "parse_u16 (show_nat (unat (p :: u16))) = Some p"
proof -
  have "hd (show_nat (unat p)) \<noteq> 43"
    using show_nat_digits [of "unat p"] by (cases "show_nat (unat p)") (auto simp: is_digit_def)
  moreover have "unat p < 2 ^ 16" using unsigned_less [of p] by simp
  ultimately show ?thesis
    using show_nat_digits [of "unat p"] decimal_show_nat [of "unat p"]
    by (cases "show_nat (unat p)") (auto simp: parse_u16_def Let_def simp del: decimal_show_nat)
qed

lemma show_nat_notin: "\<not> is_digit c \<Longrightarrow> c \<notin> set (show_nat n)"
  using show_nat_digits [of n] by (auto simp: list_all_iff)

subsection \<open>IP addresses\<close>

text \<open>
  \<^verbatim>\<open>IpAddr::from_str\<close>, the parser of \<^verbatim>\<open>core::net\<close>: a reader returns its value
  and the rest of the input, or \<^const>\<open>None\<close> with nothing consumed.
\<close>

datatype ip_addr = V4 bytes | V6 "u16 list"

record socket_addr =
  sa_ip :: ip_addr
  sa_port :: u16

definition to_digit :: "nat \<Rightarrow> byte \<Rightarrow> nat option" where
  "to_digit radix b =
     (let d = (if is_digit b then unat b - 48
               else if 97 \<le> unat b \<and> unat b \<le> 102 then unat b - 87
               else if 65 \<le> unat b \<and> unat b \<le> 70 then unat b - 55 else radix)
      in if d < radix then Some d else None)"

fun number_loop :: "nat \<Rightarrow> nat \<Rightarrow> nat \<Rightarrow> nat \<Rightarrow> nat \<Rightarrow> bytes \<Rightarrow> (nat \<times> nat \<times> bytes) option" where
  "number_loop radix max_digits bound acc cnt [] = Some (acc, cnt, [])"
| "number_loop radix max_digits bound acc cnt (c # cs) =
     (case to_digit radix c of
        None \<Rightarrow> Some (acc, cnt, c # cs)
      | Some d \<Rightarrow> if bound \<le> acc * radix + d \<or> max_digits < Suc cnt then None
                  else number_loop radix max_digits bound (acc * radix + d) (Suc cnt) cs)"

definition read_number :: "nat \<Rightarrow> nat \<Rightarrow> bool \<Rightarrow> nat \<Rightarrow> bytes \<Rightarrow> (nat \<times> bytes) option" where
  "read_number radix max_digits allow_zero_prefix bound s =
     Option.bind (number_loop radix max_digits bound 0 0 s) (\<lambda>(n, cnt, rest).
       if cnt = 0 \<or> (\<not> allow_zero_prefix \<and> hd s = 48 \<and> 1 < cnt) then None else Some (n, rest))"

definition read_separator :: "byte \<Rightarrow> nat \<Rightarrow> (bytes \<Rightarrow> ('a \<times> bytes) option) \<Rightarrow> bytes \<Rightarrow> ('a \<times> bytes) option" where
  "read_separator sep i inner s =
     (if i = 0 then inner s
      else (case s of c # cs \<Rightarrow> if c = sep then inner cs else None | [] \<Rightarrow> None))"

fun read_octets :: "nat \<Rightarrow> nat \<Rightarrow> bytes \<Rightarrow> (bytes \<times> bytes) option" where
  "read_octets i 0 s = Some ([], s)"
| "read_octets i (Suc n) s =
     Option.bind (read_separator 46 i (read_number 10 3 False 256) s) (\<lambda>(o1, s1).
       map_option (apfst ((#) (of_nat o1))) (read_octets (Suc i) n s1))"

definition read_ipv4_addr :: "bytes \<Rightarrow> (bytes \<times> bytes) option" where
  "read_ipv4_addr = read_octets 0 4"

fun read_groups :: "nat \<Rightarrow> nat \<Rightarrow> bytes \<Rightarrow> u16 list \<times> bool \<times> bytes" where
  "read_groups i 0 s = ([], False, s)"
| "read_groups i (Suc n) s =
     (case (if 0 < n then read_separator colon i read_ipv4_addr s else None) of
        Some (v4, s1) \<Rightarrow>
          ([256 * ucast (v4 ! 0) + ucast (v4 ! 1), 256 * ucast (v4 ! 2) + ucast (v4 ! 3)], True, s1)
      | None \<Rightarrow>
          (case read_separator colon i (read_number 16 4 True (2 ^ 16)) s of
             None \<Rightarrow> ([], False, s)
           | Some (g, s1) \<Rightarrow>
               (case read_groups (Suc i) n s1 of (gs, v4, s2) \<Rightarrow> (of_nat g # gs, v4, s2))))"

definition read_ipv6_addr :: "bytes \<Rightarrow> (u16 list \<times> bytes) option" where
  "read_ipv6_addr s =
     (case read_groups 0 8 s of (groups, head_ipv4, s1) \<Rightarrow>
        if length groups = 8 then Some (groups, s1)
        else if head_ipv4 then None
        else (case strip_prefix [colon, colon] s1 of
                None \<Rightarrow> None
              | Some s2 \<Rightarrow>
                  (case read_groups 0 (8 - (length groups + 1)) s2 of (ts, _, s3) \<Rightarrow>
                     Some (groups @ replicate (8 - length groups - length ts) 0 @ ts, s3))))"

definition parse_ip_addr :: "bytes \<Rightarrow> ip_addr option" where
  "parse_ip_addr s =
     (case read_ipv4_addr s of
        Some (v4, rest) \<Rightarrow> if rest = [] then Some (V4 v4) else None
      | None \<Rightarrow>
          (case read_ipv6_addr s of
             Some (v6, rest) \<Rightarrow> if rest = [] then Some (V6 v6) else None
           | None \<Rightarrow> None))"

text \<open>
  The readers consume only digits, letters, dots and colons, so that the text of an address
  is visible and has no bracket and no comma.
\<close>

definition ip_char :: "byte \<Rightarrow> bool" where
  "ip_char b \<longleftrightarrow> is_digit b \<or> (97 \<le> unat b \<and> unat b \<le> 102) \<or> (65 \<le> unat b \<and> unat b \<le> 70) \<or> b = 46 \<or> b = colon"

definition consumes_ip :: "bytes \<Rightarrow> bytes \<Rightarrow> bool" where
  "consumes_ip s rest \<longleftrightarrow> (\<exists>c. s = c @ rest \<and> list_all ip_char c)"

lemma consumes_ip_refl [simp]: "consumes_ip s s"
  by (simp add: consumes_ip_def)

lemma consumes_ip_Cons: "consumes_ip s rest \<Longrightarrow> ip_char b \<Longrightarrow> consumes_ip (b # s) rest"
  by (auto simp: consumes_ip_def intro: exI [of _ "b # _"])

lemma consumes_ip_trans: "consumes_ip s t \<Longrightarrow> consumes_ip t u \<Longrightarrow> consumes_ip s u"
  by (auto simp: consumes_ip_def)

lemma ip_char_separators [simp]: "ip_char 46" "ip_char colon"
  by (simp_all add: ip_char_def)

lemma to_digit_ip_char: "to_digit radix b = Some d \<Longrightarrow> ip_char b"
  by (auto simp: to_digit_def ip_char_def Let_def split: if_splits)

lemma number_loop_consumes:
  "number_loop radix md bound acc cnt s = Some (n, cnt', rest) \<Longrightarrow> consumes_ip s rest \<and> (cnt' = cnt \<longrightarrow> rest = s) \<and> cnt \<le> cnt'"
  by (induction radix md bound acc cnt s rule: number_loop.induct)
    (auto split: option.splits if_splits dest: to_digit_ip_char intro: consumes_ip_Cons)

lemma read_number_consumes: "read_number radix md z bound s = Some (n, rest) \<Longrightarrow> consumes_ip s rest"
  by (auto simp: read_number_def split: Option.bind_splits if_splits dest: number_loop_consumes)

lemma read_separator_consumes:
  assumes "read_separator sep i inner s = Some (v, rest)" "ip_char sep"
    and "\<And>s v rest. inner s = Some (v, rest) \<Longrightarrow> consumes_ip s rest"
  shows "consumes_ip s rest"
  using assms by (auto simp: read_separator_def split: if_splits list.splits intro: consumes_ip_Cons)

lemma read_octets_consumes: "read_octets i n s = Some (v, rest) \<Longrightarrow> consumes_ip s rest"
proof (induction n arbitrary: i s v)
  case (Suc n)
  then obtain o1 s1 v' where sep: "read_separator 46 i (read_number 10 3 False 256) s = Some (o1, s1)"
    and s1: "read_octets (Suc i) n s1 = Some (v', rest)"
    by (auto split: Option.bind_splits)
  from sep have "consumes_ip s s1" by (rule read_separator_consumes) (auto dest: read_number_consumes)
  then show ?case using Suc.IH [OF s1] by (rule consumes_ip_trans)
qed simp

lemma read_ipv4_consumes: "read_ipv4_addr s = Some (v, rest) \<Longrightarrow> consumes_ip s rest"
  unfolding read_ipv4_addr_def by (rule read_octets_consumes)

lemma read_groups_consumes: "read_groups i n s = (gs, v4, rest) \<Longrightarrow> consumes_ip s rest"
proof (induction n arbitrary: i s gs v4)
  case (Suc n)
  show ?case
  proof (cases "if 0 < n then read_separator colon i read_ipv4_addr s else None")
    case None
    show ?thesis
    proof (cases "read_separator colon i (read_number 16 4 True (2 ^ 16)) s")
      case (Some p)
      obtain g s1 where p: "p = (g, s1)" by (cases p)
      obtain gs' v4' where "read_groups (Suc i) n s1 = (gs', v4', rest)"
        using Suc.prems None Some p by (auto split: prod.splits)
      then have "consumes_ip s1 rest" by (rule Suc.IH)
      moreover have "consumes_ip s s1"
        using Some unfolding p by (rule read_separator_consumes) (auto dest: read_number_consumes)
      ultimately show ?thesis by (metis consumes_ip_trans)
    qed (use Suc.prems None in auto)
  next
    case (Some p)
    then have "read_separator colon i read_ipv4_addr s = Some (fst p, rest)"
      using Suc.prems by (auto split: if_splits prod.splits)
    then show ?thesis by (rule read_separator_consumes) (auto dest: read_ipv4_consumes)
  qed
qed simp

lemma read_ipv6_consumes: "read_ipv6_addr s = Some (v, rest) \<Longrightarrow> consumes_ip s rest"
  by (auto simp: read_ipv6_addr_def strip_prefix_def starts_with_iff split: prod.splits if_splits option.splits
      dest!: read_groups_consumes intro!: consumes_ip_Cons elim!: consumes_ip_trans)

lemma parse_ip_addr_chars:
  assumes "parse_ip_addr s = Some ip"
  shows "list_all ip_char s"
  using assms read_ipv4_consumes [of s _ "[]"] read_ipv6_consumes [of s _ "[]"]
  by (auto simp: parse_ip_addr_def consumes_ip_def split: option.splits if_splits)

lemma read_octets_empty: "read_octets 0 (Suc n) [] = None"
  by (simp add: read_separator_def read_number_def)

lemma read_ipv4_empty [simp]: "read_ipv4_addr [] = None"
  using read_octets_empty [of 3] by (simp add: read_ipv4_addr_def)

lemma read_groups_empty: "read_groups 0 n [] = ([], False, [])"
  by (cases n) (simp_all add: read_separator_def read_number_def)

lemma parse_ip_addr_empty [simp]: "parse_ip_addr [] = None"
  by (simp add: parse_ip_addr_def read_groups_empty read_ipv6_addr_def strip_prefix_def starts_with_def)

lemma ip_char_visible: "ip_char b \<Longrightarrow> 33 \<le> unat b \<and> unat b < 127 \<and> b \<noteq> 91 \<and> b \<noteq> 93 \<and> b \<noteq> comma"
  by (auto simp: ip_char_def is_digit_def)

end
