(* ===== verification/Http_Crate.thy ===== *)
theory Http_Crate
  imports Rust_Text
begin

text \<open>
  The interface of the \<^verbatim>\<open>http\<close> crate, whose code is not part of the repository:
  the parsers of URIs, header names, header values, methods, schemes, authorities and paths, the
  assembly of a URI, status codes and the header multimap. A value of \<open>'hm http_api\<close>
  stands for it; the locale \<open>http_crate\<close> states what the crate documents. A parsed
  name, method, scheme or authority is the text it prints as. The header multimap is an
  abstract type \<open>'hm\<close>: the crate documents its iteration order only up to the order
  of the values of one name.
\<close>

record path_and_query =
  pq_path :: bytes
  pq_query :: "bytes option"

record uri =
  uri_scheme :: "bytes option"
  uri_authority :: "bytes option"
  uri_path :: bytes
  uri_query :: "bytes option"

datatype version = HTTP_09 | HTTP_10 | HTTP_11 | HTTP_2 | HTTP_3

record ('hm, 'b) request =
  rq_method :: bytes
  rq_uri :: uri
  rq_version :: version
  rq_headers :: 'hm
  rq_body :: 'b

record ('hm, 'b) response =
  rs_version :: version
  rs_status :: u16
  rs_headers :: 'hm
  rs_body :: 'b

record 'hm http_api =
  header_name :: "bytes \<Rightarrow> bytes option"
  header_value :: "bytes \<Rightarrow> bytes option"
  method_from :: "bytes \<Rightarrow> bytes option"
  scheme_from :: "bytes \<Rightarrow> bytes option"
  authority_from :: "bytes \<Rightarrow> bytes option"
  path_and_query_from :: "bytes \<Rightarrow> path_and_query option"
  uri_from_parts :: "bytes \<Rightarrow> bytes \<Rightarrow> path_and_query \<Rightarrow> uri option"
  status_from_u16 :: "u16 \<Rightarrow> u16 option"
  is_informational :: "u16 \<Rightarrow> bool"
  hm_capacity :: nat
  hm_empty :: 'hm
  hm_append :: "'hm \<Rightarrow> bytes \<Rightarrow> bytes \<Rightarrow> 'hm option"
  hm_iter :: "'hm \<Rightarrow> (bytes \<times> bytes) list"
  hm_get :: "'hm \<Rightarrow> bytes \<Rightarrow> bytes option"
  header_value_from_str :: "bytes \<Rightarrow> bytes option"
  status_from_bytes :: "bytes \<Rightarrow> u16 option"
  hm_insert :: "'hm \<Rightarrow> bytes \<Rightarrow> bytes \<Rightarrow> 'hm option"
  uri_parse :: "bytes \<Rightarrow> uri option"
  uri_host :: "uri \<Rightarrow> bytes option"
  uri_port_u16 :: "uri \<Rightarrow> u16 option"
  uri_path_and_query :: "uri \<Rightarrow> bytes option"

text \<open>The version of \<^verbatim>\<open>Request::default()\<close> and \<^verbatim>\<open>Response::default()\<close>.\<close>

definition default_version :: version where
  "default_version = HTTP_11"

text \<open>\<^verbatim>\<open>http::header::HOST\<close>.\<close>

definition HOST :: bytes where
  "HOST = ascii ''host''"

text \<open>The values of one header, in order.\<close>

definition hm_values :: "'hm http_api \<Rightarrow> 'hm \<Rightarrow> bytes \<Rightarrow> bytes list" where
  "hm_values api h n = map snd (filter (\<lambda>(m, v). m = n) (hm_iter api h))"

text \<open>\<^verbatim>\<open>HeaderMap::append\<close>, which panics when the map is at capacity.\<close>

definition hm_append_or_panic :: "'hm http_api \<Rightarrow> 'hm \<Rightarrow> bytes \<Rightarrow> bytes \<Rightarrow> ('hm, 'e) result" where
  "hm_append_or_panic api h n v =
     (case hm_append api h n v of
        None \<Rightarrow> Inl (Panicked ''header map at capacity'') | Some h' \<Rightarrow> Inr h')"

text \<open>\<^verbatim>\<open>HeaderMap::insert\<close>, which panics when the map is at capacity.\<close>

definition hm_insert_or_panic :: "'hm http_api \<Rightarrow> 'hm \<Rightarrow> bytes \<Rightarrow> bytes \<Rightarrow> ('hm, 'e) result" where
  "hm_insert_or_panic api h n v =
     (case hm_insert api h n v of
        None \<Rightarrow> Inl (Panicked ''header map at capacity'') | Some h' \<Rightarrow> Inr h')"

text \<open>The characters of a header name.\<close>

definition token_byte :: "byte \<Rightarrow> bool" where
  "token_byte b \<longleftrightarrow> b \<in> set (ascii (''!#$%&'' @ [CHR 0x27] @ ''*+-.^_`|~''))
     \<or> (48 \<le> unat b \<and> unat b \<le> 57) \<or> (65 \<le> unat b \<and> unat b \<le> 90) \<or> (97 \<le> unat b \<and> unat b \<le> 122)"

locale http_crate =
  fixes api :: "'hm http_api"
  assumes header_name_nonempty: "header_name api bs = Some n \<Longrightarrow> n \<noteq> []"
    and header_name_idem: "header_name api bs = Some n \<Longrightarrow> header_name api n = Some n"
    and header_value_same: "header_value api bs = Some v \<Longrightarrow> v = bs"
    and method_same: "method_from api bs = Some m \<Longrightarrow> m = bs"
    and scheme_same: "scheme_from api bs = Some s \<Longrightarrow> s = bs"
    and authority_same: "authority_from api bs = Some a \<Longrightarrow> a = bs"
    and uri_from_parts_spec: "uri_from_parts api s a pq =
      Some \<lparr>uri_scheme = Some s, uri_authority = Some a, uri_path = pq_path pq, uri_query = pq_query pq\<rparr>"
    and status_from_u16_spec: "status_from_u16 api c
      = (if 100 \<le> unat c \<and> unat c < 1000 then Some c else None)"
    and is_informational_spec: "is_informational api c \<longleftrightarrow> 100 \<le> unat c \<and> unat c < 200"
    and iter_empty: "hm_iter api (hm_empty api) = []"
    and append_room: "length (hm_iter api h) < hm_capacity api \<Longrightarrow> hm_append api h n v \<noteq> None"
    and iter_append: "hm_append api h n v = Some h' \<Longrightarrow>
      \<exists>xs ys. hm_iter api h = xs @ ys \<and> hm_iter api h' = xs @ (n, v) # ys \<and> n \<notin> fst ` set ys"
    and get_first: "hm_get api h n
      = (case hm_values api h n of [] \<Rightarrow> None | v # _ \<Rightarrow> Some v)"
    and insert_room: "length (hm_iter api h) < hm_capacity api \<Longrightarrow> hm_insert api h n v \<noteq> None"
    and insert_values: "hm_insert api h n v = Some h' \<Longrightarrow>
      hm_values api h' m = (if m = n then [v] else hm_values api h m)"
    and header_value_from_str_same: "header_value_from_str api bs = Some v \<Longrightarrow> v = bs \<and> header_value api bs = Some bs"
    and method_standard: "m \<in> ascii ` {''GET'', ''POST'', ''PUT'', ''DELETE'', ''PATCH'', ''HEAD'', ''CONNECT''}
      \<Longrightarrow> method_from api m = Some m"
    and header_name_token: "bs \<noteq> [] \<Longrightarrow> length bs \<le> 65535 \<Longrightarrow> list_all token_byte bs \<Longrightarrow> header_name api bs = Some (to_ascii_lowercase bs)"
    and header_value_visible: "list_all (\<lambda>b. 32 \<le> unat b \<and> unat b < 127) bs \<Longrightarrow> header_value_from_str api bs = Some bs"
begin

lemma filter_absent: "n \<notin> fst ` set ys \<Longrightarrow> filter (\<lambda>(m, v). m = n) ys = []"
  by (force simp: filter_empty_conv)

lemma values_append:
  assumes "hm_append api h n v = Some h'"
  shows "hm_values api h' m = hm_values api h m @ (if m = n then [v] else [])"
proof -
  from iter_append [OF assms] obtain xs ys where
    "hm_iter api h = xs @ ys" "hm_iter api h' = xs @ (n, v) # ys" "n \<notin> fst ` set ys"
    by blast
  with filter_absent [of n ys] show ?thesis by (auto simp: hm_values_def)
qed

lemma values_empty [simp]: "hm_values api (hm_empty api) m = []"
  by (simp add: hm_values_def iter_empty)

lemma length_iter_append:
  "hm_append api h n v = Some h' \<Longrightarrow> length (hm_iter api h') = Suc (length (hm_iter api h))"
  by (drule iter_append) auto

end

text \<open>
  Header names are ASCII text and are kept in lower case. The log of a request shows them, so
  that what it hides rests on this.
\<close>

locale http_names = http_crate +
  assumes header_name_lower: "header_name api bs = Some n \<Longrightarrow> is_ascii bs \<and> n = to_ascii_lowercase bs"

subsection \<open>A header map as an association list\<close>

text \<open>
  An implementation of the interface: any non-empty name of at most 65535 of the token
  characters that the crate lists (letters are lowered), any value without control characters, and a list of
  fields in the order they were added.
\<close>

definition visible_byte :: "byte \<Rightarrow> bool" where
  "visible_byte b \<longleftrightarrow> (32 \<le> unat b \<and> unat b \<noteq> 127) \<or> unat b = 9"

definition split_query :: "bytes \<Rightarrow> path_and_query" where
  "split_query bs =
     (let p = takeWhile (\<lambda>b. b \<noteq> of_char (CHR ''?'')) bs; q = drop (Suc (length p)) bs
      in \<lparr>pq_path = p, pq_query = (if length p < length bs then Some q else None)\<rparr>)"

text \<open>Absolute form, origin form and authority form.\<close>

definition split_uri :: "bytes \<Rightarrow> uri" where
  "split_uri bs =
     (case split_once (ascii ''://'') bs of
        Some (s, rest) \<Rightarrow>
          (let a = takeWhile (\<lambda>b. b \<noteq> slash \<and> b \<noteq> 63) rest; pq = split_query (drop (length a) rest)
           in \<lparr>uri_scheme = Some (map lower_byte s), uri_authority = Some a,
               uri_path = (if pq_path pq = [] then [slash] else pq_path pq), uri_query = pq_query pq\<rparr>)
      | None \<Rightarrow>
          (if hd bs = slash
           then \<lparr>uri_scheme = None, uri_authority = None, uri_path = pq_path (split_query bs), uri_query = pq_query (split_query bs)\<rparr>
           else \<lparr>uri_scheme = None, uri_authority = Some bs, uri_path = [], uri_query = None\<rparr>))"

definition alist_http :: "(bytes \<times> bytes) list http_api" where
  "alist_http =
     \<lparr>header_name = (\<lambda>bs. if bs \<noteq> [] \<and> length bs \<le> 65535 \<and> list_all token_byte bs then Some (map lower_byte bs) else None),
      header_value = (\<lambda>bs. if list_all visible_byte bs then Some bs else None),
      method_from = (\<lambda>bs. if bs \<noteq> [] \<and> list_all token_byte bs then Some bs else None),
      scheme_from = (\<lambda>bs. if bs \<noteq> [] \<and> list_all token_byte bs then Some bs else None),
      authority_from = (\<lambda>bs. if bs \<noteq> [] \<and> list_all visible_byte bs then Some bs else None),
      path_and_query_from = (\<lambda>bs. if list_all visible_byte bs then Some (split_query bs) else None),
      uri_from_parts = (\<lambda>s a pq. Some \<lparr>uri_scheme = Some s, uri_authority = Some a,
         uri_path = pq_path pq, uri_query = pq_query pq\<rparr>),
      status_from_u16 = (\<lambda>c. if 100 \<le> unat c \<and> unat c < 1000 then Some c else None),
      is_informational = (\<lambda>c. 100 \<le> unat c \<and> unat c < 200),
      hm_capacity = 32768,
      hm_empty = [],
      hm_append = (\<lambda>h n v. if length h < 32768 then Some (h @ [(n, v)]) else None),
      hm_iter = (\<lambda>h. h),
      hm_get = map_of,
      header_value_from_str = (\<lambda>bs. if list_all (\<lambda>b. visible_byte b \<and> unat b < 128) bs then Some bs else None),
      status_from_bytes = (\<lambda>bs. if length bs = 3 \<and> list_all is_digit bs \<and> 100 \<le> decimal bs then Some (of_nat (decimal bs)) else None),
      hm_insert = (\<lambda>h n v. if length h < 32768 then Some (filter (\<lambda>(m, w). m \<noteq> n) h @ [(n, v)]) else None),
      uri_parse = (\<lambda>bs. if bs \<noteq> [] \<and> list_all visible_byte bs then Some (split_uri bs) else None),
      uri_host = (\<lambda>u. map_option (takeWhile ((\<noteq>) colon)) (uri_authority u)),
      uri_port_u16 = (\<lambda>u. Option.bind (uri_authority u) (\<lambda>a. Option.bind (split_once [colon] a) (parse_u16 \<circ> snd))),
      uri_path_and_query = (\<lambda>u. if uri_scheme u = None \<and> uri_authority u \<noteq> None then None
         else Some (uri_path u @ (case uri_query u of None \<Rightarrow> [] | Some q \<Rightarrow> 63 # q)))\<rparr>"

lemma lower_byte_unat:
  "65 \<le> unat b \<Longrightarrow> unat b \<le> 90 \<Longrightarrow> unat (lower_byte b) = unat b + 32"
  by (simp add: lower_byte_def unat_word_ariths)

lemma lower_byte_idem [simp]: "lower_byte (lower_byte b) = lower_byte b"
  by (cases "65 \<le> unat b \<and> unat b \<le> 90") (auto simp: lower_byte_def unat_word_ariths)

lemma token_lower: "token_byte b \<Longrightarrow> token_byte (lower_byte b)"
proof (cases "65 \<le> unat b \<and> unat b \<le> 90")
  case True
  then show ?thesis by (simp only: token_byte_def lower_byte_unat) simp
next
  case False
  then have "lower_byte b = b" unfolding lower_byte_def by (rule if_not_P)
  then show "token_byte b \<Longrightarrow> ?thesis" by simp
qed

lemma map_of_filter:
  "map_of h n = (case map snd (filter (\<lambda>(m, v). m = n) h) of [] \<Rightarrow> None | v # _ \<Rightarrow> Some v)"
  by (induction h) auto

lemma filter_insert:
  "map snd (filter (\<lambda>(m, v). m = k) (filter (\<lambda>(m, w). m \<noteq> n) h @ [(n, v)]))
     = (if k = n then [v] else map snd (filter (\<lambda>(m, v). m = k) h))"
  by (induction h) auto

interpretation alist: http_crate alist_http
proof (unfold_locales, goal_cases)
  case (2 bs n)
  then show ?case
    by (auto simp: alist_http_def list_all_iff token_lower comp_def split: if_splits)
next
  case (12 h n v h')
  then show ?case
    by (intro exI [of _ h] exI [of _ "[]"]) (auto simp: alist_http_def split: if_splits)
next
  case (15 h n v h' m)
  then show ?case
    using filter_insert [of m n h v] by (auto simp: alist_http_def hm_values_def split: if_splits)
next
  case (17 m)
  then show ?case by (auto simp: alist_http_def token_byte_def ascii_def)
qed (auto simp: alist_http_def hm_values_def list_all_iff to_ascii_lowercase_def visible_byte_def map_of_filter split: if_splits)

lemma token_ascii: "token_byte b \<Longrightarrow> unat b < 128"
  by (auto simp: token_byte_def ascii_def)

interpretation alist_names: http_names alist_http
  by unfold_locales
    (auto simp: alist_http_def is_ascii_def list_all_iff token_ascii to_ascii_lowercase_def split: if_splits)

end
