(* ===== verification/Bhttp_Decoder.thy ===== *)
theory Bhttp_Decoder
  imports Stream_Octets Http_Crate
begin

text \<open>
  The decoder of Binary HTTP messages (RFC 9292) in the crate \<^verbatim>\<open>hyper-binary\<close>:
  \<^verbatim>\<open>crates/hyper-binary/src/decoder/mod.rs\<close> and \<^verbatim>\<open>decoder/body.rs\<close>. The
  stream buffer that a decoding function owns and moves on is the threaded state; a decoded
  body is its kind together with the buffer at the point where its content starts. Loops
  whose end depends on the input are \<^theory_text>\<open>partial_function (option)\<close>s; that they end
  on every input is proved in \<^verbatim>\<open>Bhttp_Chunking\<close>.
\<close>

subsection \<open>The body (decoder/body.rs)\<close>

datatype decoded_body_kind =
    KnownLength u64
  | IndeterminateLength "u64 option"

record 'e decoded_body =
  body_kind :: decoded_body_kind
  body_buf :: "'e stream_buf"

definition known_length :: "octets_api \<Rightarrow> ('e stream_buf, decoded_body_kind, 'e) async" where
  "known_length oct =
     abind has_more_data (\<lambda>has_data.
     abind (if has_data then decode_varint_u64 oct else aret 0) (\<lambda>rem.
     aret (KnownLength rem)))"

definition indeterminate_length :: decoded_body_kind where
  "indeterminate_length = IndeterminateLength (Some 0)"

definition body_poll_read_at_most ::
  "octets_api \<Rightarrow> u64 \<Rightarrow> 'e stream_buf \<Rightarrow> (bytes, 'e) result poll \<times> u64 \<times> 'e stream_buf" where
  "body_poll_read_at_most oct rem sb =
     (case poll_read_at_most (min (unat rem) (usize_max oct)) sb of
        (Pending, sb') \<Rightarrow> (Pending, rem, sb')
      | (Ready (Inl e), sb') \<Rightarrow> (Ready (Inl e), rem, sb')
      | (Ready (Inr bytes), sb') \<Rightarrow>
          (if unat rem < length bytes
           then (Ready (Inl (Panicked ''attempt to subtract with overflow'')), rem, sb')
           else (Ready (Inr bytes), rem - of_nat (length bytes), sb')))"

text \<open>
  The common end of the match in \<^verbatim>\<open>poll_frame\<close>: it reads at most the bytes that
  remain and stores the new count with the constructor it came from.
\<close>

definition read_frame ::
  "octets_api \<Rightarrow> (u64 \<Rightarrow> decoded_body_kind) \<Rightarrow> u64 \<Rightarrow> 'e stream_buf
     \<Rightarrow> (bytes, 'e) result option poll \<times> 'e decoded_body" where
  "read_frame oct mk rem sb =
     (case body_poll_read_at_most oct rem sb of
        (Pending, rem', sb') \<Rightarrow> (Pending, \<lparr>body_kind = mk rem', body_buf = sb'\<rparr>)
      | (Ready r, rem', sb') \<Rightarrow> (Ready (Some r), \<lparr>body_kind = mk rem', body_buf = sb'\<rparr>))"

text \<open>After the length of a chunk: a length of zero ends the content.\<close>

definition chunk_frame ::
  "octets_api \<Rightarrow> u64 \<Rightarrow> 'e stream_buf \<Rightarrow> (bytes, 'e) result option poll \<times> 'e decoded_body" where
  "chunk_frame oct rem sb =
     (if rem = 0 then (Ready None, \<lparr>body_kind = IndeterminateLength None, body_buf = sb\<rparr>)
      else read_frame oct (\<lambda>n. IndeterminateLength (Some n)) rem sb)"

definition poll_frame ::
  "octets_api \<Rightarrow> 'e decoded_body \<Rightarrow> (bytes, 'e) result option poll \<times> 'e decoded_body" where
  "poll_frame oct body =
     (case body_kind body of
        KnownLength rem \<Rightarrow>
          (if rem = 0 then (Ready None, body) else read_frame oct KnownLength rem (body_buf body))
      | IndeterminateLength None \<Rightarrow> (Ready None, body)
      | IndeterminateLength (Some rem) \<Rightarrow>
          (if rem = 0
           then (case poll_has_more_data (body_buf body) of
                   (Pending, sb) \<Rightarrow> (Pending, body\<lparr>body_buf := sb\<rparr>)
                 | (Ready (Inl e), sb) \<Rightarrow> (Ready (Some (Inl e)), body\<lparr>body_buf := sb\<rparr>)
                 | (Ready (Inr has_data), sb) \<Rightarrow>
                     (if \<not> has_data then chunk_frame oct 0 sb
                      else case poll_decode_varint_u64 oct sb of
                             (Pending, sb') \<Rightarrow> (Pending, body\<lparr>body_buf := sb'\<rparr>)
                           | (Ready (Inl e), sb') \<Rightarrow> (Ready (Some (Inl e)), body\<lparr>body_buf := sb'\<rparr>)
                           | (Ready (Inr rem'), sb') \<Rightarrow> chunk_frame oct rem' sb'))
           else read_frame oct (\<lambda>n. IndeterminateLength (Some n)) rem (body_buf body)))"

definition is_end_stream :: "'e decoded_body \<Rightarrow> bool" where
  "is_end_stream body =
     (case body_kind body of
        KnownLength rem \<Rightarrow> rem = 0
      | IndeterminateLength n \<Rightarrow> n = None)"

text \<open>\<^verbatim>\<open>SizeHint::with_exact\<close> or the default hint, by its exact value.\<close>

definition size_hint_exact :: "'e decoded_body \<Rightarrow> u64 option" where
  "size_hint_exact body =
     (case body_kind body of
        KnownLength rem \<Rightarrow> Some rem
      | IndeterminateLength _ \<Rightarrow> None)"

subsection \<open>Field sections\<close>

text \<open>
  One round of the loop over a buffered known-length field section: a name, a value and the
  bytes left. The splits of the buffer panic out of range; the two length checks keep them
  in range.
\<close>

definition field_varint :: "octets_api \<Rightarrow> bytes \<Rightarrow> (nat \<times> bytes, 'e) result" where
  "field_varint oct b =
     rbind (ok_or BufferTooShort (get_varint oct b)) (\<lambda>(v, rest).
     rbind (bytes_advance (length b - length rest) b) (\<lambda>b'.
     rbind (usize_try_from oct v) (\<lambda>n. Inr (n, b'))))"

definition decode_field_line ::
  "octets_api \<Rightarrow> 'hm http_api \<Rightarrow> bytes \<Rightarrow> (bytes \<times> bytes \<times> bytes, 'e) result" where
  "decode_field_line oct api b =
     rbind (field_varint oct b) (\<lambda>(name_length, b1).
     if length b1 < name_length then Inl (invalid_data (Msg ''could not decode field name'')) else
     rbind (bytes_split_to name_length b1) (\<lambda>(name_bytes, b2).
     rbind (ok_or InvalidHeaderName (header_name api name_bytes)) (\<lambda>name.
     rbind (field_varint oct b2) (\<lambda>(value_length, b3).
     if length b3 < value_length then Inl (invalid_data (Msg ''could not decode field value'')) else
     rbind (bytes_split_to value_length b3) (\<lambda>(value_bytes, b4).
     rbind (ok_or InvalidHeaderValue (header_value api value_bytes)) (\<lambda>value.
     Inr (name, value, b4)))))))"

partial_function (option) known_field_lines ::
  "octets_api \<Rightarrow> 'hm http_api \<Rightarrow> bytes \<Rightarrow> 'hm \<Rightarrow> ('hm, 'e) result option" where
  "known_field_lines oct api b headers =
     (if b = [] then Some (Inr headers)
      else case decode_field_line oct api b of
        Inl e \<Rightarrow> Some (Inl e)
      | Inr (name, value, b') \<Rightarrow>
          (case hm_append_or_panic api headers name value of
             Inl e \<Rightarrow> Some (Inl e)
           | Inr headers' \<Rightarrow> known_field_lines oct api b' headers'))"

definition decode_known_length_field_section ::
  "octets_api \<Rightarrow> 'hm http_api \<Rightarrow> ('e stream_buf, 'hm, 'e) async" where
  "decode_known_length_field_section oct api =
     abind has_more_data (\<lambda>has_data.
     if \<not> has_data then aret (hm_empty api)
     else abind (read_with_varint_length oct) (\<lambda>b.
          aopt (known_field_lines oct api b (hm_empty api))))"

text \<open>
  One round of the loop over an indeterminate-length field section. It returns the headers
  and whether the loop goes on.
\<close>

definition indeterminate_field_line ::
  "octets_api \<Rightarrow> 'hm http_api \<Rightarrow> 'hm \<Rightarrow> ('e stream_buf, 'hm \<times> bool, 'e) async" where
  "indeterminate_field_line oct api headers =
     abind has_more_data (\<lambda>has_data.
     if \<not> has_data then aret (headers, False)
     else abind (decode_varint_usize oct) (\<lambda>name_length.
          if name_length = 0 then aret (headers, False)
          else abind (read_exact name_length) (\<lambda>name_bytes.
               abind (alift (ok_or InvalidHeaderName (header_name api name_bytes))) (\<lambda>name.
               abind (read_with_varint_length oct) (\<lambda>value_bytes.
               abind (alift (ok_or InvalidHeaderValue (header_value api value_bytes))) (\<lambda>value.
               abind (alift (hm_append_or_panic api headers name value)) (\<lambda>headers'.
               aret (headers', True))))))))"

definition decode_indeterminate_length_field_section ::
  "octets_api \<Rightarrow> 'hm http_api \<Rightarrow> ('e stream_buf, 'hm, 'e) async" where
  "decode_indeterminate_length_field_section oct api =
     aloop (indeterminate_field_line oct api) (hm_empty api)"

subsection \<open>Control data\<close>

record request_control_data =
  rc_method :: bytes
  rc_scheme :: bytes
  rc_authority :: "bytes option"
  rc_path :: path_and_query

definition decode_request_control_data ::
  "octets_api \<Rightarrow> 'hm http_api \<Rightarrow> ('e stream_buf, request_control_data, 'e) async" where
  "decode_request_control_data oct api =
     abind (read_with_varint_length oct) (\<lambda>m.
     abind (alift (ok_or InvalidMethod (method_from api m))) (\<lambda>method.
     abind (read_with_varint_length oct) (\<lambda>s.
     abind (alift (ok_or InvalidUri (scheme_from api s))) (\<lambda>scheme.
     abind (read_with_varint_length oct) (\<lambda>a.
     abind (alift (if a = [] then Inr None
                   else map_sum id Some (ok_or InvalidUri (authority_from api a)))) (\<lambda>authority.
     abind (read_with_varint_length oct) (\<lambda>p.
     abind (alift (ok_or InvalidUri (path_and_query_from api p))) (\<lambda>path.
     aret \<lparr>rc_method = method, rc_scheme = scheme, rc_authority = authority, rc_path = path\<rparr>))))))))"

text \<open>\<^verbatim>\<open>StatusCode::from_u16(u16::try_from(decode_varint_usize().await?)?)\<close>.\<close>

definition decode_status :: "octets_api \<Rightarrow> 'hm http_api \<Rightarrow> ('e stream_buf, u16, 'e) async" where
  "decode_status oct api =
     abind (decode_varint_usize oct) (\<lambda>n.
     abind (alift (if n < 2 ^ 16 then Inr (of_nat n) else Inl (invalid_data TryFromIntError))) (\<lambda>c.
     alift (ok_or InvalidStatusCode (status_from_u16 api c))))"

text \<open>One round of \<^verbatim>\<open>while status.is_informational()\<close>.\<close>

definition skip_informational ::
  "octets_api \<Rightarrow> 'hm http_api \<Rightarrow> u16 \<Rightarrow> ('e stream_buf, u16 \<times> bool, 'e) async" where
  "skip_informational oct api status =
     (if is_informational api status
      then abind (decode_known_length_field_section oct api) (\<lambda>_.
           abind (decode_status oct api) (\<lambda>status'. aret (status', True)))
      else aret (status, False))"

definition decode_response_control_data ::
  "octets_api \<Rightarrow> 'hm http_api \<Rightarrow> ('e stream_buf, u16, 'e) async" where
  "decode_response_control_data oct api =
     abind (decode_status oct api) (aloop (skip_informational oct api))"

subsection \<open>Messages\<close>

text \<open>Assembling the message from its parts.\<close>

definition mk_request ::
  "'hm http_api \<Rightarrow> request_control_data \<Rightarrow> 'hm \<Rightarrow> 'b \<Rightarrow> (('hm, 'b) request, 'e) result" where
  "mk_request api rc field_section body =
     rbind (case rc_authority rc of
              Some authority \<Rightarrow> Inr authority
            | None \<Rightarrow>
                rbind (ok_or (Msg ''no authority or host found'') (hm_get api field_section HOST)) (\<lambda>host.
                ok_or InvalidUri (authority_from api host))) (\<lambda>authority.
     rbind (ok_or InvalidUri (uri_from_parts api (rc_scheme rc) authority (rc_path rc))) (\<lambda>uri.
     Inr \<lparr>rq_method = rc_method rc, rq_uri = uri, rq_version = default_version,
          rq_headers = field_section, rq_body = body\<rparr>))"

definition mk_response :: "u16 \<Rightarrow> 'hm \<Rightarrow> 'b \<Rightarrow> ('hm, 'b) response" where
  "mk_response status field_section body =
     \<lparr>rs_version = default_version, rs_status = status, rs_headers = field_section, rs_body = body\<rparr>"

definition decode_known_length_request ::
  "octets_api \<Rightarrow> 'hm http_api \<Rightarrow> ('e stream_buf, ('hm, decoded_body_kind) request, 'e) async" where
  "decode_known_length_request oct api =
     abind (decode_request_control_data oct api) (\<lambda>rc.
     abind (decode_known_length_field_section oct api) (\<lambda>field_section.
     abind (known_length oct) (\<lambda>body.
     alift (mk_request api rc field_section body))))"

definition decode_indeterminate_length_request ::
  "octets_api \<Rightarrow> 'hm http_api \<Rightarrow> ('e stream_buf, ('hm, decoded_body_kind) request, 'e) async" where
  "decode_indeterminate_length_request oct api =
     abind (decode_request_control_data oct api) (\<lambda>rc.
     abind (decode_indeterminate_length_field_section oct api) (\<lambda>field_section.
     alift (mk_request api rc field_section indeterminate_length)))"

definition decode_known_length_response ::
  "octets_api \<Rightarrow> 'hm http_api \<Rightarrow> ('e stream_buf, ('hm, decoded_body_kind) response, 'e) async" where
  "decode_known_length_response oct api =
     abind (decode_response_control_data oct api) (\<lambda>status.
     abind (decode_known_length_field_section oct api) (\<lambda>field_section.
     abind (known_length oct) (\<lambda>body.
     aret (mk_response status field_section body))))"

definition decode_indeterminate_length_response ::
  "octets_api \<Rightarrow> 'hm http_api \<Rightarrow> ('e stream_buf, ('hm, decoded_body_kind) response, 'e) async" where
  "decode_indeterminate_length_response oct api =
     abind (decode_response_control_data oct api) (\<lambda>status.
     abind (decode_indeterminate_length_field_section oct api) (\<lambda>field_section.
     aret (mk_response status field_section indeterminate_length)))"

definition decode_request ::
  "octets_api \<Rightarrow> 'hm http_api \<Rightarrow> ('e stream_buf, ('hm, decoded_body_kind) request, 'e) async" where
  "decode_request oct api =
     abind (decode_varint_u64 oct) (\<lambda>framing_indicator.
     if framing_indicator = 0 then decode_known_length_request oct api
     else if framing_indicator = 2 then decode_indeterminate_length_request oct api
     else alift (Inl (invalid_data (Msg ''invalid framing indicator''))))"

definition decode_response ::
  "octets_api \<Rightarrow> 'hm http_api \<Rightarrow> ('e stream_buf, ('hm, decoded_body_kind) response, 'e) async" where
  "decode_response oct api =
     abind (decode_varint_u64 oct) (\<lambda>framing_indicator.
     if framing_indicator = 1 then decode_known_length_response oct api
     else if framing_indicator = 3 then decode_indeterminate_length_response oct api
     else alift (Inl (invalid_data (Msg ''invalid framing indicator''))))"

end
