(* ===== verification/Bhttp_Body.thy ===== *)
theory Bhttp_Body
  imports Bhttp_Decoder
begin

text \<open>
  What reading a decoded body to its end gives (\<^verbatim>\<open>decoder/body.rs\<close>). The relation
  \<open>delivers\<close> describes the content of a message by the bytes that follow its head; the
  frames that polling the body returns are shown to deliver exactly that, however the bytes
  arrive, and the body is shown to end.
\<close>

subsection \<open>Polling a body makes progress\<close>

definition body_polls :: "'e decoded_body \<Rightarrow> nat" where
  "body_polls b = weight (body_buf b)"

definition body_events :: "octets_api \<Rightarrow> 'e decoded_body \<Rightarrow> 'e stream" where
  "body_events oct b = events_upto (Suc (body_polls b)) (poll_frame oct) b"

subsection \<open>The content of a body\<close>

text \<open>
  \<open>delivers oct kind bs t out t'\<close>: a body of this kind, in front of the bytes
  \<open>bs\<close> that end with \<open>t\<close>, delivers the bytes \<open>out\<close> and then ends
  (\<open>t' = None\<close>) or fails.
\<close>

abbreviation (input) short_error :: "'e err option \<Rightarrow> 'e err" where
  "short_error t \<equiv> end_error ''could not accumulate more data'' t"

inductive delivers ::
  "octets_api \<Rightarrow> decoded_body_kind \<Rightarrow> bytes \<Rightarrow> 'e err option \<Rightarrow> bytes \<Rightarrow> 'e err option \<Rightarrow> bool"
  for oct :: octets_api where
  known_whole: "unat n \<le> length bs \<Longrightarrow> delivers oct (KnownLength n) bs t (take (unat n) bs) None"
| known_short: "length bs < unat n \<Longrightarrow> delivers oct (KnownLength n) bs t bs (Some (short_error t))"
| ended: "delivers oct (IndeterminateLength None) bs t [] None"
| no_terminator: "delivers oct (IndeterminateLength (Some 0)) [] t [] t"
| bad_length: "bs \<noteq> [] \<Longrightarrow> get_varint oct bs = None \<Longrightarrow>
    delivers oct (IndeterminateLength (Some 0)) bs t [] (Some (short_error t))"
| terminator: "bs \<noteq> [] \<Longrightarrow> get_varint oct bs = Some (0, rest) \<Longrightarrow>
    delivers oct (IndeterminateLength (Some 0)) bs t [] None"
| next_chunk: "bs \<noteq> [] \<Longrightarrow> get_varint oct bs = Some (n, rest) \<Longrightarrow> n \<noteq> 0 \<Longrightarrow>
    delivers oct (IndeterminateLength (Some n)) rest t out t' \<Longrightarrow>
    delivers oct (IndeterminateLength (Some 0)) bs t out t'"
| chunk_whole: "n \<noteq> 0 \<Longrightarrow> unat n \<le> length bs \<Longrightarrow>
    delivers oct (IndeterminateLength (Some 0)) (drop (unat n) bs) t out t' \<Longrightarrow>
    delivers oct (IndeterminateLength (Some n)) bs t (take (unat n) bs @ out) t'"
| chunk_short: "length bs < unat n \<Longrightarrow>
    delivers oct (IndeterminateLength (Some n)) bs t bs (Some (short_error t))"

inductive_cases delivers_known: "delivers oct (KnownLength n) bs t out t'"
inductive_cases delivers_ended: "delivers oct (IndeterminateLength None) bs t out t'"
inductive_cases delivers_chunk: "delivers oct (IndeterminateLength (Some n)) bs t out t'"
inductive_cases delivers_next: "delivers oct (IndeterminateLength (Some 0)) bs t out t'"

lemma delivers_deterministic:
  "delivers oct kind bs t out1 t1 \<Longrightarrow> delivers oct kind bs t out2 t2 \<Longrightarrow> out1 = out2 \<and> t1 = t2"
proof (induction arbitrary: out2 t2 rule: delivers.induct)
  case (chunk_whole n bs t out t')
  from chunk_whole.prems show ?case by (rule delivers_chunk) (use chunk_whole.hyps(1,2) in \<open>auto dest: chunk_whole.IH\<close>)
next
  case (next_chunk bs n rest t out t')
  from next_chunk.prems show ?case by (rule delivers_next) (use next_chunk.hyps(1-3) in \<open>auto dest: next_chunk.IH\<close>)
next
  case (chunk_short bs n t)
  from chunk_short.prems show ?case by (rule delivers_chunk) (use chunk_short.hyps in auto)
next
  case (known_whole n bs t)
  from known_whole.prems show ?case by (rule delivers_known) (use known_whole.hyps in simp_all)
next
  case (known_short bs n t)
  from known_short.prems show ?case by (rule delivers_known) (use known_short.hyps in simp_all)
next
  case (ended bs t)
  from ended.prems show ?case by (rule delivers_ended) simp_all
next
  case (no_terminator t)
  from no_terminator.prems show ?case by (rule delivers_next) simp_all
next
  case (bad_length bs t)
  from bad_length.prems show ?case by (rule delivers_next) (use bad_length.hyps in simp_all)
next
  case (terminator bs rest t)
  from terminator.prems show ?case by (rule delivers_next) (use terminator.hyps in simp_all)
qed

abbreviation body_delivers :: "octets_api \<Rightarrow> 'e decoded_body \<Rightarrow> bytes \<Rightarrow> 'e err option \<Rightarrow> bool" where
  "body_delivers oct b \<equiv> delivers oct (body_kind b) (avail (body_buf b)) (tail (body_buf b))"

text \<open>A part of a chunk, or of a body of known length, and then the rest of it.\<close>

lemma unat_minus_of_nat: "k \<le> unat (n :: u64) \<Longrightarrow> unat (n - of_nat k) = unat n - k"
  using mod_less [OF order_le_less_trans [OF _ unsigned_less], of k n]
  by (simp add: unat_sub_if_size word_size unat_of_nat)

lemma delivers_part:
  assumes "length d \<le> unat n"
  shows "delivers oct (KnownLength (n - of_nat (length d))) bs t out t' \<Longrightarrow>
           delivers oct (KnownLength n) (d @ bs) t (d @ out) t'"
    and "n \<noteq> 0 \<Longrightarrow> delivers oct (IndeterminateLength (Some (n - of_nat (length d)))) bs t out t' \<Longrightarrow>
           delivers oct (IndeterminateLength (Some n)) (d @ bs) t (d @ out) t'"
proof -
  note sub = unat_minus_of_nat [OF assms]
  assume "delivers oct (KnownLength (n - of_nat (length d))) bs t out t'"
  then show "delivers oct (KnownLength n) (d @ bs) t (d @ out) t'"
    by (rule delivers_known)
      (use known_whole [of n "d @ bs" oct t] known_short [of "d @ bs" n oct t] assms in \<open>simp_all add: sub\<close>)
next
  note sub = unat_minus_of_nat [OF assms]
  assume n: "n \<noteq> 0" and del: "delivers oct (IndeterminateLength (Some (n - of_nat (length d)))) bs t out t'"
  show "delivers oct (IndeterminateLength (Some n)) (d @ bs) t (d @ out) t'"
  proof (cases "n - of_nat (length d) = 0")
    case True
    then have "unat n = length d" using sub assms by simp
    with n del True chunk_whole [of n "d @ bs" oct t out t'] show ?thesis by simp
  next
    case False
    from del show ?thesis
    proof (rule delivers_chunk)
      fix out1
      assume "unat (n - of_nat (length d)) \<le> length bs" "out = take (unat (n - of_nat (length d))) bs @ out1"
        "delivers oct (IndeterminateLength (Some 0)) (drop (unat (n - of_nat (length d))) bs) t out1 t'"
      with n assms chunk_whole [of n "d @ bs" oct t out1 t'] show ?thesis by (simp add: sub)
    next
      assume "length bs < unat (n - of_nat (length d))" "out = bs" "t' = Some (short_error t)"
      with assms chunk_short [of "d @ bs" n oct t] show ?thesis by (simp add: sub)
    qed (use False in simp_all)
  qed
qed

subsection \<open>One poll for a frame\<close>

abbreviation frame_ok ::
  "octets_api \<Rightarrow> 'e decoded_body \<Rightarrow> (bytes, 'e) result option poll \<Rightarrow> 'e decoded_body \<Rightarrow> bool" where
  "frame_ok oct \<equiv> step_delivers (\<lambda>b. wf_buf (body_buf b)) (body_delivers oct)"

lemmas frame_ok_def = step_delivers_def

text \<open>The subtraction in \<^verbatim>\<open>poll_read_at_most\<close> cannot underflow.\<close>

lemma read_at_most_length:
  "poll_read_at_most n sb = (Ready (Inr d), sb') \<Longrightarrow> length d \<le> n"
  by (auto simp: poll_read_at_most_eq Let_def split: if_splits prod.splits poll.splits sum.splits)

lemma read_frame_unfold:
  "read_frame oct mk n sb =
     (case poll_read_at_most (min (unat n) (usize_max oct)) sb of
        (Pending, sb') \<Rightarrow> (Pending, \<lparr>body_kind = mk n, body_buf = sb'\<rparr>)
      | (Ready (Inl e), sb') \<Rightarrow> (Ready (Some (Inl e)), \<lparr>body_kind = mk n, body_buf = sb'\<rparr>)
      | (Ready (Inr d), sb') \<Rightarrow>
          (Ready (Some (Inr d)), \<lparr>body_kind = mk (n - of_nat (length d)), body_buf = sb'\<rparr>))"
  by (auto simp: read_frame_def body_poll_read_at_most_def dest: read_at_most_length
      split: prod.split poll.split sum.split)

lemma read_frame_progress:
  assumes "read_frame oct mk n sb = (p, b')" "goes_on p" "n \<noteq> 0" "0 < usize_max oct"
  shows "body_polls b' < weight sb"
proof -
  have "0 < min (unat n) (usize_max oct)" using assms by (simp add: unat_gt_0)
  from weight_read_at_most [OF this, of sb] assms(1,2) show ?thesis
    by (auto simp: read_frame_unfold body_polls_def split: prod.splits poll.splits sum.splits)
qed

lemma poll_frame_progress:
  assumes us: "0 < usize_max oct" and r: "poll_frame oct b = (p, b')" and go: "goes_on p"
  shows "body_polls b' < body_polls b"
proof -
  have chunk: "body_polls b' < weight sb" if "chunk_frame oct n sb = (p, b')" for n sb
    using that go read_frame_progress [OF _ go _ us]
    by (auto simp: chunk_frame_def split: if_splits)
  have chunk': "body_polls b' < weight (body_buf b)"
    if "chunk_frame oct n sb = (p, b')" "weight sb \<le> weight (body_buf b)" for n sb
    using chunk [OF that(1)] that(2) by simp
  have varint: "body_polls b' < weight (body_buf b)"
    if "poll_decode_varint_u64 oct sb = (Pending, sb')" "b' = b\<lparr>body_buf := sb'\<rparr>"
      "weight sb \<le> weight (body_buf b)" for sb sb'
    using weight_varint(1) [OF that(1)] that(2,3) by (simp add: body_polls_def)
  have chunk'': "body_polls b' < weight (body_buf b)"
    if "poll_decode_varint_u64 oct sb = (Ready (Inr n), sb')" "chunk_frame oct n sb' = (p, b')"
      "weight sb \<le> weight (body_buf b)" for n sb sb'
    using weight_varint(2) [OF that(1)] chunk' [OF that(2)] that(3) by simp
  have more: "body_polls (b\<lparr>body_buf := sb\<rparr>) < weight (body_buf b)"
    if "poll_has_more_data (body_buf b) = (Pending, sb)" for sb
    using weight_has_more(1) [OF that] by (simp add: body_polls_def)
  show ?thesis
    using r go
    by (auto simp: poll_frame_def body_polls_def [of b]
        dest: chunk' chunk'' varint more weight_has_more(2) read_frame_progress [OF _ go _ us]
        split: decoded_body_kind.splits option.splits if_splits prod.splits poll.splits sum.splits)
qed

lemma read_frame_ok:
  assumes "wf_buf sb" "n \<noteq> 0" "0 < usize_max oct" "read_frame oct mk n sb = (p, b')"
    and mk: "mk = KnownLength \<or> mk = (\<lambda>n. IndeterminateLength (Some n))"
  shows "frame_ok oct \<lparr>body_kind = mk n, body_buf = sb\<rparr> p b'"
proof -
  let ?k = "min (unat n) (usize_max oct)"
  have k: "0 < ?k" using assms by (simp add: unat_gt_0)
  obtain q sb' where q: "poll_read_at_most ?k sb = (q, sb')" by (cases "poll_read_at_most ?k sb")
  note res = read_at_most_result [OF k assms(1) q]
  consider "q = Pending" | e where "q = Ready (Inl e)" | d where "q = Ready (Inr d)"
    by (cases q) (metis sum.exhaust)+
  then show ?thesis
  proof cases
    case 1
    with res q assms(4) show ?thesis by (auto simp: read_frame_unfold frame_ok_def same_view_def)
  next
    case 2
    moreover have "0 < unat n" using assms(2) by (simp add: unat_gt_0)
    ultimately show ?thesis
      using res q assms(4) mk by (auto simp: read_frame_unfold frame_ok_def
          intro: known_short [of "[]", simplified] chunk_short [of "[]", simplified])
  next
    case (3 d)
    with res have d: "length d \<le> unat n" by simp
    from mk 3 res q assms(2,4) show ?thesis
      using delivers_part(1) [OF d] delivers_part(2) [OF d assms(2)]
      by (auto simp: read_frame_unfold frame_ok_def)
  qed
qed

context octets_crate
begin

lemma usize_max_pos: "0 < usize_max oct"
  using usize_at_least_32 by simp

lemma chunk_frame_ok:
  assumes "wf_buf sb" "chunk_frame oct n sb = (p, b')" "get_varint oct bs = Some (n, avail sb)"
    and b: "body_kind b = IndeterminateLength (Some 0)" "avail (body_buf b) = bs" "tail (body_buf b) = tail sb"
  shows "frame_ok oct b p b'"
proof -
  have bs: "bs \<noteq> []" using vi.get_shorter [OF assms(3)] by auto
  show ?thesis
  proof (cases "n = 0")
    case True
    with assms bs show ?thesis
      by (auto simp: chunk_frame_def frame_ok_def intro: terminator)
  next
    case False
    with assms(2) have "read_frame oct (\<lambda>n. IndeterminateLength (Some n)) n sb = (p, b')"
      by (simp add: chunk_frame_def)
    from read_frame_ok [OF assms(1) False usize_max_pos this] show ?thesis
      by (rule step_delivers_mono) (use b next_chunk [OF bs assms(3) False] in auto)
  qed
qed

lemma next_frame_ok:
  assumes wf: "wf_buf (body_buf b)" and kind: "body_kind b = IndeterminateLength (Some 0)"
    and r: "poll_frame oct b = (p, b')"
  shows "frame_ok oct b p b'"
proof -
  obtain q sb where q: "poll_has_more_data (body_buf b) = (q, sb)" by (cases "poll_has_more_data (body_buf b)")
  note res = has_more_poll_result [OF wf q]
  consider "q = Pending" | e where "q = Ready (Inl e)" | "q = Ready (Inr False)" | "q = Ready (Inr True)"
    by (cases q) (metis sum.exhaust)+
  then show ?thesis
  proof cases
    case 4
    with res have sb: "wf_buf sb" "avail sb = avail (body_buf b)" "tail sb = tail (body_buf b)"
        "avail (body_buf b) \<noteq> []"
      by (simp_all add: same_view_def)
    obtain q' sb' where q': "poll_decode_varint_u64 oct sb = (q', sb')"
      by (cases "poll_decode_varint_u64 oct sb")
    note res' = vi.poll_with_octets_view [OF refl sb(1) q' [unfolded poll_decode_varint_u64_def], unfolded sb]
    consider "q' = Pending" | e where "q' = Ready (Inl e)" | n where "q' = Ready (Inr n)"
      by (cases q') (metis sum.exhaust)+
    then show ?thesis
    proof cases
      case 1
      with 4 q q' res' r kind sb show ?thesis
        by (auto simp: poll_frame_def frame_ok_def same_view_def)
    next
      case 2
      with 4 q q' res' r kind sb show ?thesis
        by (auto simp: poll_frame_def frame_ok_def intro: bad_length)
    next
      case (3 n)
      with 4 q q' r kind have "chunk_frame oct n sb' = (p, b')" by (simp add: poll_frame_def)
      from 3 res' kind show ?thesis
        by (intro chunk_frame_ok [OF _ \<open>chunk_frame oct n sb' = (p, b')\<close>]) simp_all
    qed
  qed (use res q r kind no_terminator [of oct "tail (body_buf b)"] in
      \<open>auto simp: poll_frame_def frame_ok_def chunk_frame_def same_view_def\<close>)
qed

lemma poll_frame_ok:
  assumes wf: "wf_buf (body_buf b)" and r: "poll_frame oct b = (p, b')"
  shows "frame_ok oct b p b'"
proof (cases "body_kind b")
  case (KnownLength n)
  show ?thesis
  proof (cases "n = 0")
    case True
    with KnownLength r known_whole [of 0 "avail (body_buf b)" oct "tail (body_buf b)"] show ?thesis
      by (auto simp: poll_frame_def frame_ok_def)
  next
    case False
    with KnownLength r have "read_frame oct KnownLength n (body_buf b) = (p, b')"
      by (simp add: poll_frame_def)
    from read_frame_ok [OF wf False usize_max_pos this] show ?thesis
      by (rule step_delivers_mono) (use KnownLength in auto)
  qed
next
  case (IndeterminateLength m)
  show ?thesis
  proof (cases m)
    case None
    with IndeterminateLength r show ?thesis
      by (auto simp: poll_frame_def frame_ok_def intro: ended)
  next
    case (Some n)
    show ?thesis
    proof (cases "n = 0")
      case True
      with IndeterminateLength Some next_frame_ok [OF wf _ r] show ?thesis by simp
    next
      case False
      with IndeterminateLength Some r
      have "read_frame oct (\<lambda>n. IndeterminateLength (Some n)) n (body_buf b) = (p, b')"
        by (simp add: poll_frame_def)
      from read_frame_ok [OF wf False usize_max_pos this] show ?thesis
        by (rule step_delivers_mono) (use IndeterminateLength Some in auto)
    qed
  qed
qed

end

sublocale octets_crate \<subseteq> frames: delivering_stream "poll_frame oct" body_polls
    "\<lambda>b. wf_buf (body_buf b)" "body_delivers oct"
  by unfold_locales (rule poll_frame_progress [OF usize_max_pos], assumption+, rule poll_frame_ok)

context octets_crate
begin

text \<open>Reading the frames of a body to the end gives what the body delivers.\<close>

lemmas body_events_delivers = frames.events_deliver [folded body_events_def]

end

subsection \<open>Properties\<close>

text \<open>
  C8: reading the frames of a decoded body to the end delivers exactly the content that the
  bytes after the head describe (\<open>delivers\<close>), and ends or fails as they say, however
  the bytes arrive.
\<close>

theorem body_frames:
  assumes "octets_crate oct" "wf_buf (body_buf b)"
    and "body_delivers oct b out t"
  shows "stream_bytes (body_events oct b) = out \<and> stream_tail (body_events oct b) = t"
  using delivers_deterministic [OF octets_crate.body_events_delivers [OF assms(1,2)] assms(3)] .

theorem body_frames_witness:
  "stream_bytes (body_events (rfc9000_octets (2 ^ 64 - 1)) (\<lparr>body_kind = KnownLength 3,
      body_buf = new_stream_buf [Yield (Inr [1, 2]), Wait, Yield (Inr [3, 4])]\<rparr> :: unit decoded_body)) = [1, 2, 3]"
proof -
  let ?b = "\<lparr>body_kind = KnownLength 3,
      body_buf = new_stream_buf [Yield (Inr [1, 2]), Wait, Yield (Inr [3, 4])]\<rparr> :: unit decoded_body"
  have "body_delivers (rfc9000_octets (2 ^ 64 - 1)) ?b [1, 2, 3] None"
    using known_whole [of 3 "[1, 2, 3, 4]" "rfc9000_octets (2 ^ 64 - 1)" None]
    by (simp add: new_stream_buf_def view_defs)
  with body_frames [OF native.octets_crate_axioms, of ?b] show ?thesis
    by (simp add: new_stream_buf_def view_defs default_max_buf_size_def)
qed

end
