(* ===== verification/Bhttp_Chunking.thy ===== *)
theory Bhttp_Chunking
  imports Bhttp_Decoder
begin

text \<open>
  The decoder of \<^verbatim>\<open>Bhttp_Decoder\<close> ends on every input, and what it returns
  depends on the bytes of its input alone: not on how they are cut into chunks, nor on the
  polls at which the stream was not ready.
\<close>

subsection \<open>The loops end\<close>

context octets_crate
begin

lemma field_varint_shorter: "field_varint oct b = Inr (n, b') \<Longrightarrow> length b' < length b"
  by (auto simp: field_varint_def rbind_eq_Inr_iff ok_or_def usize_try_from_def bytes_advance_def
      split: option.splits if_splits dest: vi.get_shorter)

lemma decode_field_line_shorter:
  "decode_field_line oct api b = Inr (name, value, b') \<Longrightarrow> length b' < length b"
  by (fastforce simp: decode_field_line_def rbind_eq_Inr_iff bytes_split_to_def dest: field_varint_shorter split: if_splits)

lemma known_field_lines_total: "\<exists>r :: ('hm, 'e) result. known_field_lines oct api b headers = Some r"
proof (induction "length b" arbitrary: b headers rule: less_induct)
  case less
  show ?case
  proof (cases "b = [] \<or> (\<exists>e :: 'e err. decode_field_line oct api b = Inl e)")
    case True
    then show ?thesis by (auto simp: known_field_lines.simps [of oct api b])
  next
    case False
    then obtain name v b' where
      line: "decode_field_line oct api b = (Inr (name, v, b') :: (bytes \<times> bytes \<times> bytes, 'e) result)"
      by (cases "decode_field_line oct api b :: (bytes \<times> bytes \<times> bytes, 'e) result") auto
    with False less decode_field_line_shorter [OF line] show ?thesis
      by (auto simp: known_field_lines.simps [of oct api b] split: sum.split)
  qed
qed

lemma chunk_invariant_known_lines [chunk_inv]:
  "chunk_invariant (aopt (known_field_lines oct api b headers) :: ('e stream_buf, 'hm, 'e) async)"
proof -
  obtain r :: "('hm, 'e) result" where "known_field_lines oct api b headers = Some r"
    by (rule exE [OF known_field_lines_total])
  then show ?thesis by (simp add: chunk_inv)
qed

lemma chunk_invariant_known_section [chunk_inv]:
  "chunk_invariant (decode_known_length_field_section oct api)"
  unfolding decode_known_length_field_section_def
  by (intro chunk_inv) (auto intro!: chunk_inv)

lemma chunk_invariant_field_line:
  "chunk_invariant (indeterminate_field_line oct api headers)"
  unfolding indeterminate_field_line_def
  by (intro chunk_inv) (auto intro!: chunk_inv)

lemma field_line_consumes:
  assumes wf: "wf_buf sb"
    and r: "indeterminate_field_line oct api headers sb = Some (Inr (headers', True), s)"
  shows "length (avail s) < length (avail sb)"
proof -
  let ?line = "\<lambda>name_length. if name_length = 0 then aret (headers, False)
          else abind (read_exact name_length) (\<lambda>name_bytes.
               abind (alift (ok_or InvalidHeaderName (header_name api name_bytes))) (\<lambda>name.
               abind (read_with_varint_length oct) (\<lambda>value_bytes.
               abind (alift (ok_or InvalidHeaderValue (header_value api value_bytes))) (\<lambda>value.
               abind (alift (hm_append_or_panic api headers name value)) (\<lambda>headers'.
               aret (headers', True))))))"
  have "chunk_invariant (?line n)" for n by (auto intro!: chunk_inv)
  then have c: "consumes (abind (decode_varint_usize oct) ?line)"
    by (intro consumes_abind1 consumes_varint_usize chunk_inv)
  from r obtain d s' where m: "has_more_data sb = Some (Inr d, s')"
    "(if \<not> d then aret (headers, False) else abind (decode_varint_usize oct) ?line) s'
       = Some (Inr (headers', True), s)"
    by (auto simp: indeterminate_field_line_def abind_def [of has_more_data]
        split: Option.bind_splits sum.splits)
  with chunk_invariant_shrinks [OF chunk_invariant_has_more_data wf m(1)] c show ?thesis
    by (cases d) (fastforce simp: consumes_def)+
qed

lemma chunk_invariant_indeterminate_section [chunk_inv]:
  "chunk_invariant (decode_indeterminate_length_field_section oct api)"
  unfolding decode_indeterminate_length_field_section_def
  by (rule chunk_invariant_aloop [OF chunk_invariant_field_line field_line_consumes])

lemma chunk_invariant_status [chunk_inv]: "chunk_invariant (decode_status oct api)"
  unfolding decode_status_def by (intro chunk_inv)

lemma consumes_status: "consumes (decode_status oct api)"
  unfolding decode_status_def by (intro consumes_abind1 consumes_varint_usize chunk_inv)

lemma chunk_invariant_skip: "chunk_invariant (skip_informational oct api status)"
  unfolding skip_informational_def by (auto intro!: chunk_inv)

lemma skip_consumes:
  assumes "wf_buf sb" and r: "skip_informational oct api status sb = Some (Inr (status', True), s)"
  shows "length (avail s) < length (avail sb)"
proof -
  have "consumes (abind (decode_known_length_field_section oct api) (\<lambda>_.
           abind (decode_status oct api) (\<lambda>status'. aret (status', True))))"
    by (intro consumes_abind2 consumes_abind1 consumes_status chunk_inv)
  with assms show ?thesis
    by (auto simp: skip_informational_def consumes_def split: if_splits)
qed

lemma chunk_invariant_response_control [chunk_inv]:
  "chunk_invariant (decode_response_control_data oct api)"
  unfolding decode_response_control_data_def
  by (intro chunk_inv chunk_invariant_aloop [OF chunk_invariant_skip skip_consumes])

lemma chunk_invariant_request_control [chunk_inv]:
  "chunk_invariant (decode_request_control_data oct api)"
  unfolding decode_request_control_data_def by (intro chunk_inv)

lemma chunk_invariant_known_length [chunk_inv]: "chunk_invariant (known_length oct)"
  unfolding known_length_def by (intro chunk_inv) (auto intro: chunk_inv)

lemma chunk_invariant_messages [chunk_inv]:
  "chunk_invariant (decode_known_length_request oct api)"
  "chunk_invariant (decode_indeterminate_length_request oct api)"
  "chunk_invariant (decode_known_length_response oct api)"
  "chunk_invariant (decode_indeterminate_length_response oct api)"
  unfolding decode_known_length_request_def decode_indeterminate_length_request_def
    decode_known_length_response_def decode_indeterminate_length_response_def
  by (intro chunk_inv)+

lemma chunk_invariant_decode_request: "chunk_invariant (decode_request oct api)"
  unfolding decode_request_def by (intro chunk_inv) (auto intro: chunk_inv)

lemma chunk_invariant_decode_response: "chunk_invariant (decode_response oct api)"
  unfolding decode_response_def by (intro chunk_inv) (auto intro: chunk_inv)

end

subsection \<open>Properties\<close>

text \<open>
  C11: decoding a request ends on every input, and its result depends only on the bytes of
  the input and on how the stream ends: any two chunkings of the same bytes give the same
  error, or the same request and buffers with the same content to come.
\<close>

theorem decode_request_chunking:
  assumes "octets_crate oct" "wf_buf sb1" "wf_buf sb2" "same_view sb1 sb2"
  shows "same_outcome (decode_request oct api sb1) (decode_request oct api sb2)"
  using chunk_invariantD [OF octets_crate.chunk_invariant_decode_request [OF assms(1)] assms(2-4)] .

theorem decode_request_chunking_witness:
  "same_outcome
     (decode_request (rfc9000_octets (2 ^ 64 - 1)) alist_http (stream_buf_from [2, 3, 71] :: unit stream_buf))
     (decode_request (rfc9000_octets (2 ^ 64 - 1)) alist_http
        (new_stream_buf [Wait, Yield (Inr [2, 3]), Wait, Yield (Inr [71])]))"
  by (rule decode_request_chunking [OF native.octets_crate_axioms])
    (simp_all add: new_stream_buf_def stream_buf_from_def view_defs default_max_buf_size_def)

text \<open>
  C12: decoding a response ends on every input, also when it skips any number of
  informational responses, and its result does not depend on the chunking.
\<close>

theorem decode_response_chunking:
  assumes "octets_crate oct" "wf_buf sb1" "wf_buf sb2" "same_view sb1 sb2"
  shows "same_outcome (decode_response oct api sb1) (decode_response oct api sb2)"
  using chunk_invariantD [OF octets_crate.chunk_invariant_decode_response [OF assms(1)] assms(2-4)] .

theorem decode_response_chunking_witness:
  "same_outcome
     (decode_response (rfc9000_octets (2 ^ 32 - 1)) alist_http (stream_buf_from [1, 64, 200, 0, 0] :: unit stream_buf))
     (decode_response (rfc9000_octets (2 ^ 32 - 1)) alist_http
        (new_stream_buf [Yield (Inr [1, 64]), Wait, Yield (Inr [200, 0]), Yield (Inr [0])]))"
  by (rule decode_response_chunking [OF wasm32.octets_crate_axioms])
    (simp_all add: new_stream_buf_def stream_buf_from_def view_defs default_max_buf_size_def)

end
