(* ===== verification/Bhttp_Encoder.thy ===== *)
theory Bhttp_Encoder
  imports Stream_Octets Http_Crate
begin

text \<open>
  The encoder of Binary HTTP messages in the crate \<^verbatim>\<open>hyper-binary\<close>:
  \<^verbatim>\<open>crates/hyper-binary/src/encoder/mod.rs\<close>. The length functions and the writing
  functions are kept apart as in the source, so that the claim of its comments, that the
  buffer has exactly the length of what is put into it and no \<^verbatim>\<open>unwrap\<close> panics,
  is a theorem. An encoded message is the state machine that its
  \<^verbatim>\<open>Stream\<close> implementation polls.
\<close>

subsection \<open>Lengths\<close>

text \<open>\<^verbatim>\<open>octets::varint_len(n as u64)\<close> of a length.\<close>

abbreviation len_varint_len :: "octets_api \<Rightarrow> nat \<Rightarrow> nat" where
  "len_varint_len oct n \<equiv> varint_len oct (of_nat n)"

definition field_lines_len :: "octets_api \<Rightarrow> 'hm http_api \<Rightarrow> 'hm \<Rightarrow> nat" where
  "field_lines_len oct api headers =
     sum_list (map (\<lambda>(name, value).
        len_varint_len oct (length name) + length name
        + len_varint_len oct (length value) + length value) (hm_iter api headers))"

definition request_control_data_len ::
  "octets_api \<Rightarrow> ('hm, 'b) request \<Rightarrow> bytes \<Rightarrow> bytes \<Rightarrow> nat" where
  "request_control_data_len oct parts scheme authority =
     len_varint_len oct (length (rq_method parts)) + length (rq_method parts)
     + len_varint_len oct (length scheme) + length scheme
     + len_varint_len oct (length authority) + length authority
     + (case uri_query (rq_uri parts) of
          Some query \<Rightarrow>
            (let path_and_query_len = length (uri_path (rq_uri parts)) + length (ascii ''?'') + length query
             in len_varint_len oct path_and_query_len + path_and_query_len)
        | None \<Rightarrow>
            len_varint_len oct (length (uri_path (rq_uri parts))) + length (uri_path (rq_uri parts)))"

subsection \<open>Writing\<close>

definition put_field_lines :: "octets_api \<Rightarrow> 'hm http_api \<Rightarrow> 'hm \<Rightarrow> om_writer" where
  "put_field_lines oct api headers =
     put_all (map (\<lambda>(name, value). put_all
        [put_varint oct (of_nat (length name)), put_bytes oct name,
         put_varint oct (of_nat (length value)), put_bytes oct value]) (hm_iter api headers))"

definition put_request_control_data ::
  "octets_api \<Rightarrow> ('hm, 'b) request \<Rightarrow> bytes \<Rightarrow> bytes \<Rightarrow> om_writer" where
  "put_request_control_data oct parts scheme authority =
     put_all
       [put_varint oct (of_nat (length (rq_method parts))), put_bytes oct (rq_method parts),
        put_varint oct (of_nat (length scheme)), put_bytes oct scheme,
        put_varint oct (of_nat (length authority)), put_bytes oct authority,
        (case uri_query (rq_uri parts) of
           Some query \<Rightarrow>
             (let path_and_query = [uri_path (rq_uri parts), ascii ''?'', query]
              in put_all (put_varint oct (of_nat (sum_list (map length path_and_query)))
                          # map (put_bytes oct) path_and_query))
         | None \<Rightarrow> put_all
             [put_varint oct (of_nat (length (uri_path (rq_uri parts)))),
              put_bytes oct (uri_path (rq_uri parts))])]"

definition put_request_parts ::
  "octets_api \<Rightarrow> 'hm http_api \<Rightarrow> ('hm, 'b) request \<Rightarrow> bytes \<Rightarrow> bytes \<Rightarrow> om_writer" where
  "put_request_parts oct api parts scheme authority =
     put_all
       [put_varint oct 2,
        put_request_control_data oct parts scheme authority,
        put_field_lines oct api (rq_headers parts),
        put_varint oct 0]"

definition put_known_length_response_parts ::
  "octets_api \<Rightarrow> 'hm http_api \<Rightarrow> ('hm, 'b) response \<Rightarrow> om_writer" where
  "put_known_length_response_parts oct api parts =
     put_all
       [put_varint oct 1,
        put_varint oct (ucast (rs_status parts)),
        put_varint oct (of_nat (field_lines_len oct api (rs_headers parts))),
        put_field_lines oct api (rs_headers parts)]"

definition put_indeterminate_length_response_parts ::
  "octets_api \<Rightarrow> 'hm http_api \<Rightarrow> ('hm, 'b) response \<Rightarrow> om_writer" where
  "put_indeterminate_length_response_parts oct api parts =
     put_all
       [put_varint oct 3,
        put_varint oct (ucast (rs_status parts)),
        put_field_lines oct api (rs_headers parts),
        put_varint oct 0]"

subsection \<open>The initial chunk\<close>

text \<open>The authority that is written: none when the \<^verbatim>\<open>Host\<close> header already carries it.\<close>

definition request_authority :: "'hm http_api \<Rightarrow> ('hm, 'b) request \<Rightarrow> bytes" where
  "request_authority api parts =
     (case uri_authority (rq_uri parts) of
        None \<Rightarrow> []
      | Some authority \<Rightarrow>
          (case hm_get api (rq_headers parts) HOST of
             None \<Rightarrow> authority
           | Some host \<Rightarrow> if host \<noteq> authority then authority else []))"

text \<open>The computed length of the initial chunk of a request.\<close>

definition initial_request_chunk_len ::
  "octets_api \<Rightarrow> 'hm http_api \<Rightarrow> ('hm, 'b) request \<Rightarrow> bytes \<Rightarrow> bytes \<Rightarrow> nat" where
  "initial_request_chunk_len oct api parts scheme authority =
     varint_len oct 2
     + request_control_data_len oct parts scheme authority
     + field_lines_len oct api (rq_headers parts)
     + varint_len oct 0"

definition initial_indeterminate_length_request_chunk ::
  "octets_api \<Rightarrow> 'hm http_api \<Rightarrow> ('hm, 'b) request \<Rightarrow> (bytes, 'e) result" where
  "initial_indeterminate_length_request_chunk oct api parts =
     rbind (ok_or (Msg ''request has no scheme'') (uri_scheme (rq_uri parts))) (\<lambda>scheme.
       let authority = request_authority api parts;
           initial_chunk_len = initial_request_chunk_len oct api parts scheme authority
       in rbind (unwrap_write (put_request_parts oct api parts scheme authority (om_zeroed initial_chunk_len)))
            (\<lambda>om. Inr (take (om_off om) (om_buf om))))"

definition initial_indeterminate_length_response_chunk ::
  "octets_api \<Rightarrow> 'hm http_api \<Rightarrow> ('hm, 'b) response \<Rightarrow> (bytes, 'e) result" where
  "initial_indeterminate_length_response_chunk oct api parts =
     (let initial_chunk_len = varint_len oct 3
            + varint_len oct (ucast (rs_status parts))
            + field_lines_len oct api (rs_headers parts)
            + varint_len oct 0
      in rbind (unwrap_write (put_indeterminate_length_response_parts oct api parts (om_zeroed initial_chunk_len)))
           (\<lambda>om. rbind (debug_assert_eq initial_chunk_len (om_off om)) (\<lambda>_. Inr (om_buf om))))"

definition initial_known_length_response_chunk ::
  "octets_api \<Rightarrow> 'hm http_api \<Rightarrow> ('hm, 'b) response \<Rightarrow> u64 \<Rightarrow> (bytes, 'e) result" where
  "initial_known_length_response_chunk oct api parts content_size =
     (let field_line_len = field_lines_len oct api (rs_headers parts);
          initial_chunk_len = varint_len oct 1
            + varint_len oct (ucast (rs_status parts))
            + len_varint_len oct field_line_len
            + field_line_len
            + varint_len oct content_size
      in rbind (unwrap_write (put_known_length_response_parts oct api parts (om_zeroed initial_chunk_len)))
           (\<lambda>om. rbind (unwrap_write (put_varint oct content_size om)) (\<lambda>om'.
            rbind (debug_assert_eq initial_chunk_len (om_off om')) (\<lambda>_. Inr (om_buf om')))))"

subsection \<open>Encoded messages\<close>

text \<open>
  A body is the data stream that \<^verbatim>\<open>BodyDataStream\<close> makes of it and the exact value
  of its size hint.
\<close>

record 'e body =
  bd_size_hint :: "u64 option"
  bd_data :: "'e stream"

datatype encoded_message_kind = EncodedIndeterminateLength | EncodedKnownLength

record 'e encoded_message =
  em_kind :: encoded_message_kind
  initial_chunk :: "bytes option"
  em_body :: "'e stream"
  end_of_content :: bool

definition encode_request ::
  "octets_api \<Rightarrow> 'hm http_api \<Rightarrow> ('hm, 'e body) request \<Rightarrow> ('e encoded_message, 'e) result" where
  "encode_request oct api req =
     rbind (initial_indeterminate_length_request_chunk oct api req) (\<lambda>c.
     Inr \<lparr>em_kind = EncodedIndeterminateLength, initial_chunk = Some c,
          em_body = bd_data (rq_body req), end_of_content = False\<rparr>)"

definition encode_response ::
  "octets_api \<Rightarrow> 'hm http_api \<Rightarrow> ('hm, 'e body) response \<Rightarrow> ('e encoded_message, 'e) result" where
  "encode_response oct api res =
     rbind (case bd_size_hint (rs_body res) of
              Some content_size \<Rightarrow> map_sum id (Pair EncodedKnownLength)
                (initial_known_length_response_chunk oct api res content_size)
            | None \<Rightarrow> map_sum id (Pair EncodedIndeterminateLength)
                (initial_indeterminate_length_response_chunk oct api res)) (\<lambda>(kind, c).
     Inr \<lparr>em_kind = kind, initial_chunk = Some c,
          em_body = bd_data (rs_body res), end_of_content = False\<rparr>)"

text \<open>The encoding of one content chunk of an indeterminate-length message.\<close>

definition encode_content_chunk :: "octets_api \<Rightarrow> bytes \<Rightarrow> (bytes, 'e) result" where
  "encode_content_chunk oct data =
     (if data = [] then Inr data
      else let encoded_chunk_len = len_varint_len oct (length data)
           in rbind (unwrap_write (put_varint oct (of_nat (length data)) (om_zeroed encoded_chunk_len)))
                (\<lambda>om. rbind (debug_assert_eq encoded_chunk_len (om_off om))
                   (\<lambda>_. Inr (om_buf om @ data))))"

definition encoded_poll_next ::
  "octets_api \<Rightarrow> 'e encoded_message \<Rightarrow> (bytes, 'e) result option poll \<times> 'e encoded_message" where
  "encoded_poll_next oct m =
     (if end_of_content m then (Ready None, m)
      else case initial_chunk m of
        Some c \<Rightarrow> (Ready (Some (Inr c)), m\<lparr>initial_chunk := None\<rparr>)
      | None \<Rightarrow>
          (case stream_poll_next (em_body m) of
             (Pending, st) \<Rightarrow> (Pending, m\<lparr>em_body := st\<rparr>)
           | (Ready (Some (Inl e)), st) \<Rightarrow> (Ready (Some (Inl e)), m\<lparr>em_body := st\<rparr>)
           | (Ready None, st) \<Rightarrow>
               ((case em_kind m of
                   EncodedIndeterminateLength \<Rightarrow> Ready (Some (Inr [0]))
                 | EncodedKnownLength \<Rightarrow> Ready None),
                m\<lparr>em_body := st, end_of_content := True\<rparr>)
           | (Ready (Some (Inr c)), st) \<Rightarrow>
               (Ready (Some (case em_kind m of
                   EncodedKnownLength \<Rightarrow> Inr c
                 | EncodedIndeterminateLength \<Rightarrow> encode_content_chunk oct c)),
                m\<lparr>em_body := st\<rparr>)))"

subsection \<open>The format\<close>

text \<open>
  The encodings of RFC 9292, as byte strings: a length-prefixed string, field lines, and the
  head of each kind of message.
\<close>

definition lp :: "octets_api \<Rightarrow> bytes \<Rightarrow> bytes" where
  "lp oct bs = varint_bytes oct (of_nat (length bs)) @ bs"

definition field_line_bytes :: "octets_api \<Rightarrow> bytes \<times> bytes \<Rightarrow> bytes" where
  "field_line_bytes oct f = lp oct (fst f) @ lp oct (snd f)"

definition field_lines_bytes :: "octets_api \<Rightarrow> (bytes \<times> bytes) list \<Rightarrow> bytes" where
  "field_lines_bytes oct fs = concat (map (field_line_bytes oct) fs)"

definition path_bytes :: "uri \<Rightarrow> bytes" where
  "path_bytes u = uri_path u @ (case uri_query u of None \<Rightarrow> [] | Some q \<Rightarrow> ascii ''?'' @ q)"

definition request_head_bytes ::
  "octets_api \<Rightarrow> 'hm http_api \<Rightarrow> ('hm, 'b) request \<Rightarrow> bytes \<Rightarrow> bytes" where
  "request_head_bytes oct api req scheme =
     varint_bytes oct 2
     @ lp oct (rq_method req) @ lp oct scheme @ lp oct (request_authority api req)
     @ lp oct (path_bytes (rq_uri req))
     @ field_lines_bytes oct (hm_iter api (rq_headers req)) @ varint_bytes oct 0"

definition known_response_head_bytes ::
  "octets_api \<Rightarrow> 'hm http_api \<Rightarrow> ('hm, 'b) response \<Rightarrow> u64 \<Rightarrow> bytes" where
  "known_response_head_bytes oct api res n =
     varint_bytes oct 1 @ varint_bytes oct (ucast (rs_status res))
     @ lp oct (field_lines_bytes oct (hm_iter api (rs_headers res))) @ varint_bytes oct n"

definition indeterminate_response_head_bytes ::
  "octets_api \<Rightarrow> 'hm http_api \<Rightarrow> ('hm, 'b) response \<Rightarrow> bytes" where
  "indeterminate_response_head_bytes oct api res =
     varint_bytes oct 3 @ varint_bytes oct (ucast (rs_status res))
     @ field_lines_bytes oct (hm_iter api (rs_headers res)) @ varint_bytes oct 0"

text \<open>The lengths that a buffer can have and that have a variable-length encoding.\<close>

definition fits :: "octets_api \<Rightarrow> bytes \<Rightarrow> bool" where
  "fits oct bs \<longleftrightarrow> length bs \<le> usize_max oct \<and> length bs < 2 ^ 62"

definition fields_fit :: "octets_api \<Rightarrow> (bytes \<times> bytes) list \<Rightarrow> bool" where
  "fields_fit oct fs \<longleftrightarrow> list_all (\<lambda>(n, v). fits oct n \<and> fits oct v) fs \<and> fits oct (field_lines_bytes oct fs)"

definition request_fits :: "octets_api \<Rightarrow> 'hm http_api \<Rightarrow> ('hm, 'b) request \<Rightarrow> bool" where
  "request_fits oct api req \<longleftrightarrow> fits oct (rq_method req) \<and> fits oct (request_authority api req)
     \<and> (case uri_scheme (rq_uri req) of None \<Rightarrow> True | Some s \<Rightarrow> fits oct s)
     \<and> fits oct (path_bytes (rq_uri req)) \<and> fields_fit oct (hm_iter api (rq_headers req))"

lemma fits_varint_ok: "fits oct bs \<Longrightarrow> varint_ok (of_nat (length bs))"
  by (simp add: fits_def varint_ok_def unat_of_nat)

lemma fits_unat: "fits oct bs \<Longrightarrow> unat (of_nat (length bs) :: u64) = length bs"
  by (simp add: fits_def unat_of_nat)

lemma varint_ok_small [simp]:
  "varint_ok 0" "varint_ok 1" "varint_ok 2" "varint_ok 3"
  by (simp_all add: varint_ok_def)

lemma varint_ok_status [simp]: "varint_ok (ucast (c :: u16))"
proof -
  have "unat (ucast c :: u64) = unat c" by (simp add: unsigned_ucast_eq take_bit_nat_eq_self unsigned_less
        [THEN less_le_trans])
  with unsigned_less [of c, where ?'a = nat] show ?thesis by (simp add: varint_ok_def)
qed

context octets_crate
begin

lemma writes_lp: "fits oct bs \<Longrightarrow> writes (put_all [put_varint oct (of_nat (length bs)), put_bytes oct bs]) (lp oct bs)"
  unfolding lp_def
  using writes_Cons [OF writes_put_varint writes_Cons [OF writes_put_bytes writes_Nil]]
  by (simp add: fits_varint_ok)

lemma length_lp: "fits oct bs \<Longrightarrow> length (lp oct bs) = len_varint_len oct (length bs) + length bs"
  by (simp add: lp_def fits_varint_ok)

lemma writes_two_lp:
  assumes "fits oct a" and "fits oct b"
  shows "writes (put_all [put_varint oct (of_nat (length a)), put_bytes oct a,
      put_varint oct (of_nat (length b)), put_bytes oct b]) (lp oct a @ lp oct b)"
proof -
  have "writes (put_all [put_varint oct (of_nat (length a)), put_bytes oct a,
      put_varint oct (of_nat (length b)), put_bytes oct b])
      (concat [varint_bytes oct (of_nat (length a)), a, varint_bytes oct (of_nat (length b)), b])"
    using assms by (intro writes_put_all) (simp add: writes_put_varint writes_put_bytes fits_varint_ok)
  then show ?thesis by (simp add: lp_def)
qed

lemma writes_put_field_lines:
  assumes "fields_fit oct (hm_iter api headers)"
  shows "writes (put_field_lines oct api headers) (field_lines_bytes oct (hm_iter api headers))"
  unfolding put_field_lines_def field_lines_bytes_def
proof (rule writes_put_all_map, clarify)
  fix n v
  assume "(n, v) \<in> set (hm_iter api headers)"
  with assms have "fits oct n" "fits oct v" by (auto simp: fields_fit_def list_all_iff)
  then show "writes (put_all [put_varint oct (of_nat (length n)), put_bytes oct n,
      put_varint oct (of_nat (length v)), put_bytes oct v]) (field_line_bytes oct (n, v))"
    unfolding field_line_bytes_def fst_conv snd_conv by (rule writes_two_lp)
qed

lemma length_field_lines_aux:
  "list_all (\<lambda>(n, v). fits oct n \<and> fits oct v) fs \<Longrightarrow> length (field_lines_bytes oct fs) =
    sum_list (map (\<lambda>(name, value).
        len_varint_len oct (length name) + length name
        + len_varint_len oct (length value) + length value) fs)"
  by (induction fs) (auto simp: field_lines_bytes_def field_line_bytes_def length_lp)

text \<open>The computed length of the field lines is the length of what is written.\<close>

lemma length_field_lines:
  "fields_fit oct (hm_iter api headers) \<Longrightarrow>
   length (field_lines_bytes oct (hm_iter api headers)) = field_lines_len oct api headers"
  by (simp add: fields_fit_def length_field_lines_aux field_lines_len_def)


lemma writes_path:
  assumes "fits oct (path_bytes u)"
  shows "writes (case uri_query u of
           Some query \<Rightarrow>
             (let path_and_query = [uri_path u, ascii ''?'', query]
              in put_all (put_varint oct (of_nat (sum_list (map length path_and_query)))
                          # map (put_bytes oct) path_and_query))
         | None \<Rightarrow> put_all
             [put_varint oct (of_nat (length (uri_path u))), put_bytes oct (uri_path u)])
     (lp oct (path_bytes u))"
proof (cases "uri_query u")
  case None
  with assms writes_lp [of "uri_path u"] show ?thesis by (simp add: path_bytes_def)
next
  case (Some q)
  let ?n = "of_nat (length (path_bytes u)) :: u64"
  have len: "sum_list (map length [uri_path u, ascii ''?'', q]) = length (path_bytes u)"
    using Some by (simp add: path_bytes_def)
  have "writes (put_all (put_varint oct ?n # map (put_bytes oct) [uri_path u, ascii ''?'', q]))
      (concat [varint_bytes oct ?n, uri_path u, ascii ''?'', q])"
    using assms by (intro writes_put_all) (simp add: writes_put_varint writes_put_bytes fits_varint_ok)
  with Some show ?thesis by (simp only: len Let_def option.case) (simp add: lp_def path_bytes_def)
qed

lemma length_path:
  assumes "fits oct (path_bytes u)"
  shows "(case uri_query u of
          Some query \<Rightarrow>
            (let path_and_query_len = length (uri_path u) + length (ascii ''?'') + length query
             in len_varint_len oct path_and_query_len + path_and_query_len)
        | None \<Rightarrow> len_varint_len oct (length (uri_path u)) + length (uri_path u))
     = length (lp oct (path_bytes u))"
  using length_lp [OF assms]
  by (cases "uri_query u") (simp_all add: path_bytes_def Let_def add.assoc del: of_nat_add)

lemma writes_request_control_data:
  assumes "fits oct (rq_method req)" "fits oct scheme" "fits oct authority" "fits oct (path_bytes (rq_uri req))"
  shows "writes (put_request_control_data oct req scheme authority)
     (lp oct (rq_method req) @ lp oct scheme @ lp oct authority @ lp oct (path_bytes (rq_uri req)))"
proof -
  have "writes (put_request_control_data oct req scheme authority)
      (concat [varint_bytes oct (of_nat (length (rq_method req))), rq_method req,
        varint_bytes oct (of_nat (length scheme)), scheme,
        varint_bytes oct (of_nat (length authority)), authority, lp oct (path_bytes (rq_uri req))])"
    unfolding put_request_control_data_def
    using assms writes_path [OF assms(4)]
    by (intro writes_put_all) (simp only: list_all2_Cons list_all2_Nil writes_put_varint
        writes_put_bytes fits_varint_ok simp_thms)
  then show ?thesis by (simp add: lp_def)
qed

lemma length_request_control_data:
  assumes "fits oct (rq_method req)" "fits oct scheme" "fits oct authority" "fits oct (path_bytes (rq_uri req))"
  shows "request_control_data_len oct req scheme authority =
     length (lp oct (rq_method req) @ lp oct scheme @ lp oct authority @ lp oct (path_bytes (rq_uri req)))"
  unfolding request_control_data_len_def length_path [OF assms(4)]
  using assms by (simp add: length_lp)

text \<open>The initial chunk of each kind of message is its head; nothing panics.\<close>

text \<open>The estimate for a request is exact: the \<^verbatim>\<open>truncate\<close> that follows cuts nothing.\<close>

lemma request_chunk_len:
  assumes fit: "request_fits oct api req" and "uri_scheme (rq_uri req) = Some scheme"
  shows "initial_request_chunk_len oct api req scheme (request_authority api req)
    = length (request_head_bytes oct api req scheme)"
proof -
  from assms have fits: "fits oct (rq_method req)" "fits oct scheme" "fits oct (request_authority api req)"
      "fits oct (path_bytes (rq_uri req))" "fields_fit oct (hm_iter api (rq_headers req))"
    by (simp_all add: request_fits_def)
  show ?thesis
    unfolding initial_request_chunk_len_def length_request_control_data [OF fits(1-4)]
      length_field_lines [OF fits(5), symmetric]
    by (simp add: request_head_bytes_def)
qed

lemma request_chunk:
  assumes "uri_scheme (rq_uri req) = Some scheme" and fit: "request_fits oct api req"
  shows "initial_indeterminate_length_request_chunk oct api req = Inr (request_head_bytes oct api req scheme)"
proof -
  let ?a = "request_authority api req"
  let ?cd = "lp oct (rq_method req) @ lp oct scheme @ lp oct ?a @ lp oct (path_bytes (rq_uri req))"
  let ?fl = "field_lines_bytes oct (hm_iter api (rq_headers req))"
  from assms have fits: "fits oct (rq_method req)" "fits oct scheme" "fits oct ?a" "fits oct (path_bytes (rq_uri req))"
      "fields_fit oct (hm_iter api (rq_headers req))"
    by (simp_all add: request_fits_def)
  have "writes (put_request_parts oct api req scheme ?a) (concat [varint_bytes oct 2, ?cd, ?fl, varint_bytes oct 0])"
    unfolding put_request_parts_def
    using writes_request_control_data [OF fits(1-4)] writes_put_field_lines [OF fits(5)]
    by (intro writes_put_all) (simp only: list_all2_Cons list_all2_Nil writes_put_varint
        varint_ok_small simp_thms)
  then have "writes (put_request_parts oct api req scheme ?a) (request_head_bytes oct api req scheme)"
    by (simp add: request_head_bytes_def)
  note exact = writes_exact [OF this]
  with request_chunk_len [OF fit assms(1)] assms(1) show ?thesis
    by (simp add: initial_indeterminate_length_request_chunk_def Let_def)
qed

lemma indeterminate_response_chunk:
  assumes fit: "fields_fit oct (hm_iter api (rs_headers res))"
  shows "initial_indeterminate_length_response_chunk oct api res
     = Inr (indeterminate_response_head_bytes oct api res)"
proof -
  let ?fl = "field_lines_bytes oct (hm_iter api (rs_headers res))"
  have "writes (put_indeterminate_length_response_parts oct api res)
      (concat [varint_bytes oct 3, varint_bytes oct (ucast (rs_status res)), ?fl, varint_bytes oct 0])"
    unfolding put_indeterminate_length_response_parts_def
    using writes_put_field_lines [OF fit]
    by (intro writes_put_all) (simp only: list_all2_Cons list_all2_Nil writes_put_varint
        varint_ok_small varint_ok_status simp_thms)
  then have "writes (put_indeterminate_length_response_parts oct api res)
      (indeterminate_response_head_bytes oct api res)"
    by (simp add: indeterminate_response_head_bytes_def)
  note exact = writes_exact [OF this]
  have "varint_len oct 3 + varint_len oct (ucast (rs_status res))
      + field_lines_len oct api (rs_headers res) + varint_len oct 0
      = length (indeterminate_response_head_bytes oct api res)"
    unfolding length_field_lines [OF fit, symmetric]
    by (simp add: indeterminate_response_head_bytes_def)
  with exact show ?thesis
    by (simp add: initial_indeterminate_length_response_chunk_def Let_def)
qed

lemma known_response_chunk:
  assumes fit: "fields_fit oct (hm_iter api (rs_headers res))" and n: "varint_ok n"
  shows "initial_known_length_response_chunk oct api res n = Inr (known_response_head_bytes oct api res n)"
proof -
  let ?fl = "field_lines_bytes oct (hm_iter api (rs_headers res))"
  let ?n = "of_nat (length ?fl) :: u64"
  let ?head = "varint_bytes oct 1 @ varint_bytes oct (ucast (rs_status res)) @ varint_bytes oct ?n @ ?fl"
  from fit have fl: "fits oct ?fl" by (simp add: fields_fit_def)
  have "writes (put_known_length_response_parts oct api res)
      (concat [varint_bytes oct 1, varint_bytes oct (ucast (rs_status res)), varint_bytes oct ?n, ?fl])"
    unfolding put_known_length_response_parts_def length_field_lines [OF fit, symmetric]
    using writes_put_field_lines [OF fit] fl
    by (intro writes_put_all) (simp only: list_all2_Cons list_all2_Nil writes_put_varint
        varint_ok_small varint_ok_status fits_varint_ok simp_thms)
  then have w: "writes (put_known_length_response_parts oct api res) ?head" by simp
  define head where "head = ?head"
  have len: "varint_len oct 1 + varint_len oct (ucast (rs_status res)) + len_varint_len oct (length ?fl)
      + length ?fl + varint_len oct n = length head + varint_len oct n"
    using fl by (simp add: fits_varint_ok head_def)
  have put: "put_varint oct n \<lparr>om_buf = head @ replicate (varint_len oct n) 0, om_off = length head\<rparr>
      = Some \<lparr>om_buf = head @ varint_bytes oct n, om_off = length head + varint_len oct n\<rparr>"
    using vi.put_room [OF n] n by (simp add: om_write_def)
  have "put_known_length_response_parts oct api res (om_zeroed (length head + varint_len oct n))
      = Some \<lparr>om_buf = head @ replicate (varint_len oct n) 0, om_off = length head\<rparr>"
    using writes_zeroed [OF w [folded head_def], of "length head + varint_len oct n"] by simp
  then have "initial_known_length_response_chunk oct api res n = Inr (head @ varint_bytes oct n)"
    unfolding initial_known_length_response_chunk_def length_field_lines [OF fit, symmetric] Let_def len
    by (simp add: put)
  then show ?thesis by (simp add: head_def known_response_head_bytes_def lp_def)
qed

lemma content_chunk:
  assumes "fits oct d"
  shows "encode_content_chunk oct d = Inr (if d = [] then [] else lp oct d)"
  using writes_exact [OF writes_put_varint [OF fits_varint_ok [OF assms]] refl] assms
  by (simp add: encode_content_chunk_def Let_def lp_def fits_varint_ok)

end

subsection \<open>The stream of an encoded message\<close>

definition message_polls :: "'e encoded_message \<Rightarrow> nat" where
  "message_polls m = (if end_of_content m then 0
     else Suc (length (em_body m) + (if initial_chunk m = None then 0 else 1)))"

definition message_events :: "octets_api \<Rightarrow> 'e encoded_message \<Rightarrow> 'e stream" where
  "message_events oct m = events_upto (Suc (message_polls m)) (encoded_poll_next oct) m"

interpretation message: progressing_stream "encoded_poll_next oct" message_polls
proof
  fix m m' :: "'a encoded_message" and p
  assume "encoded_poll_next oct m = (p, m')" "goes_on p"
  then show "message_polls m' < message_polls m"
    by (cases "em_body m" rule: stream_poll_next.cases)
      (auto simp: encoded_poll_next_def message_polls_def goes_on_def
        split: if_splits option.splits sum.splits encoded_message_kind.splits)
qed

text \<open>What the content of a message becomes, by the kind of the message.\<close>

fun content_events :: "octets_api \<Rightarrow> encoded_message_kind \<Rightarrow> 'e stream \<Rightarrow> 'e stream" where
  "content_events oct kind [] =
     (case kind of EncodedIndeterminateLength \<Rightarrow> [Yield (Inr [0])] | EncodedKnownLength \<Rightarrow> [])"
| "content_events oct kind (Wait # st) = Wait # content_events oct kind st"
| "content_events oct kind (Yield (Inl e) # st) = [Yield (Inl e)]"
| "content_events oct kind (Yield (Inr d) # st) =
     Yield (Inr (case kind of EncodedKnownLength \<Rightarrow> d
                 | EncodedIndeterminateLength \<Rightarrow> if d = [] then [] else lp oct d))
     # content_events oct kind st"

definition stream_fits :: "octets_api \<Rightarrow> 'e stream \<Rightarrow> bool" where
  "stream_fits oct st \<longleftrightarrow> (\<forall>d. Yield (Inr d) \<in> set st \<longrightarrow> fits oct d)"

lemma stream_fits_simps [simp]:
  "stream_fits oct []"
  "stream_fits oct (Wait # st) = stream_fits oct st"
  "stream_fits oct (Yield (Inl e) # st) = stream_fits oct st"
  "stream_fits oct (Yield (Inr d) # st) \<longleftrightarrow> fits oct d \<and> stream_fits oct st"
  by (auto simp: stream_fits_def)

lemma message_events_ended:
  "end_of_content m \<Longrightarrow> message_events oct m = []"
  by (simp add: message_events_def encoded_poll_next_def)

context octets_crate
begin

lemma message_events_content:
  "initial_chunk m = None \<Longrightarrow> \<not> end_of_content m \<Longrightarrow> stream_fits oct (em_body m) \<Longrightarrow>
   message_events oct m = content_events oct (em_kind m) (em_body m)"
proof (induction "em_body m" arbitrary: m)
  case Nil
  then have p: "encoded_poll_next oct m =
      ((case em_kind m of EncodedIndeterminateLength \<Rightarrow> Ready (Some (Inr [0]))
        | EncodedKnownLength \<Rightarrow> Ready None), m\<lparr>em_body := [], end_of_content := True\<rparr>)"
    by (simp add: encoded_poll_next_def)
  from Nil.hyps show ?case
    unfolding message_events_def message.events_step [OF p]
    using message_events_ended [of "m\<lparr>em_body := [], end_of_content := True\<rparr>" oct]
    by (simp add: message_events_def split: encoded_message_kind.split)
next
  case (Cons e st)
  let ?m = "m\<lparr>em_body := st\<rparr>"
  have IH: "stream_fits oct st \<Longrightarrow> message_events oct ?m = content_events oct (em_kind m) st"
    using Cons.hyps(1) [of ?m] Cons.prems by simp
  note step = message.events_step [of oct m, folded message_events_def]
  show ?case
  proof (cases e rule: event_cases)
    case W
    with Cons have "encoded_poll_next oct m = (Pending, ?m)"
      using Cons.hyps(2) [symmetric] by (simp add: encoded_poll_next_def)
    from step [OF this] W IH Cons.prems Cons.hyps(2) [symmetric] show ?thesis by simp
  next
    case (E x)
    with Cons have "encoded_poll_next oct m = (Ready (Some (Inl x)), ?m)"
      using Cons.hyps(2) [symmetric] by (simp add: encoded_poll_next_def)
    from step [OF this] E Cons.hyps(2) [symmetric] show ?thesis by simp
  next
    case (D d)
    with Cons.prems(3) Cons.hyps(2) [symmetric] have "fits oct d" "stream_fits oct st" by simp_all
    with D Cons.prems have "encoded_poll_next oct m =
        (Ready (Some (Inr (case em_kind m of EncodedKnownLength \<Rightarrow> d
           | EncodedIndeterminateLength \<Rightarrow> if d = [] then [] else lp oct d))), ?m)"
      using Cons.hyps(2) [symmetric]
      by (auto simp: encoded_poll_next_def content_chunk split: encoded_message_kind.split)
    from step [OF this] D IH Cons.hyps(2) [symmetric] \<open>stream_fits oct st\<close> show ?thesis by simp
  qed
qed

text \<open>The head comes first and whole, then the content.\<close>

lemma message_events_start:
  assumes "initial_chunk m = Some c" "\<not> end_of_content m" "stream_fits oct (em_body m)"
  shows "message_events oct m = Yield (Inr c) # content_events oct (em_kind m) (em_body m)"
proof -
  have "encoded_poll_next oct m = (Ready (Some (Inr c)), m\<lparr>initial_chunk := None\<rparr>)"
    using assms by (simp add: encoded_poll_next_def)
  from message.events_step [OF this, folded message_events_def]
    message_events_content [of "m\<lparr>initial_chunk := None\<rparr>"] assms
  show ?thesis by simp
qed

end

end
