(* ===== verification/Bhttp_Roundtrip.thy ===== *)
theory Bhttp_Roundtrip
  imports Bhttp_Chunking Bhttp_Body Bhttp_Encoder
begin

text \<open>
  Decoding what the encoder wrote. A decoder that finds its whole input in the buffer is
  described by \<open>parses\<close>; chunk invariance carries the result to every way the same
  bytes can arrive.
\<close>

subsection \<open>Parsing from the buffer\<close>

context octets_crate
begin

lemma parses_lp [parses_rules]:
  "fits oct bs \<Longrightarrow> parses (read_with_varint_length oct) (lp oct bs @ rest) rest bs"
  unfolding read_with_varint_length_def lp_def append_assoc
  by (rule parses_abind [OF parses_varint_usize [OF _ _ refl] parses_read_exact])
    (simp_all add: fits_varint_ok fits_unat, simp add: fits_def)

lemma field_varint_lp:
  "fits oct bs \<Longrightarrow> field_varint oct (lp oct bs @ rest) = Inr (length bs, bs @ rest)"
  unfolding field_varint_def lp_def append_assoc
  by (simp add: get_varint_append fits_varint_ok usize_try_from_def fits_unat) (simp add: fits_def)

lemma varint_bytes_nonempty: "varint_ok v \<Longrightarrow> varint_bytes oct v \<noteq> []"
  using length_encodings(3) [of v] vi.get_shorter [OF get_varint_append, of v "[]"]
  by (auto simp del: length_encodings)

end

subsection \<open>Header fields\<close>

text \<open>The fields of a header map are what the parsers of names and values accept.\<close>

definition valid_fields :: "octets_api \<Rightarrow> 'hm http_api \<Rightarrow> (bytes \<times> bytes) list \<Rightarrow> bool" where
  "valid_fields oct api fs \<longleftrightarrow> fields_fit oct fs
     \<and> list_all (\<lambda>(n, v). header_name api n = Some n \<and> header_value api v = Some v) fs
     \<and> length fs \<le> hm_capacity api"

primrec append_all :: "'hm http_api \<Rightarrow> (bytes \<times> bytes) list \<Rightarrow> 'hm \<Rightarrow> 'hm option" where
  "append_all api [] h = Some h"
| "append_all api (f # fs) h = Option.bind (hm_append api h (fst f) (snd f)) (append_all api fs)"

context http_crate
begin

lemma append_all_values:
  "length (hm_iter api h) + length fs \<le> hm_capacity api \<Longrightarrow>
   \<exists>h'. append_all api fs h = Some h'
     \<and> (\<forall>n. hm_values api h' n = hm_values api h n @ map snd (filter (\<lambda>(m, v). m = n) fs))"
proof (induction fs arbitrary: h)
  case Nil
  then show ?case by simp
next
  case (Cons f fs)
  then have "length (hm_iter api h) < hm_capacity api" by simp
  then obtain h1 where h1: "hm_append api h (fst f) (snd f) = Some h1"
    using append_room by fast
  have "length (hm_iter api h1) + length fs \<le> hm_capacity api"
    using Cons.prems length_iter_append [OF h1] by simp
  from Cons.IH [OF this] h1 values_append [OF h1] show ?case by (auto split: prod.splits)
qed

text \<open>Rebuilding a header map from its fields keeps the values of every name.\<close>

lemma append_all_iter:
  assumes "length (hm_iter api h) \<le> hm_capacity api"
  obtains h' where "append_all api (hm_iter api h) (hm_empty api) = Some h'"
    and "\<And>n. hm_values api h' n = hm_values api h n"
proof -
  from assms obtain h' where "append_all api (hm_iter api h) (hm_empty api) = Some h'"
    "\<forall>n. hm_values api h' n = map snd (filter (\<lambda>(m, v). m = n) (hm_iter api h))"
    using append_all_values [of "hm_empty api" "hm_iter api h"] by (auto simp: iter_empty)
  with that show thesis by (simp add: hm_values_def [of api h])
qed

end

context octets_crate
begin

lemma field_line_lp:
  assumes "fits oct n" "fits oct v" "header_name api n = Some n" "header_value api v = Some v"
  shows "decode_field_line oct api (field_line_bytes oct (n, v) @ rest) = Inr (n, v, rest)"
  using assms by (simp add: decode_field_line_def field_line_bytes_def field_varint_lp)

lemma known_field_lines_bytes:
  "list_all (\<lambda>(n, v). fits oct n \<and> fits oct v) fs \<Longrightarrow>
   list_all (\<lambda>(n, v). header_name api n = Some n \<and> header_value api v = Some v) fs \<Longrightarrow>
   append_all api fs h = Some h' \<Longrightarrow>
   known_field_lines oct api (field_lines_bytes oct fs) h = Some (Inr h')"
proof (induction fs arbitrary: h)
  case Nil
  then show ?case by (simp add: known_field_lines.simps field_lines_bytes_def)
next
  case (Cons f fs)
  obtain n v where f: "f = (n, v)" by (cases f)
  from Cons.prems(3) f obtain h1 where h1: "hm_append api h n v = Some h1" "append_all api fs h1 = Some h'"
    by (auto simp: bind_eq_Some_conv)
  have bytes: "field_lines_bytes oct (f # fs) = field_line_bytes oct (n, v) @ field_lines_bytes oct fs"
    using f by (simp add: field_lines_bytes_def)
  have ne: "field_line_bytes oct (n, v) \<noteq> []"
    using varint_bytes_nonempty Cons.prems(1) f
    by (simp add: field_line_bytes_def lp_def fits_varint_ok)
  from Cons.prems f have line: "decode_field_line oct api (field_line_bytes oct (n, v) @ field_lines_bytes oct fs)
      = (Inr (n, v, field_lines_bytes oct fs) :: (_, 'b) result)"
    by (intro field_line_lp) simp_all
  from Cons.IH [OF _ _ h1(2)] Cons.prems ne f h1(1) show ?case
    unfolding bytes by (subst known_field_lines.simps) (simp add: line hm_append_or_panic_def)
qed


lemma parses_known_section [parses_rules]:
  assumes "valid_fields oct api fs" "append_all api fs (hm_empty api) = Some h"
  shows "parses (decode_known_length_field_section oct api) (lp oct (field_lines_bytes oct fs) @ rest) rest h"
proof -
  from assms(1) have fit: "fits oct (field_lines_bytes oct fs)"
    by (simp add: valid_fields_def fields_fit_def)
  then have "lp oct (field_lines_bytes oct fs) \<noteq> []"
    by (simp add: lp_def varint_bytes_nonempty fits_varint_ok)
  with assms show ?thesis
    unfolding decode_known_length_field_section_def
    by (auto intro!: parses_abind [OF parses_has_more_data] parses_abind [OF parses_lp [OF fit]]
        parses_aopt known_field_lines_bytes simp: valid_fields_def fields_fit_def)
qed

text \<open>One field line of an indeterminate-length section, and its terminator.\<close>

lemma parses_field_line:
  assumes "fits oct n" "fits oct v" "header_name api n = Some n" "header_value api v = Some v"
    and "n \<noteq> []" "hm_append api h n v = Some h'"
  shows "parses (indeterminate_field_line oct api h) (field_line_bytes oct (n, v) @ rest) rest (h', True)"
proof -
  have n: "varint_ok (of_nat (length n))" "unat (of_nat (length n) :: u64) = length n" "length n \<le> usize_max oct"
    using assms(1) by (simp_all add: fits_varint_ok fits_unat) (simp add: fits_def)
  have "parses (indeterminate_field_line oct api h)
      (varint_bytes oct (of_nat (length n)) @ n @ lp oct v @ rest) rest (h', True)"
    unfolding indeterminate_field_line_def
    using assms n
    by (auto intro!: parses_abind [OF parses_has_more_data] parses_abind [OF parses_varint_usize [OF _ _ refl]]
        parses_abind [OF parses_read_exact [OF refl]] parses_abind [OF parses_lp] parses_Some
        simp: varint_bytes_nonempty hm_append_or_panic_def)
  then show ?thesis by (simp add: field_line_bytes_def lp_def)
qed

lemma parses_terminator:
  "parses (indeterminate_field_line oct api h) (varint_bytes oct 0 @ rest) rest (h, False)"
  unfolding indeterminate_field_line_def
  by (auto intro!: parses_abind [OF parses_has_more_data] parses_abind [OF parses_varint_usize [OF _ _ refl]]
      parses_aret simp: varint_bytes_nonempty)

lemma parses_field_lines:
  "list_all (\<lambda>(n, v). fits oct n \<and> fits oct v) fs \<Longrightarrow>
   list_all (\<lambda>(n, v). header_name api n = Some n \<and> header_value api v = Some v) fs \<Longrightarrow>
   \<forall>(n, v) \<in> set fs. n \<noteq> [] \<Longrightarrow> append_all api fs h = Some h' \<Longrightarrow>
   parses (aloop (indeterminate_field_line oct api) h)
     (field_lines_bytes oct fs @ varint_bytes oct 0 @ rest) rest h'"
proof (induction fs arbitrary: h)
  case Nil
  then show ?case
    using parses_terminator by (auto simp: field_lines_bytes_def intro!: parses_aloop_done)
next
  case (Cons f fs)
  obtain n v where f: "f = (n, v)" by (cases f)
  from Cons.prems(4) f obtain h1 where h1: "hm_append api h n v = Some h1" "append_all api fs h1 = Some h'"
    by (auto simp: bind_eq_Some_conv)
  have bytes: "field_lines_bytes oct (f # fs) = field_line_bytes oct (n, v) @ field_lines_bytes oct fs"
    using f by (simp add: field_lines_bytes_def)
  from Cons.prems f h1 have line: "parses (indeterminate_field_line oct api h)
      (field_line_bytes oct (n, v) @ field_lines_bytes oct fs @ varint_bytes oct 0 @ rest)
      (field_lines_bytes oct fs @ varint_bytes oct 0 @ rest) (h1, True)"
    by (intro parses_field_line) simp_all
  show ?case
    unfolding bytes append_assoc
    by (rule parses_aloop_step, rule line) (use Cons.IH [OF _ _ _ h1(2)] Cons.prems in simp)
qed

lemma parses_status [parses_rules]:
  assumes "status_from_u16 api c = Some c"
  shows "parses (decode_status oct api) (varint_bytes oct (ucast c) @ rest) rest c"
proof -
  have unat: "unat (ucast c :: u64) = unat c"
    by (simp add: unsigned_ucast_eq take_bit_nat_eq_self unsigned_less [THEN less_le_trans])
  moreover have "unat c < 2 ^ 16" using unsigned_less [of c, where ?'a = nat] by simp
  moreover have "unat c \<le> usize_max oct" using calculation(2) usize_at_least_32 by simp
  ultimately show ?thesis
    unfolding decode_status_def using assms
    by (auto intro!: parses_abind [OF parses_varint_usize [OF _ _ refl]] parses_Some)
qed

lemma parses_response_control:
  assumes "status_from_u16 api c = Some c" "\<not> is_informational api c"
  shows "parses (decode_response_control_data oct api) (varint_bytes oct (ucast c) @ rest) rest c"
  unfolding decode_response_control_data_def
proof (rule parses_abind [OF parses_status [OF assms(1)]])
  have "parses (skip_informational oct api c) rest rest (c, False)"
    using assms(2) by (simp add: skip_informational_def parses_aret)
  then show "parses (aloop (skip_informational oct api) c) rest rest c"
    by (rule parses_aloop_done)
qed

lemma parses_known_length:
  "varint_ok n \<Longrightarrow> parses (known_length oct) (varint_bytes oct n @ rest) rest (KnownLength n)"
  unfolding known_length_def
  by (auto intro!: parses_abind [OF parses_has_more_data] parses_abind [OF parses_varint_u64] parses_aret
      simp: varint_bytes_nonempty)

end

subsection \<open>Messages\<close>

text \<open>
  A request that the types of the \<^verbatim>\<open>http\<close> crate allow and that has an absolute URI:
  its parts are values that their own parsers accept.
\<close>

definition valid_request :: "octets_api \<Rightarrow> 'hm http_api \<Rightarrow> ('hm, 'b) request \<Rightarrow> bool" where
  "valid_request oct api req \<longleftrightarrow>
     request_fits oct api req \<and> valid_fields oct api (hm_iter api (rq_headers req))
     \<and> method_from api (rq_method req) = Some (rq_method req)
     \<and> (case uri_scheme (rq_uri req) of None \<Rightarrow> False | Some s \<Rightarrow> scheme_from api s = Some s)
     \<and> (case uri_authority (rq_uri req) of None \<Rightarrow> False
          | Some a \<Rightarrow> a \<noteq> [] \<and> authority_from api a = Some a)
     \<and> path_and_query_from api (path_bytes (rq_uri req))
         = Some \<lparr>pq_path = uri_path (rq_uri req), pq_query = uri_query (rq_uri req)\<rparr>"

definition valid_response :: "octets_api \<Rightarrow> 'hm http_api \<Rightarrow> ('hm, 'b) response \<Rightarrow> bool" where
  "valid_response oct api res \<longleftrightarrow>
     valid_fields oct api (hm_iter api (rs_headers res))
     \<and> status_from_u16 api (rs_status res) = Some (rs_status res)
     \<and> \<not> is_informational api (rs_status res)"

text \<open>
  A body whose size hint is exact keeps it: it delivers as many bytes, or fails before.
\<close>

definition honest_hint :: "'e body \<Rightarrow> bool" where
  "honest_hint b \<longleftrightarrow>
     (case bd_size_hint b of
        None \<Rightarrow> True
      | Some n \<Rightarrow> varint_ok n
          \<and> (if stream_tail (bd_data b) = None then unat n = length (stream_bytes (bd_data b))
             else length (stream_bytes (bd_data b)) < unat n))"

text \<open>What a decoder can tell of a message it has not seen: everything but the version.\<close>

definition same_headers :: "'hm http_api \<Rightarrow> 'hm \<Rightarrow> 'hm \<Rightarrow> bool" where
  "same_headers api h1 h2 \<longleftrightarrow> (\<forall>n. hm_values api h1 n = hm_values api h2 n)"

lemma content_known: "stream_bytes (content_events oct EncodedKnownLength st) = stream_bytes st"
  "stream_tail (content_events oct EncodedKnownLength st) = stream_tail st"
  by (induction oct EncodedKnownLength st rule: content_events.induct) simp_all

context octets_crate
begin

lemma delivers_lp:
  assumes "fits oct d" "d \<noteq> []" "delivers oct (IndeterminateLength (Some 0)) bs t out t'"
  shows "delivers oct (IndeterminateLength (Some 0)) (lp oct d @ bs) t (d @ out) t'"
proof -
  let ?n = "of_nat (length d) :: u64"
  from assms have n: "unat ?n = length d" by (simp add: fits_unat)
  with assms(2) have "?n \<noteq> 0" by (metis length_0_conv unat_0)
  moreover from this assms(3) n have "delivers oct (IndeterminateLength (Some ?n)) (d @ bs) t (d @ out) t'"
    using chunk_whole [of ?n "d @ bs" oct t out t'] by simp
  moreover have "get_varint oct (lp oct d @ bs) = Some (?n, d @ bs)"
    using assms(1) by (simp add: lp_def get_varint_append fits_varint_ok)
  ultimately show ?thesis
    using assms(2) by (intro next_chunk) (auto simp: lp_def)
qed

text \<open>Encoded content, read as a body, is the content.\<close>

lemma delivers_content:
  "stream_fits oct st \<Longrightarrow>
   delivers oct (IndeterminateLength (Some 0))
     (stream_bytes (content_events oct EncodedIndeterminateLength st))
     (stream_tail (content_events oct EncodedIndeterminateLength st)) (stream_bytes st) (stream_tail st)"
proof (induction st)
  case Nil
  show ?case using terminator [of "[0]" oct "[]" None] get_varint_zero by simp
next
  case (Cons e st)
  show ?case
  proof (cases e rule: event_cases)
    case (E x)
    then show ?thesis using no_terminator [of oct "Some x"] by simp
  next
    case (D d)
    with Cons show ?thesis by (auto intro: delivers_lp)
  qed (use Cons in simp)
qed

lemma parses_request_control:
  assumes fits: "fits oct m" "fits oct s" "fits oct a" "fits oct p"
    and accept: "method_from api m = Some m" "scheme_from api s = Some s" "path_and_query_from api p = Some pq"
      "a \<noteq> [] \<Longrightarrow> authority_from api a = Some a"
  shows "parses (decode_request_control_data oct api)
      (lp oct m @ lp oct s @ lp oct a @ lp oct p @ rest) rest
      \<lparr>rc_method = m, rc_scheme = s, rc_authority = (if a = [] then None else Some a), rc_path = pq\<rparr>"
proof (cases "a = []")
  case True
  show ?thesis
    unfolding decode_request_control_data_def
    using accept fits True by (auto intro!: parses_abind [OF parses_lp] parses_Some)
next
  case False
  show ?thesis
    unfolding decode_request_control_data_def
    using accept fits False by (auto intro!: parses_abind [OF parses_lp] parses_Some)
qed

lemma parses_indeterminate_section:
  assumes "valid_fields oct api fs" "\<forall>(n, v) \<in> set fs. n \<noteq> []" "append_all api fs (hm_empty api) = Some h"
  shows "parses (decode_indeterminate_length_field_section oct api)
     (field_lines_bytes oct fs @ varint_bytes oct 0 @ rest) rest h"
  unfolding decode_indeterminate_length_field_section_def
  using assms by (intro parses_field_lines) (auto simp: valid_fields_def fields_fit_def)

end

context http_crate
begin

lemma valid_fields_nonempty: "valid_fields oct api fs \<Longrightarrow> \<forall>(n, v) \<in> set fs. n \<noteq> []"
  using header_name_nonempty by (fastforce simp: valid_fields_def list_all_iff)

text \<open>The request is assembled with the authority it had, from its own place or the header.\<close>

lemma mk_request_valid:
  assumes "valid_request oct api req" "uri_scheme (rq_uri req) = Some s"
    and same: "\<And>n. hm_values api h n = hm_values api (rq_headers req) n"
  shows "mk_request api
      \<lparr>rc_method = rq_method req, rc_scheme = s,
       rc_authority = (if request_authority api req = [] then None else Some (request_authority api req)),
       rc_path = \<lparr>pq_path = uri_path (rq_uri req), pq_query = uri_query (rq_uri req)\<rparr>\<rparr> h body
    = Inr \<lparr>rq_method = rq_method req, rq_uri = rq_uri req, rq_version = default_version,
           rq_headers = h, rq_body = body\<rparr>"
proof -
  from assms(1) obtain a where a: "uri_authority (rq_uri req) = Some a" "a \<noteq> []" "authority_from api a = Some a"
    by (auto simp: valid_request_def split: option.splits)
  have "hm_get api h HOST = hm_get api (rq_headers req) HOST" by (simp add: get_first same)
  with a assms(2) show ?thesis
    by (cases "hm_get api (rq_headers req) HOST")
      (auto simp: mk_request_def request_authority_def uri_from_parts_spec)
qed

end

locale bhttp = octets_crate oct + http_crate api
  for oct :: octets_api and api :: "'hm http_api"
begin

lemma parses_request:
  assumes valid: "valid_request oct api req" and s: "uri_scheme (rq_uri req) = Some s"
  obtains h where "same_headers api h (rq_headers req)"
    and "\<And>rest. parses (decode_request oct api) (request_head_bytes oct api req s @ rest) rest
       \<lparr>rq_method = rq_method req, rq_uri = rq_uri req, rq_version = default_version,
        rq_headers = h, rq_body = indeterminate_length\<rparr>"
proof -
  let ?fs = "hm_iter api (rq_headers req)" and ?a = "request_authority api req"
  from valid have vf: "valid_fields oct api ?fs" by (simp add: valid_request_def)
  then obtain h where h: "append_all api ?fs (hm_empty api) = Some h"
      "\<And>n. hm_values api h n = hm_values api (rq_headers req) n"
    by (auto simp: valid_fields_def elim: append_all_iter)
  have ctl: "parses (decode_request_control_data oct api)
      (lp oct (rq_method req) @ lp oct s @ lp oct ?a @ lp oct (path_bytes (rq_uri req)) @ r) r
      \<lparr>rc_method = rq_method req, rc_scheme = s, rc_authority = (if ?a = [] then None else Some ?a),
       rc_path = \<lparr>pq_path = uri_path (rq_uri req), pq_query = uri_query (rq_uri req)\<rparr>\<rparr>" for r
    using valid s
    by (intro parses_request_control)
      (auto simp: valid_request_def request_fits_def request_authority_def split: option.splits if_splits)
  have "parses (decode_indeterminate_length_request oct api)
      (lp oct (rq_method req) @ lp oct s @ lp oct ?a @ lp oct (path_bytes (rq_uri req))
        @ field_lines_bytes oct ?fs @ varint_bytes oct 0 @ rest) rest
      \<lparr>rq_method = rq_method req, rq_uri = rq_uri req, rq_version = default_version,
        rq_headers = h, rq_body = indeterminate_length\<rparr>" for rest
    unfolding decode_indeterminate_length_request_def
    by (rule parses_abind [OF ctl], rule parses_abind
        [OF parses_indeterminate_section [OF vf valid_fields_nonempty [OF vf] h(1)]],
        rule parses_alift [OF mk_request_valid [OF valid s h(2)]])
  then have "parses (decode_request oct api) (request_head_bytes oct api req s @ rest) rest
      \<lparr>rq_method = rq_method req, rq_uri = rq_uri req, rq_version = default_version,
        rq_headers = h, rq_body = indeterminate_length\<rparr>" for rest
    unfolding decode_request_def request_head_bytes_def append_assoc
    by (intro parses_abind [OF parses_varint_u64]) simp_all
  moreover from h(2) have "same_headers api h (rq_headers req)" by (simp add: same_headers_def)
  ultimately show thesis using that by blast
qed

lemma parses_response:
  assumes valid: "valid_response oct api res"
  obtains h where "same_headers api h (rs_headers res)"
    and "\<And>rest. parses (decode_response oct api) (indeterminate_response_head_bytes oct api res @ rest) rest
       (mk_response (rs_status res) h indeterminate_length)"
    and "\<And>n rest. varint_ok n \<Longrightarrow>
       parses (decode_response oct api) (known_response_head_bytes oct api res n @ rest) rest
         (mk_response (rs_status res) h (KnownLength n))"
proof -
  let ?fs = "hm_iter api (rs_headers res)"
  from valid have vf: "valid_fields oct api ?fs"
      and st: "status_from_u16 api (rs_status res) = Some (rs_status res)"
        "\<not> is_informational api (rs_status res)"
    by (simp_all add: valid_response_def)
  then obtain h where h: "append_all api ?fs (hm_empty api) = Some h"
      "\<And>n. hm_values api h n = hm_values api (rs_headers res) n"
    by (auto simp: valid_fields_def elim: append_all_iter)
  have i: "parses (decode_response oct api) (indeterminate_response_head_bytes oct api res @ rest) rest
       (mk_response (rs_status res) h indeterminate_length)" for rest
    unfolding decode_response_def indeterminate_response_head_bytes_def append_assoc
      decode_indeterminate_length_response_def
    by (rule parses_abind [OF parses_varint_u64])
      (auto intro!: parses_abind [OF parses_response_control [OF st]] parses_aret
        parses_abind [OF parses_indeterminate_section [OF vf valid_fields_nonempty [OF vf] h(1)]])
  have k: "parses (decode_response oct api) (known_response_head_bytes oct api res n @ rest) rest
       (mk_response (rs_status res) h (KnownLength n))" if "varint_ok n" for n rest
    unfolding decode_response_def known_response_head_bytes_def append_assoc
      decode_known_length_response_def
    by (rule parses_abind [OF parses_varint_u64])
      (use that in \<open>auto intro!: parses_abind [OF parses_response_control [OF st]]
        parses_abind [OF parses_known_section [OF vf h(1)]] parses_abind [OF parses_known_length]
        parses_aret\<close>)
  from h(2) have "same_headers api h (rs_headers res)" by (simp add: same_headers_def)
  from that [OF this i k] show thesis .
qed

lemma body_read:
  assumes "wf_buf sb" "delivers oct kind (avail sb) (tail sb) out t"
  shows "stream_bytes (body_events oct \<lparr>body_kind = kind, body_buf = sb\<rparr>) = out
    \<and> stream_tail (body_events oct \<lparr>body_kind = kind, body_buf = sb\<rparr>) = t"
  using body_events_delivers [of "\<lparr>body_kind = kind, body_buf = sb\<rparr>"] assms
  by (auto dest: delivers_deterministic)

lemma encode_valid_request:
  fixes req :: "('hm, 'e body) request"
  assumes valid: "valid_request oct api req" and body: "stream_fits oct (bd_data (rq_body req))"
  obtains m where "encode_request oct api req = Inr m"
    and "message_events oct m = Yield (Inr (request_head_bytes oct api req (the (uri_scheme (rq_uri req)))))
       # content_events oct EncodedIndeterminateLength (bd_data (rq_body req))"
proof -
  from valid obtain s where s: "uri_scheme (rq_uri req) = Some s"
    by (auto simp: valid_request_def split: option.splits)
  let ?m = "\<lparr>em_kind = EncodedIndeterminateLength, initial_chunk = Some (request_head_bytes oct api req s),
    em_body = bd_data (rq_body req), end_of_content = False\<rparr>"
  show thesis
    by (rule that [of ?m]) (use s valid body message_events_start [of ?m] in
        \<open>simp_all add: encode_request_def request_chunk valid_request_def\<close>)
qed

lemma decode_encoded_request:
  fixes req :: "('hm, 'e body) request"
  assumes valid: "valid_request oct api req" and body: "stream_fits oct (bd_data (rq_body req))"
    and enc: "encode_request oct api req = Inr m"
    and sb: "wf_buf sb" "avail sb = stream_bytes (message_events oct m)"
      "tail sb = stream_tail (message_events oct m)"
  shows "\<exists>req' sb'. decode_request oct api sb = Some (Inr req', sb')
    \<and> rq_method req' = rq_method req \<and> rq_uri req' = rq_uri req
    \<and> same_headers api (rq_headers req') (rq_headers req)
    \<and> stream_bytes (body_events oct \<lparr>body_kind = rq_body req', body_buf = sb'\<rparr>)
        = stream_bytes (bd_data (rq_body req))
    \<and> stream_tail (body_events oct \<lparr>body_kind = rq_body req', body_buf = sb'\<rparr>)
        = stream_tail (bd_data (rq_body req))"
proof -
  from valid obtain s where s: "uri_scheme (rq_uri req) = Some s"
    by (auto simp: valid_request_def split: option.splits)
  let ?head = "request_head_bytes oct api req s" and ?st = "bd_data (rq_body req)"
  let ?ev = "content_events oct EncodedIndeterminateLength ?st"
  have ev: "message_events oct m = Yield (Inr ?head) # ?ev"
    by (rule encode_valid_request [OF valid body]) (use enc s in simp)
  obtain h where h: "same_headers api h (rq_headers req)"
    and p: "\<And>rest. parses (decode_request oct api :: ('e stream_buf, _, 'e) async) (?head @ rest) rest
       \<lparr>rq_method = rq_method req, rq_uri = rq_uri req, rq_version = default_version,
        rq_headers = h, rq_body = indeterminate_length\<rparr>"
    by (rule parses_request [OF valid s]) blast
  from sb(2) ev have "avail sb = ?head @ stream_bytes ?ev" by simp
  from parses_view [OF chunk_invariant_decode_request p sb(1) this] obtain sb' where
    d: "decode_request oct api sb = Some (Inr \<lparr>rq_method = rq_method req, rq_uri = rq_uri req,
      rq_version = default_version, rq_headers = h, rq_body = indeterminate_length\<rparr>, sb')"
      "wf_buf sb'" "avail sb' = stream_bytes ?ev" "tail sb' = tail sb" .
  from body_read [OF d(2)] delivers_content [OF body] d(3,4) sb(3) ev
  have "stream_bytes (body_events oct \<lparr>body_kind = indeterminate_length, body_buf = sb'\<rparr>) = stream_bytes ?st
    \<and> stream_tail (body_events oct \<lparr>body_kind = indeterminate_length, body_buf = sb'\<rparr>) = stream_tail ?st"
    unfolding indeterminate_length_def by simp
  with d h show ?thesis by auto
qed

lemma delivers_hinted:
  assumes "if stream_tail st = None then unat n = length (stream_bytes st)
           else length (stream_bytes st) < unat n"
  shows "delivers oct (KnownLength n) (stream_bytes st) (stream_tail st) (stream_bytes st) (stream_tail st)"
proof (cases "stream_tail st")
  case None
  with assms known_whole [of n "stream_bytes st" oct None] show ?thesis by simp
next
  case (Some e)
  with assms known_short [of "stream_bytes st" n oct "Some e"] show ?thesis by (simp add: end_error_def)
qed

lemma encode_valid_response:
  fixes res :: "('hm, 'e body) response"
  assumes valid: "valid_response oct api res" and body: "stream_fits oct (bd_data (rs_body res))"
    and hint: "honest_hint (rs_body res)"
  obtains m where "encode_response oct api res = Inr m"
    and "message_events oct m = (case bd_size_hint (rs_body res) of
        None \<Rightarrow> Yield (Inr (indeterminate_response_head_bytes oct api res))
          # content_events oct EncodedIndeterminateLength (bd_data (rs_body res))
      | Some n \<Rightarrow> Yield (Inr (known_response_head_bytes oct api res n))
          # content_events oct EncodedKnownLength (bd_data (rs_body res)))"
proof -
  from valid have ff: "fields_fit oct (hm_iter api (rs_headers res))"
    by (simp add: valid_response_def valid_fields_def)
  show thesis
  proof (cases "bd_size_hint (rs_body res)")
    case None
    let ?m = "\<lparr>em_kind = EncodedIndeterminateLength, initial_chunk =
        Some (indeterminate_response_head_bytes oct api res), em_body = bd_data (rs_body res), end_of_content = False\<rparr>"
    show thesis
      by (rule that [of ?m]) (use None body message_events_start [of ?m] in
          \<open>simp_all add: encode_response_def indeterminate_response_chunk [OF ff]\<close>)
  next
    case (Some n)
    with hint have n: "varint_ok n" by (simp add: honest_hint_def)
    let ?m = "\<lparr>em_kind = EncodedKnownLength, initial_chunk =
        Some (known_response_head_bytes oct api res n), em_body = bd_data (rs_body res), end_of_content = False\<rparr>"
    show thesis
      by (rule that [of ?m]) (use Some body message_events_start [of ?m] in
          \<open>simp_all add: encode_response_def known_response_chunk [OF ff n]\<close>)
  qed
qed

lemma decode_encoded_response:
  fixes res :: "('hm, 'e body) response"
  assumes valid: "valid_response oct api res" and body: "stream_fits oct (bd_data (rs_body res))"
    and hint: "honest_hint (rs_body res)"
    and enc: "encode_response oct api res = Inr m"
    and sb: "wf_buf sb" "avail sb = stream_bytes (message_events oct m)"
      "tail sb = stream_tail (message_events oct m)"
  shows "\<exists>res' sb'. decode_response oct api sb = Some (Inr res', sb')
    \<and> rs_status res' = rs_status res
    \<and> same_headers api (rs_headers res') (rs_headers res)
    \<and> stream_bytes (body_events oct \<lparr>body_kind = rs_body res', body_buf = sb'\<rparr>)
        = stream_bytes (bd_data (rs_body res))
    \<and> stream_tail (body_events oct \<lparr>body_kind = rs_body res', body_buf = sb'\<rparr>)
        = stream_tail (bd_data (rs_body res))"
proof -
  let ?st = "bd_data (rs_body res)" and ?hint = "bd_size_hint (rs_body res)"
  let ?kind = "case ?hint of None \<Rightarrow> indeterminate_length | Some n \<Rightarrow> KnownLength n"
  let ?head = "case ?hint of None \<Rightarrow> indeterminate_response_head_bytes oct api res
      | Some n \<Rightarrow> known_response_head_bytes oct api res n"
  let ?ev = "content_events oct (if ?hint = None then EncodedIndeterminateLength else EncodedKnownLength) ?st"
  have ev: "message_events oct m = Yield (Inr ?head) # ?ev"
    by (rule encode_valid_response [OF valid body hint]) (use enc in \<open>auto split: option.splits\<close>)
  obtain h where h: "same_headers api h (rs_headers res)"
    and i: "\<And>rest. parses (decode_response oct api :: ('e stream_buf, _, 'e) async)
       (indeterminate_response_head_bytes oct api res @ rest) rest
       (mk_response (rs_status res) h indeterminate_length)"
    and k: "\<And>n rest. varint_ok n \<Longrightarrow> parses (decode_response oct api :: ('e stream_buf, _, 'e) async)
       (known_response_head_bytes oct api res n @ rest) rest (mk_response (rs_status res) h (KnownLength n))"
    by (rule parses_response [OF valid]) blast
  have p: "parses (decode_response oct api :: ('e stream_buf, _, 'e) async) (?head @ rest) rest
       (mk_response (rs_status res) h ?kind)" for rest
    by (cases ?hint) (use i k hint in \<open>auto simp: honest_hint_def\<close>)
  have del: "delivers oct ?kind (stream_bytes ?ev) (stream_tail ?ev) (stream_bytes ?st) (stream_tail ?st)"
    using delivers_content [OF body] hint
    by (cases ?hint) (simp_all add: indeterminate_length_def content_known delivers_hinted honest_hint_def)
  from sb(2) ev have "avail sb = ?head @ stream_bytes ?ev" by simp
  from parses_view [OF chunk_invariant_decode_response p sb(1) this] obtain sb' where
    d: "decode_response oct api sb = Some (Inr (mk_response (rs_status res) h ?kind), sb')"
      "wf_buf sb'" "avail sb' = stream_bytes ?ev" "tail sb' = tail sb" .
  from body_read [OF d(2)] del d(3,4) sb(3) ev
  have "stream_bytes (body_events oct \<lparr>body_kind = ?kind, body_buf = sb'\<rparr>) = stream_bytes ?st
    \<and> stream_tail (body_events oct \<lparr>body_kind = ?kind, body_buf = sb'\<rparr>) = stream_tail ?st"
    by simp
  with d(1) h show ?thesis
    by (intro exI [of _ "mk_response (rs_status res) h ?kind"] exI [of _ sb'])
      (simp add: mk_response_def)
qed

end

interpretation bhttp_native: bhttp "rfc9000_octets (2 ^ 64 - 1)" alist_http ..

subsection \<open>Properties\<close>

definition demo_request :: "((bytes \<times> bytes) list, unit body) request" where
  "demo_request =
     \<lparr>rq_method = ascii ''GET'',
      rq_uri = \<lparr>uri_scheme = Some (ascii ''https''), uri_authority = Some (ascii ''a.b''),
                uri_path = ascii ''/p'', uri_query = Some (ascii ''q'')\<rparr>,
      rq_version = HTTP_11, rq_headers = [(HOST, ascii ''a.b''), (ascii ''x'', ascii ''1'')],
      rq_body = \<lparr>bd_size_hint = None, bd_data = [Yield (Inr (ascii ''hi''))]\<rparr>\<rparr>"

definition demo_response :: "((bytes \<times> bytes) list, unit body) response" where
  "demo_response =
     \<lparr>rs_version = HTTP_11, rs_status = 200, rs_headers = [(ascii ''x'', ascii ''1'')],
      rs_body = \<lparr>bd_size_hint = Some 2, bd_data = [Yield (Inr (ascii ''h'')), Wait, Yield (Inr (ascii ''i''))]\<rparr>\<rparr>"

lemmas demo_simps = demo_request_def demo_response_def rfc9000_octets_def alist_http_def ascii_def HOST_def
  path_bytes_def split_query_def field_lines_bytes_def field_line_bytes_def lp_def encoded_def
  put_encoding_def rfc9000_len_def rfc9000_bytes_def om_zeroed_def om_write_def token_byte_def
  visible_byte_def lower_byte_def request_authority_def fits_def varint_ok_def

lemma demo_request_valid:
  "valid_request (rfc9000_octets (2 ^ 64 - 1)) alist_http demo_request"
  "stream_fits (rfc9000_octets (2 ^ 64 - 1)) (bd_data (rq_body demo_request))"
  by (simp_all add: valid_request_def valid_fields_def fields_fit_def request_fits_def demo_simps)

lemma demo_response_valid:
  "valid_response (rfc9000_octets (2 ^ 64 - 1)) alist_http demo_response"
  "stream_fits (rfc9000_octets (2 ^ 64 - 1)) (bd_data (rs_body demo_response))"
  "honest_hint (rs_body demo_response)"
  by (simp_all add: valid_response_def valid_fields_def fields_fit_def honest_hint_def demo_simps)

text \<open>
  C21: encoding a request with an absolute URI never fails or panics: the length that
  \<^verbatim>\<open>initial_indeterminate_length_request_chunk\<close> computes for its buffer is exactly the
  length of what is written, whether the authority is written or left to the
  \<^verbatim>\<open>Host\<close> header, and the stream is the head of the message in one chunk followed by
  the length-prefixed chunks of the body and the terminator.
\<close>

theorem encode_request_total:
  assumes "octets_crate oct" "http_crate api" "valid_request oct api req"
    and "stream_fits oct (bd_data (rq_body req))"
  shows "\<exists>m scheme. uri_scheme (rq_uri req) = Some scheme \<and> encode_request oct api req = Inr m
    \<and> initial_chunk m = Some (request_head_bytes oct api req scheme)
    \<and> initial_request_chunk_len oct api req scheme (request_authority api req)
        = length (request_head_bytes oct api req scheme)
    \<and> message_events oct m = Yield (Inr (request_head_bytes oct api req scheme))
       # content_events oct EncodedIndeterminateLength (bd_data (rq_body req))"
proof -
  obtain scheme where scheme: "uri_scheme (rq_uri req) = Some scheme" and fit: "request_fits oct api req"
    using assms(3) by (auto simp: valid_request_def split: option.splits)
  obtain m where m: "encode_request oct api req = Inr m"
    "message_events oct m = Yield (Inr (request_head_bytes oct api req (the (uri_scheme (rq_uri req)))))
       # content_events oct EncodedIndeterminateLength (bd_data (rq_body req))"
    by (rule bhttp.encode_valid_request [OF bhttp.intro [OF assms(1,2)] assms(3,4)])
  then have "initial_chunk m = Some (request_head_bytes oct api req scheme)"
    by (auto simp: encode_request_def octets_crate.request_chunk [OF assms(1) scheme fit])
  with m scheme octets_crate.request_chunk_len [OF assms(1) fit scheme] show ?thesis by auto
qed

theorem encode_request_total_witness:
  "\<exists>m. encode_request (rfc9000_octets (2 ^ 64 - 1)) alist_http demo_request = Inr m
    \<and> stream_tail (message_events (rfc9000_octets (2 ^ 64 - 1)) m) = None"
  using encode_request_total [OF native.octets_crate_axioms alist.http_crate_axioms demo_request_valid]
  by (auto simp: demo_request_def)

text \<open>
  C22: encoding a response never panics, for bodies of known and of unknown length: no
  \<^verbatim>\<open>unwrap\<close> fails and both \<^verbatim>\<open>debug_assert_eq!\<close> hold, because the computed
  length of the initial chunk is the length of what is written to it.
\<close>

theorem encode_response_total:
  assumes "octets_crate oct" "http_crate api" "valid_response oct api res"
    and "stream_fits oct (bd_data (rs_body res))" "honest_hint (rs_body res)"
  shows "\<exists>m. encode_response oct api res = Inr m
    \<and> message_events oct m = (case bd_size_hint (rs_body res) of
        None \<Rightarrow> Yield (Inr (indeterminate_response_head_bytes oct api res))
          # content_events oct EncodedIndeterminateLength (bd_data (rs_body res))
      | Some n \<Rightarrow> Yield (Inr (known_response_head_bytes oct api res n))
          # content_events oct EncodedKnownLength (bd_data (rs_body res)))"
  by (rule bhttp.encode_valid_response [OF bhttp.intro [OF assms(1,2)] assms(3-5)]) blast

theorem encode_response_total_witness:
  "\<exists>m. encode_response (rfc9000_octets (2 ^ 64 - 1)) alist_http demo_response = Inr m
    \<and> stream_tail (message_events (rfc9000_octets (2 ^ 64 - 1)) m) = None"
  using encode_response_total [OF native.octets_crate_axioms alist.http_crate_axioms demo_response_valid]
  by (auto simp: demo_response_def)

text \<open>
  C3: decoding an encoded request gives it back: the method, the URI (its authority also
  when the encoder left it to the \<^verbatim>\<open>Host\<close> header), the values of every header in
  order, the bytes of the body and the way it ends. This holds for every chunking of the
  encoded bytes on the way.
\<close>

theorem request_round_trip:
  assumes "octets_crate oct" "http_crate api" "valid_request oct api req"
    and "stream_fits oct (bd_data (rq_body req))" "encode_request oct api req = Inr m"
    and "wf_buf sb" "avail sb = stream_bytes (message_events oct m)"
      "tail sb = stream_tail (message_events oct m)"
  shows "\<exists>req' sb'. decode_request oct api sb = Some (Inr req', sb')
    \<and> rq_method req' = rq_method req \<and> rq_uri req' = rq_uri req
    \<and> same_headers api (rq_headers req') (rq_headers req)
    \<and> stream_bytes (body_events oct \<lparr>body_kind = rq_body req', body_buf = sb'\<rparr>)
        = stream_bytes (bd_data (rq_body req))
    \<and> stream_tail (body_events oct \<lparr>body_kind = rq_body req', body_buf = sb'\<rparr>)
        = stream_tail (bd_data (rq_body req))"
  using bhttp.decode_encoded_request [OF bhttp.intro [OF assms(1,2)] assms(3-8)] .

theorem request_round_trip_witness:
  "\<exists>m req' sb'. encode_request (rfc9000_octets (2 ^ 64 - 1)) alist_http demo_request = Inr m
    \<and> decode_request (rfc9000_octets (2 ^ 64 - 1)) alist_http
        (stream_buf_from (stream_bytes (message_events (rfc9000_octets (2 ^ 64 - 1)) m)) :: unit stream_buf) = Some (Inr req', sb')
    \<and> rq_uri req' = rq_uri demo_request"
proof -
  let ?oct = "rfc9000_octets (2 ^ 64 - 1)"
  obtain m where m: "encode_request ?oct alist_http demo_request = Inr m"
    "message_events ?oct m = Yield (Inr (request_head_bytes ?oct alist_http demo_request
        (the (uri_scheme (rq_uri demo_request)))))
       # content_events ?oct EncodedIndeterminateLength (bd_data (rq_body demo_request))"
    by (rule bhttp_native.encode_valid_request [OF demo_request_valid])
  have "stream_tail (message_events ?oct m) = None" unfolding m(2) by (simp add: demo_request_def)
  with request_round_trip [OF native.octets_crate_axioms alist.http_crate_axioms demo_request_valid m(1),
      of "stream_buf_from (stream_bytes (message_events ?oct m))"] m(1)
  show ?thesis by auto
qed

text \<open>
  C4: decoding an encoded response gives it back: the status, the values of every header in
  order, the bytes of the body and the way it ends, for bodies of known and of unknown
  length and for every chunking of the encoded bytes.
\<close>

theorem response_round_trip:
  assumes "octets_crate oct" "http_crate api" "valid_response oct api res"
    and "stream_fits oct (bd_data (rs_body res))" "honest_hint (rs_body res)"
    and "encode_response oct api res = Inr m"
    and "wf_buf sb" "avail sb = stream_bytes (message_events oct m)"
      "tail sb = stream_tail (message_events oct m)"
  shows "\<exists>res' sb'. decode_response oct api sb = Some (Inr res', sb')
    \<and> rs_status res' = rs_status res
    \<and> same_headers api (rs_headers res') (rs_headers res)
    \<and> stream_bytes (body_events oct \<lparr>body_kind = rs_body res', body_buf = sb'\<rparr>)
        = stream_bytes (bd_data (rs_body res))
    \<and> stream_tail (body_events oct \<lparr>body_kind = rs_body res', body_buf = sb'\<rparr>)
        = stream_tail (bd_data (rs_body res))"
  using bhttp.decode_encoded_response [OF bhttp.intro [OF assms(1,2)] assms(3-9)] .

theorem response_round_trip_witness:
  "\<exists>m res' sb'. encode_response (rfc9000_octets (2 ^ 64 - 1)) alist_http demo_response = Inr m
    \<and> decode_response (rfc9000_octets (2 ^ 64 - 1)) alist_http
        (stream_buf_from (stream_bytes (message_events (rfc9000_octets (2 ^ 64 - 1)) m)) :: unit stream_buf) = Some (Inr res', sb')
    \<and> rs_status res' = 200"
proof -
  let ?oct = "rfc9000_octets (2 ^ 64 - 1)"
  obtain m where m: "encode_response ?oct alist_http demo_response = Inr m"
    "message_events ?oct m = Yield (Inr (known_response_head_bytes ?oct alist_http demo_response 2))
       # content_events ?oct EncodedKnownLength (bd_data (rs_body demo_response))"
    by (rule bhttp_native.encode_valid_response [OF demo_response_valid]) (simp add: demo_response_def)
  have "stream_tail (message_events ?oct m) = None" unfolding m(2) by (simp add: demo_response_def)
  with response_round_trip [OF native.octets_crate_axioms alist.http_crate_axioms demo_response_valid m(1),
      of "stream_buf_from (stream_bytes (message_events ?oct m))"] m(1)
  show ?thesis by (auto simp: demo_response_def)
qed

end
