(* ===== verification/Hpke_Crate.thy ===== *)
theory Hpke_Crate
  imports Stream_Octets
begin

text \<open>
  The interface of the cryptographic crates that \<^verbatim>\<open>ohttp-hpke\<close> calls
  (\<^verbatim>\<open>hpke\<close>, \<^verbatim>\<open>hkdf\<close>, \<^verbatim>\<open>aead\<close> and the AEAD implementations).
  Their code is not part of the repository. The algorithms are named by the enumerations
  of \<^verbatim>\<open>crates/ohttp-hpke/src/config.rs\<close>, whose variants are the marker types of
  the \<^verbatim>\<open>hpke\<close> crate. A value of \<open>'c hpke_api\<close>, with \<open>'c\<close> the type of
  an HPKE context, stands for the crates; the locale \<open>hpke_crate\<close> states what they
  document: the registered identifiers differ, sizes are fixed by the algorithm, and what
  one side seals the other side opens. Random bytes are an argument.
\<close>

datatype kem_id = DhP256HkdfSha256 | DhP384HkdfSha384 | X25519HkdfSha256

datatype kdf_id = HkdfSha256 | HkdfSha384 | HkdfSha512

datatype aead_id = AesGcm128 | AesGcm256 | ChaCha20Poly1305

text \<open>
  A result whose error is an \<^verbatim>\<open>HpkeError\<close>: the library's errors are the
  \<open>Source\<close> errors, beside the panics of the code that calls it.
\<close>

type_synonym 'a hresult = "('a, hpke_error) result"

record 'c hpke_api =
  KEM_ID :: "kem_id \<Rightarrow> u16"
  KDF_ID :: "kdf_id \<Rightarrow> u16"
  AEAD_ID :: "aead_id \<Rightarrow> u16"
  public_key_size :: "kem_id \<Rightarrow> nat"
  encapped_key_size :: "kem_id \<Rightarrow> nat"
  key_size :: "aead_id \<Rightarrow> nat"
  nonce_size :: "aead_id \<Rightarrow> nat"
  tag_size :: "aead_id \<Rightarrow> nat"
  derive_keypair :: "kem_id \<Rightarrow> bytes \<Rightarrow> bytes \<times> bytes"
  sk_to_pk :: "kem_id \<Rightarrow> bytes \<Rightarrow> hpke_error + bytes"
  setup_sender :: "kem_id \<Rightarrow> kdf_id \<Rightarrow> aead_id \<Rightarrow> bytes \<Rightarrow> bytes \<Rightarrow> bytes \<Rightarrow> hpke_error + (bytes \<times> 'c)"
  setup_receiver :: "kem_id \<Rightarrow> kdf_id \<Rightarrow> aead_id \<Rightarrow> bytes \<Rightarrow> bytes \<Rightarrow> bytes \<Rightarrow> hpke_error + 'c"
  export_secret :: "'c \<Rightarrow> bytes \<Rightarrow> nat \<Rightarrow> bytes option"
  ctx_seal :: "'c \<Rightarrow> bytes \<Rightarrow> bytes \<Rightarrow> (hpke_error + (bytes \<times> bytes)) \<times> 'c"
  ctx_open :: "'c \<Rightarrow> bytes \<Rightarrow> bytes \<Rightarrow> bytes \<Rightarrow> (hpke_error + bytes) \<times> 'c"
  hash_size :: "kdf_id \<Rightarrow> nat"
  hkdf_expand :: "kdf_id \<Rightarrow> bytes \<Rightarrow> bytes \<Rightarrow> bytes \<Rightarrow> nat \<Rightarrow> bytes option"
  aead_encrypt :: "aead_id \<Rightarrow> bytes \<Rightarrow> bytes \<Rightarrow> bytes \<Rightarrow> bytes \<Rightarrow> (bytes \<times> bytes) option"
  aead_decrypt :: "aead_id \<Rightarrow> bytes \<Rightarrow> bytes \<Rightarrow> bytes \<Rightarrow> bytes \<Rightarrow> bytes \<Rightarrow> bytes option"

text \<open>
  \<^verbatim>\<open>setup_sender kem kdf aead pk info rng\<close> includes the deserialization of the public
  key, \<^verbatim>\<open>setup_receiver kem kdf aead sk enc info\<close> that of the private and the
  encapsulated key. \<open>paired aead s r\<close> says that the receiver context \<open>r\<close> is
  where it has to be to open what \<open>s\<close> seals next.
\<close>

locale hpke_crate =
  fixes hp :: "'c hpke_api"
    and paired :: "aead_id \<Rightarrow> 'c \<Rightarrow> 'c \<Rightarrow> bool"
  assumes KEM_ID_inj: "KEM_ID hp k1 = KEM_ID hp k2 \<Longrightarrow> k1 = k2"
    and KDF_ID_inj: "KDF_ID hp d1 = KDF_ID hp d2 \<Longrightarrow> d1 = d2"
    and AEAD_ID_inj: "AEAD_ID hp a1 = AEAD_ID hp a2 \<Longrightarrow> a1 = a2"
    and public_key_size_small: "public_key_size hp k < 2 ^ 10"
    and nonce_size_pos: "0 < nonce_size hp a"
    and tag_size_pos: "0 < tag_size hp a"
    and tag_size_small: "tag_size hp a < 2 ^ 10"
    and derive_keypair_public: "derive_keypair hp k ikm = (sk, pk) \<Longrightarrow> sk_to_pk hp k sk = Inr pk"
    and sk_to_pk_size: "sk_to_pk hp k sk = Inr pk \<Longrightarrow> length pk = public_key_size hp k"
    and setup_pair: "setup_sender hp k d a pk info rng = Inr (enc, s) \<Longrightarrow> sk_to_pk hp k sk = Inr pk \<Longrightarrow>
      length enc = encapped_key_size hp k
      \<and> (\<exists>r. setup_receiver hp k d a sk enc info = Inr r \<and> paired a s r)"
    and paired_export: "paired a s r \<Longrightarrow> export_secret hp s = export_secret hp r"
    and export_room: "setup_sender hp k d a pk info rng = Inr (enc, s) \<Longrightarrow>
      n \<le> max (key_size hp a) (nonce_size hp a) \<Longrightarrow> \<exists>out. export_secret hp s e n = Some out \<and> length out = n"
    and export_room_receiver: "setup_receiver hp k d a sk enc info = Inr r \<Longrightarrow>
      n \<le> max (key_size hp a) (nonce_size hp a) \<Longrightarrow> \<exists>out. export_secret hp r e n = Some out \<and> length out = n"
    and seal_open: "paired a s r \<Longrightarrow> ctx_seal hp s pt aad = (Inr (ct, tag), s') \<Longrightarrow>
      length ct = length pt \<and> length tag = tag_size hp a
      \<and> (\<exists>r'. ctx_open hp r ct aad tag = (Inr pt, r') \<and> paired a s' r')"
    and key_size_small: "key_size hp a \<le> 32"
    and nonce_size_small: "nonce_size hp a \<le> 32"
    and hash_size_large: "32 \<le> hash_size hp d"
    and expand_limit: "hkdf_expand hp d salt ikm info n = None \<longleftrightarrow> 255 * hash_size hp d < n"
    and expand_length: "hkdf_expand hp d salt ikm info n = Some out \<Longrightarrow> length out = n"
    and encrypt_decrypt: "aead_encrypt hp a key nonce aad pt = Some (ct, tag) \<Longrightarrow>
      length ct = length pt \<and> length tag = tag_size hp a \<and> aead_decrypt hp a key nonce aad ct tag = Some pt"
begin

text \<open>
  HKDF refuses more than 255 blocks of its hash (RFC 5869). A key or a nonce of a registered
  AEAD is shorter than one block, so that the code's expansions have room.
\<close>

lemma expand_room:
  assumes "n = key_size hp a \<or> n = nonce_size hp a"
  shows "\<exists>out. hkdf_expand hp d salt ikm info n = Some out \<and> length out = n"
proof -
  have "\<not> 255 * hash_size hp d < n"
    using assms key_size_small [of a] nonce_size_small [of a] hash_size_large [of d] by auto
  then have "hkdf_expand hp d salt ikm info n \<noteq> None" by (simp only: expand_limit not_False_eq_True)
  then show ?thesis using expand_length by blast
qed

end

subsection \<open>An instance\<close>

text \<open>
  An implementation with the registered identifiers and sizes and a transparent cipher,
  which shows that the assumptions of the interface can hold together. A context is the
  number of messages so far and what it was set up from.
\<close>

record plain_ctx =
  pc_setup :: "aead_id \<times> bytes \<times> bytes \<times> bytes"
  pc_seq :: nat

definition plain_tag :: "nat \<Rightarrow> bytes \<Rightarrow> bytes" where
  "plain_tag n aad = replicate 15 (of_nat n) @ [of_nat (length aad)]"

definition sized :: "nat \<Rightarrow> bytes \<Rightarrow> bytes" where
  "sized n bs = take n (bs @ replicate n 0)"

definition plain_size :: "kem_id \<Rightarrow> nat" where
  "plain_size k = (case k of DhP256HkdfSha256 \<Rightarrow> 65 | DhP384HkdfSha384 \<Rightarrow> 97 | X25519HkdfSha256 \<Rightarrow> 32)"

definition plain_hpke :: "plain_ctx hpke_api" where
  "plain_hpke =
     \<lparr>KEM_ID = (\<lambda>k. case k of DhP256HkdfSha256 \<Rightarrow> 16 | DhP384HkdfSha384 \<Rightarrow> 17 | X25519HkdfSha256 \<Rightarrow> 32),
      KDF_ID = (\<lambda>d. case d of HkdfSha256 \<Rightarrow> 1 | HkdfSha384 \<Rightarrow> 2 | HkdfSha512 \<Rightarrow> 3),
      AEAD_ID = (\<lambda>a. case a of AesGcm128 \<Rightarrow> 1 | AesGcm256 \<Rightarrow> 2 | ChaCha20Poly1305 \<Rightarrow> 3),
      public_key_size = plain_size,
      encapped_key_size = plain_size,
      key_size = (\<lambda>a. case a of AesGcm128 \<Rightarrow> 16 | AesGcm256 \<Rightarrow> 32 | ChaCha20Poly1305 \<Rightarrow> 32),
      nonce_size = (\<lambda>_. 12),
      tag_size = (\<lambda>_. 16),
      derive_keypair = (\<lambda>k ikm. (sized (plain_size k) ikm, sized (plain_size k) ikm)),
      sk_to_pk = (\<lambda>k sk. if length sk = plain_size k then Inr sk else Inl (HpkeOther ''IncorrectInputLength'')),
      setup_sender = (\<lambda>k d a pk info rng.
         if length pk = plain_size k
         then Inr (sized (plain_size k) rng, \<lparr>pc_setup = (a, pk, sized (plain_size k) rng, info), pc_seq = 0\<rparr>)
         else Inl (HpkeOther ''IncorrectInputLength'')),
      setup_receiver = (\<lambda>k d a sk enc info.
         if length sk = plain_size k \<and> length enc = plain_size k
         then Inr \<lparr>pc_setup = (a, sk, enc, info), pc_seq = 0\<rparr>
         else Inl (HpkeOther ''IncorrectInputLength'')),
      export_secret = (\<lambda>c e n. Some (sized n e)),
      ctx_seal = (\<lambda>c pt aad. (Inr (pt, plain_tag (pc_seq c) aad), c\<lparr>pc_seq := Suc (pc_seq c)\<rparr>)),
      ctx_open = (\<lambda>c ct aad tag.
         if tag = plain_tag (pc_seq c) aad then (Inr ct, c\<lparr>pc_seq := Suc (pc_seq c)\<rparr>) else (Inl OpenError, c)),
      hash_size = (\<lambda>d. case d of HkdfSha256 \<Rightarrow> 32 | HkdfSha384 \<Rightarrow> 48 | HkdfSha512 \<Rightarrow> 64),
      hkdf_expand = (\<lambda>d salt ikm info n.
         if n \<le> 255 * (case d of HkdfSha256 \<Rightarrow> 32 | HkdfSha384 \<Rightarrow> 48 | HkdfSha512 \<Rightarrow> 64)
         then Some (sized n salt) else None),
      aead_encrypt = (\<lambda>a key nonce aad pt. Some (pt, plain_tag (length nonce) aad)),
      aead_decrypt = (\<lambda>a key nonce aad ct tag. if tag = plain_tag (length nonce) aad then Some ct else None)\<rparr>"

lemma length_sized [simp]: "length (sized n bs) = n"
  by (simp add: sized_def)

interpretation plain: hpke_crate plain_hpke "\<lambda>_ s r. s = r"
  by unfold_locales
    (auto simp: plain_hpke_def plain_tag_def plain_size_def
      split: kem_id.splits kdf_id.splits aead_id.splits if_splits)

end
