(* ===== verification/Hpke_Keys.thy ===== *)
theory Hpke_Keys
  imports Hpke_Crate
begin

text \<open>
  Algorithm identifiers, keys and the header of an encapsulated request in the crate
  \<^verbatim>\<open>ohttp-hpke\<close>: \<^verbatim>\<open>config.rs\<close>, \<^verbatim>\<open>keys.rs\<close> and
  \<^verbatim>\<open>header.rs\<close> under \<^verbatim>\<open>crates/ohttp-hpke/src\<close>.
\<close>

subsection \<open>Identifiers (config.rs)\<close>

text \<open>The functions that the macro \<^verbatim>\<open>id_enum!\<close> generates, and the lengths.\<close>

definition kem_try_from_u16 :: "'c hpke_api \<Rightarrow> u16 \<Rightarrow> (kem_id, 'e) result" where
  "kem_try_from_u16 hp i =
     (if i = KEM_ID hp DhP256HkdfSha256 then Inr DhP256HkdfSha256
      else if i = KEM_ID hp DhP384HkdfSha384 then Inr DhP384HkdfSha384
      else if i = KEM_ID hp X25519HkdfSha256 then Inr X25519HkdfSha256
      else Inl (invalid_data (InvalidId ''KEM'' i)))"

definition kdf_try_from_u16 :: "'c hpke_api \<Rightarrow> u16 \<Rightarrow> (kdf_id, 'e) result" where
  "kdf_try_from_u16 hp i =
     (if i = KDF_ID hp HkdfSha256 then Inr HkdfSha256
      else if i = KDF_ID hp HkdfSha384 then Inr HkdfSha384
      else if i = KDF_ID hp HkdfSha512 then Inr HkdfSha512
      else Inl (invalid_data (InvalidId ''KDF'' i)))"

definition aead_try_from_u16 :: "'c hpke_api \<Rightarrow> u16 \<Rightarrow> (aead_id, 'e) result" where
  "aead_try_from_u16 hp i =
     (if i = AEAD_ID hp AesGcm128 then Inr AesGcm128
      else if i = AEAD_ID hp AesGcm256 then Inr AesGcm256
      else if i = AEAD_ID hp ChaCha20Poly1305 then Inr ChaCha20Poly1305
      else Inl (invalid_data (InvalidId ''AEAD'' i)))"

definition public_key_len :: "'c hpke_api \<Rightarrow> kem_id \<Rightarrow> nat" where
  "public_key_len hp k = public_key_size hp k"

definition encapped_key_len :: "'c hpke_api \<Rightarrow> kem_id \<Rightarrow> nat" where
  "encapped_key_len hp k = encapped_key_size hp k"

definition key_len :: "'c hpke_api \<Rightarrow> aead_id \<Rightarrow> nat" where
  "key_len hp a = key_size hp a"

definition nonce_len :: "'c hpke_api \<Rightarrow> aead_id \<Rightarrow> nat" where
  "nonce_len hp a = nonce_size hp a"

record 'k key_config =
  kc_key_id :: byte
  kc_key :: 'k
  symmetric_algorithms :: "(kdf_id \<times> aead_id) list"

context hpke_crate
begin

lemma try_from_u16_ids [simp]:
  "kem_try_from_u16 hp (KEM_ID hp k) = Inr k"
  "kdf_try_from_u16 hp (KDF_ID hp d) = Inr d"
  "aead_try_from_u16 hp (AEAD_ID hp a) = Inr a"
proof -
  show "kem_try_from_u16 hp (KEM_ID hp k) = Inr k"
    using KEM_ID_inj by (cases k) (auto simp: kem_try_from_u16_def)
  show "kdf_try_from_u16 hp (KDF_ID hp d) = Inr d"
    using KDF_ID_inj by (cases d) (auto simp: kdf_try_from_u16_def)
  show "aead_try_from_u16 hp (AEAD_ID hp a) = Inr a"
    using AEAD_ID_inj by (cases a) (auto simp: aead_try_from_u16_def)
qed

end

lemma try_from_u16_Inr:
  "kem_try_from_u16 hp i = Inr k \<Longrightarrow> i = KEM_ID hp k"
  "kdf_try_from_u16 hp i = Inr d \<Longrightarrow> i = KDF_ID hp d"
  "aead_try_from_u16 hp i = Inr a \<Longrightarrow> i = AEAD_ID hp a"
  by (auto simp: kem_try_from_u16_def kdf_try_from_u16_def aead_try_from_u16_def split: if_splits)

subsection \<open>Keys (keys.rs)\<close>

record public_key =
  pk_kem_id :: kem_id
  pk_bytes :: bytes

record key_pair =
  kp_public_key :: public_key
  kp_private_key :: bytes

definition kem_derive_keypair_bytes :: "'c hpke_api \<Rightarrow> kem_id \<Rightarrow> bytes \<Rightarrow> bytes \<times> bytes" where
  "kem_derive_keypair_bytes hp k ikm = derive_keypair hp k ikm"

definition derive_key_pair :: "'c hpke_api \<Rightarrow> kem_id \<Rightarrow> bytes \<Rightarrow> key_pair" where
  "derive_key_pair hp k ikm =
     (let (private_key_bytes, public_key_bytes) = kem_derive_keypair_bytes hp k ikm
      in \<lparr>kp_public_key = \<lparr>pk_kem_id = k, pk_bytes = public_key_bytes\<rparr>, kp_private_key = private_key_bytes\<rparr>)"

definition kem_sk_to_pk :: "'c hpke_api \<Rightarrow> kem_id \<Rightarrow> bytes \<Rightarrow> hpke_error + bytes" where
  "kem_sk_to_pk hp k sk = sk_to_pk hp k sk"

definition key_pair_from_secret :: "'c hpke_api \<Rightarrow> kem_id \<Rightarrow> bytes \<Rightarrow> key_pair hresult" where
  "key_pair_from_secret hp k secret =
     (case kem_sk_to_pk hp k secret of
        Inl e \<Rightarrow> Inl (Source e)
      | Inr pk \<Rightarrow> Inr \<lparr>kp_public_key = \<lparr>pk_kem_id = k, pk_bytes = pk\<rparr>, kp_private_key = secret\<rparr>)"

text \<open>A key pair whose public key belongs to its private key.\<close>

definition wf_key_pair :: "'c hpke_api \<Rightarrow> key_pair \<Rightarrow> bool" where
  "wf_key_pair hp kp \<longleftrightarrow>
     sk_to_pk hp (pk_kem_id (kp_public_key kp)) (kp_private_key kp) = Inr (pk_bytes (kp_public_key kp))"

lemma wf_key_pair_from_secret: "key_pair_from_secret hp k sk = Inr kp \<Longrightarrow> wf_key_pair hp kp"
  by (auto simp: key_pair_from_secret_def kem_sk_to_pk_def wf_key_pair_def split: sum.splits)

context hpke_crate
begin

lemma wf_derive_key_pair: "wf_key_pair hp (derive_key_pair hp k ikm)"
  using derive_keypair_public
  by (auto simp: derive_key_pair_def kem_derive_keypair_bytes_def wf_key_pair_def split: prod.split)

end

subsection \<open>The header of an encapsulated request (header.rs)\<close>

record encap_header =
  key_id :: byte
  kem_id :: kem_id
  kdf_id :: kdf_id
  aead_id :: aead_id

definition header_decode :: "octets_api \<Rightarrow> 'c hpke_api \<Rightarrow> ('e stream_buf, encap_header, 'e) async" where
  "header_decode oct hp =
     abind (decode_u8 oct) (\<lambda>key.
     abind (decode_u16 oct) (\<lambda>i.
     abind (alift (kem_try_from_u16 hp i)) (\<lambda>kem.
     abind (decode_u16 oct) (\<lambda>i.
     abind (alift (kdf_try_from_u16 hp i)) (\<lambda>kdf.
     abind (decode_u16 oct) (\<lambda>i.
     abind (alift (aead_try_from_u16 hp i)) (\<lambda>aead.
     aret \<lparr>key_id = key, kem_id = kem, kdf_id = kdf, aead_id = aead\<rparr>)))))))"

definition header_encoded_len :: nat where
  "header_encoded_len = 1 + 2 + 2 + 2"

definition header_put :: "octets_api \<Rightarrow> 'c hpke_api \<Rightarrow> encap_header \<Rightarrow> om_writer" where
  "header_put oct hp h =
     put_all [put_u8 oct (key_id h), put_u16 oct (KEM_ID hp (kem_id h)),
              put_u16 oct (KDF_ID hp (kdf_id h)), put_u16 oct (AEAD_ID hp (aead_id h))]"

definition encoded_info_len :: "bytes \<Rightarrow> nat" where
  "encoded_info_len request_info_str = length request_info_str + 1 + header_encoded_len"

definition put_info :: "octets_api \<Rightarrow> 'c hpke_api \<Rightarrow> encap_header \<Rightarrow> bytes \<Rightarrow> om_writer" where
  "put_info oct hp h request_info_str =
     put_all [put_bytes oct request_info_str, put_u8 oct 0, header_put oct hp h]"

definition encode_info :: "octets_api \<Rightarrow> 'c hpke_api \<Rightarrow> encap_header \<Rightarrow> bytes \<Rightarrow> (bytes, 'e) result" where
  "encode_info oct hp h request_info_str =
     rbind (unwrap_write (put_info oct hp h request_info_str (om_zeroed (encoded_info_len request_info_str)))) (\<lambda>om.
     rbind (debug_assert_eq (om_off om) (length (om_buf om))) (\<lambda>_.
     Inr (om_buf om)))"

text \<open>The bytes of a header, and of the information that binds it to the request.\<close>

definition header_bytes :: "octets_api \<Rightarrow> 'c hpke_api \<Rightarrow> encap_header \<Rightarrow> bytes" where
  "header_bytes oct hp h =
     u8_bytes oct (key_id h) @ u16_bytes oct (KEM_ID hp (kem_id h))
     @ u16_bytes oct (KDF_ID hp (kdf_id h)) @ u16_bytes oct (AEAD_ID hp (aead_id h))"

definition info_bytes :: "octets_api \<Rightarrow> 'c hpke_api \<Rightarrow> encap_header \<Rightarrow> bytes \<Rightarrow> bytes" where
  "info_bytes oct hp h s = s @ u8_bytes oct 0 @ header_bytes oct hp h"

context octets_crate
begin

lemma writes_header: "writes (header_put oct hp h) (header_bytes oct hp h)"
proof -
  have "writes (header_put oct hp h) (concat [u8_bytes oct (key_id h), u16_bytes oct (KEM_ID hp (kem_id h)),
      u16_bytes oct (KDF_ID hp (kdf_id h)), u16_bytes oct (AEAD_ID hp (aead_id h))])"
    unfolding header_put_def by (intro writes_put_all) (simp add: writes_put_u8 writes_put_u16)
  then show ?thesis by (simp add: header_bytes_def)
qed

lemma length_header_bytes: "length (header_bytes oct hp h) = header_encoded_len"
  by (simp add: header_bytes_def header_encoded_len_def)

lemma encode_info_bytes: "encode_info oct hp h s = Inr (info_bytes oct hp h s)"
proof -
  have "writes (put_info oct hp h s) (concat [s, u8_bytes oct 0, header_bytes oct hp h])"
    unfolding put_info_def
    by (intro writes_put_all) (simp add: writes_put_u8 writes_put_bytes writes_header)
  then have "writes (put_info oct hp h s) (info_bytes oct hp h s)" by (simp add: info_bytes_def)
  moreover have "length (info_bytes oct hp h s) = encoded_info_len s"
    by (simp add: info_bytes_def encoded_info_len_def length_header_bytes)
  ultimately show ?thesis
    using writes_exact by (fastforce simp: encode_info_def)
qed

lemma chunk_invariant_header_decode [chunk_inv]: "chunk_invariant (header_decode oct hp)"
  unfolding header_decode_def by (intro chunk_inv)

end

text \<open>Both libraries together.\<close>

locale ohttp = octets_crate oct + hpke_crate hp paired
  for oct :: octets_api and hp :: "'c hpke_api" and paired :: "aead_id \<Rightarrow> 'c \<Rightarrow> 'c \<Rightarrow> bool"
begin

lemma parses_header [parses_rules]:
  "parses (header_decode oct hp) (header_bytes oct hp h @ rest) rest h"
  unfolding header_decode_def header_bytes_def append_assoc
  by (cases h) (auto intro!: parses_abind [OF parses_u8] parses_abind [OF parses_u16] parses_Some)

end

interpretation ohttp_plain: ohttp "rfc9000_octets (2 ^ 64 - 1)" plain_hpke "\<lambda>_ s r. s = r" ..

subsection \<open>Properties\<close>

text \<open>
  Decoding an encoded request header gives the header back and consumes exactly its
  bytes, and encoding it never panics: \<^verbatim>\<open>encoded_len\<close> and
  \<^verbatim>\<open>encoded_info_len\<close> are the lengths of what is written.
\<close>

lemma header_round_trip:
  assumes "octets_crate oct" "hpke_crate hp paired" "wf_buf sb" "avail sb = header_bytes oct hp h @ rest"
  shows "(\<exists>sb'. header_decode oct hp sb = Some (Inr h, sb') \<and> avail sb' = rest \<and> tail sb' = tail sb)
    \<and> header_put oct hp h (om_zeroed header_encoded_len)
        = Some \<lparr>om_buf = header_bytes oct hp h, om_off = header_encoded_len\<rparr>
    \<and> encode_info oct hp h s = Inr (s @ u8_bytes oct 0 @ header_bytes oct hp h)"
proof -
  have "parses (header_decode oct hp) (header_bytes oct hp h @ rest) rest h"
    by (rule ohttp.parses_header [OF ohttp.intro [OF assms(1,2)]])
  from parses_view [OF octets_crate.chunk_invariant_header_decode [OF assms(1)] this assms(3,4)]
  have "\<exists>sb'. header_decode oct hp sb = Some (Inr h, sb') \<and> avail sb' = rest \<and> tail sb' = tail sb"
    by blast
  then show ?thesis
    by (simp add: octets_crate.encode_info_bytes [OF assms(1)] info_bytes_def
        writes_exact [OF octets_crate.writes_header octets_crate.length_header_bytes, OF assms(1,1)])
qed

lemma header_round_trip_witness:
  "\<exists>sb'. header_decode (rfc9000_octets (2 ^ 64 - 1)) plain_hpke
       (stream_buf_from (header_bytes (rfc9000_octets (2 ^ 64 - 1)) plain_hpke
          \<lparr>key_id = 7, kem_id = X25519HkdfSha256, kdf_id = HkdfSha256, aead_id = AesGcm128\<rparr> @ [42]) :: unit stream_buf)
     = Some (Inr \<lparr>key_id = 7, kem_id = X25519HkdfSha256, kdf_id = HkdfSha256, aead_id = AesGcm128\<rparr>, sb')
   \<and> avail sb' = [42]"
  using header_round_trip [OF native.octets_crate_axioms plain.hpke_crate_axioms, where rest = "[42]"
      and sb = "stream_buf_from (header_bytes (rfc9000_octets (2 ^ 64 - 1)) plain_hpke
          \<lparr>key_id = 7, kem_id = X25519HkdfSha256, kdf_id = HkdfSha256, aead_id = AesGcm128\<rparr> @ [42])"]
  by auto

end
