(* ===== verification/Hpke_Config.thy ===== *)
theory Hpke_Config
  imports Hpke_Keys
begin

text \<open>
  The key configuration of Oblivious HTTP (RFC 9458, section 3) as the server builds and
  publishes it (\<^verbatim>\<open>ServerConfig\<close>, \<^verbatim>\<open>encode_config\<close> in
  \<^verbatim>\<open>crates/ohttp-hpke/src/server.rs\<close>) and as the client reads it
  (\<^verbatim>\<open>KeyConfig::decode\<close>, \<^verbatim>\<open>decode_config\<close>,
  \<^verbatim>\<open>first_encap_config\<close> in \<^verbatim>\<open>client.rs\<close>).
\<close>

subsection \<open>The server's side\<close>

record server_config =
  sc_key_configs :: "key_pair key_config list"

definition default_server_config :: server_config where
  "default_server_config = \<lparr>sc_key_configs = []\<rparr>"

definition key_config_encoded_len :: "key_pair key_config \<Rightarrow> nat" where
  "key_config_encoded_len kc =
     1 + 2 + length (pk_bytes (kp_public_key (kc_key kc))) + 2 + length (symmetric_algorithms kc) * 4"

text \<open>\<^verbatim>\<open>expect\<close> and \<^verbatim>\<open>assert!\<close> are branches that panic.\<close>

definition add_key_config ::
  "key_pair \<Rightarrow> (kdf_id \<times> aead_id) list \<Rightarrow> server_config \<Rightarrow> unit hresult \<times> server_config" where
  "add_key_config pair algs sc =
     (if 2 ^ 8 \<le> length (sc_key_configs sc) then (Inl (Panicked ''too many keys''), sc)
      else if algs = [] then (Inl (Panicked ''no symmetric algorithms''), sc)
      else if 2 ^ 16 - 1 < length algs * 4 then (Inl (Panicked ''too many symmetric algorithms''), sc)
      else let kc = \<lparr>kc_key_id = of_nat (length (sc_key_configs sc)), kc_key = pair, symmetric_algorithms = algs\<rparr>
           in if 2 ^ 16 - 1 < key_config_encoded_len kc + 2
              then (Inl (Panicked ''key config too large''), sc)
              else (Inr (), sc\<lparr>sc_key_configs := sc_key_configs sc @ [kc]\<rparr>))"

definition get_key_pair :: "server_config \<Rightarrow> encap_header \<Rightarrow> (key_pair, 'e) result" where
  "get_key_pair sc h =
     (if length (sc_key_configs sc) \<le> unat (key_id h)
      then Inl (invalid_data (UnknownKeyId (key_id h)))
      else let kc = sc_key_configs sc ! unat (key_id h)
           in if kem_id h \<noteq> pk_kem_id (kp_public_key (kc_key kc))
              then Inl (invalid_data (WrongKemId (key_id h)))
              else if (kdf_id h, aead_id h) \<notin> set (symmetric_algorithms kc)
              then Inl (invalid_data (InvalidAlgo (key_id h)))
              else Inr (kc_key kc))"

definition key_config_put :: "octets_api \<Rightarrow> 'c hpke_api \<Rightarrow> key_pair key_config \<Rightarrow> om_writer" where
  "key_config_put oct hp kc =
     put_all
       [put_u8 oct (kc_key_id kc),
        put_u16 oct (KEM_ID hp (pk_kem_id (kp_public_key (kc_key kc)))),
        put_bytes oct (pk_bytes (kp_public_key (kc_key kc))),
        put_u16 oct (of_nat (length (symmetric_algorithms kc)) * 4),
        put_all (map (\<lambda>(d, a). put_all [put_u16 oct (KDF_ID hp d), put_u16 oct (AEAD_ID hp a)])
          (symmetric_algorithms kc))]"

definition server_config_put :: "octets_api \<Rightarrow> 'c hpke_api \<Rightarrow> server_config \<Rightarrow> om_writer" where
  "server_config_put oct hp sc =
     put_all (map (\<lambda>kc. put_all
        [put_u16 oct (of_nat (key_config_encoded_len kc)), key_config_put oct hp kc]) (sc_key_configs sc))"

definition server_config_encoded_len :: "server_config \<Rightarrow> nat" where
  "server_config_encoded_len sc = sum_list (map (\<lambda>kc. 2 + key_config_encoded_len kc) (sc_key_configs sc))"

definition encode_config :: "octets_api \<Rightarrow> 'c hpke_api \<Rightarrow> server_config \<Rightarrow> (bytes, 'e) result" where
  "encode_config oct hp sc =
     (let encoded_len = server_config_encoded_len sc
      in rbind (unwrap_write (server_config_put oct hp sc (om_zeroed encoded_len))) (\<lambda>om.
         rbind (debug_assert_eq (om_off om) encoded_len) (\<lambda>_.
         Inr (om_buf om))))"

subsection \<open>The client's side\<close>

record client_config =
  cc_key_configs :: "public_key key_config list"

text \<open>The symmetric algorithms: as many pairs as announced, ended by the first error.\<close>

fun decode_algorithms ::
  "octets_api \<Rightarrow> 'c hpke_api \<Rightarrow> nat \<Rightarrow> bytes \<Rightarrow> ((kdf_id \<times> aead_id) list, 'e) result" where
  "decode_algorithms oct hp 0 b = Inr []"
| "decode_algorithms oct hp (Suc n) b =
     rbind (ok_or BufferTooShort (get_u16 oct b)) (\<lambda>(i, b1).
     rbind (kdf_try_from_u16 hp i) (\<lambda>kdf.
     rbind (ok_or BufferTooShort (get_u16 oct b1)) (\<lambda>(j, b2).
     rbind (aead_try_from_u16 hp j) (\<lambda>aead.
     rbind (decode_algorithms oct hp n b2) (\<lambda>rest.
     Inr ((kdf, aead) # rest))))))"

definition key_config_decode ::
  "octets_api \<Rightarrow> 'c hpke_api \<Rightarrow> bytes \<Rightarrow> (public_key key_config, 'e) result" where
  "key_config_decode oct hp b =
     rbind (ok_or BufferTooShort (get_u8 oct b)) (\<lambda>(key, b1).
     rbind (ok_or BufferTooShort (get_u16 oct b1)) (\<lambda>(i, b2).
     rbind (kem_try_from_u16 hp i) (\<lambda>kem.
     rbind (ok_or BufferTooShort (get_bytes oct (public_key_len hp kem) b2)) (\<lambda>(pk, b3).
     rbind (ok_or BufferTooShort (get_u16 oct b3)) (\<lambda>(algs_len, b4).
     if algs_len = 0 \<or> algs_len mod 4 \<noteq> 0 \<or> length b4 < unat algs_len
     then Inl (invalid_data (InvalidSymmetricAlgorithmsLength algs_len))
     else rbind (decode_algorithms oct hp (unat (algs_len div 4)) b4) (\<lambda>algs.
          Inr \<lparr>kc_key_id = key, kc_key = \<lparr>pk_kem_id = kem, pk_bytes = pk\<rparr>,
               symmetric_algorithms = algs\<rparr>))))))"

text \<open>One round of the loop of \<^verbatim>\<open>decode_config\<close>; a key it cannot decode is skipped.\<close>

definition decode_key_config_round ::
  "octets_api \<Rightarrow> 'c hpke_api \<Rightarrow> public_key key_config list
     \<Rightarrow> ('e stream_buf, public_key key_config list \<times> bool, 'e) async" where
  "decode_key_config_round oct hp kcs =
     abind has_more_data (\<lambda>has_data.
     if \<not> has_data then aret (kcs, False)
     else abind (decode_u16 oct) (\<lambda>encoded_len.
          abind (read_exact (unat encoded_len)) (\<lambda>b.
          aret ((case (key_config_decode oct hp b :: (public_key key_config, 'e) result) of
                   Inr kc \<Rightarrow> kcs @ [kc] | Inl _ \<Rightarrow> kcs), True))))"

definition decode_config ::
  "octets_api \<Rightarrow> 'c hpke_api \<Rightarrow> ('e stream_buf, client_config, 'e) async" where
  "decode_config oct hp =
     abind (aloop (decode_key_config_round oct hp) []) (\<lambda>kcs.
     alift (if kcs = [] then Inl (unexpected_eof ''no key config found'')
            else Inr \<lparr>cc_key_configs = kcs\<rparr>))"

record encap_config =
  ec_key_id :: byte
  ec_public_key :: public_key
  ec_kdf_id :: kdf_id
  ec_aead_id :: aead_id

text \<open>\<^verbatim>\<open>first_encap_config\<close>: indexing an empty vector panics.\<close>

definition first_encap_config :: "client_config \<Rightarrow> (encap_config, 'e) result" where
  "first_encap_config cc =
     (case cc_key_configs cc of
        [] \<Rightarrow> Inl (Panicked ''index out of bounds'')
      | kc # _ \<Rightarrow>
          (case symmetric_algorithms kc of
             [] \<Rightarrow> Inl (Panicked ''index out of bounds'')
           | (d, a) # _ \<Rightarrow>
               Inr \<lparr>ec_key_id = kc_key_id kc, ec_public_key = kc_key kc, ec_kdf_id = d, ec_aead_id = a\<rparr>))"

subsection \<open>The invariant of a server configuration\<close>

definition wf_key_config :: "'c hpke_api \<Rightarrow> nat \<Rightarrow> key_pair key_config \<Rightarrow> bool" where
  "wf_key_config hp i kc \<longleftrightarrow> kc_key_id kc = of_nat i \<and> wf_key_pair hp (kc_key kc)
     \<and> symmetric_algorithms kc \<noteq> [] \<and> key_config_encoded_len kc + 2 < 2 ^ 16"

definition wf_server_config :: "'c hpke_api \<Rightarrow> server_config \<Rightarrow> bool" where
  "wf_server_config hp sc \<longleftrightarrow> length (sc_key_configs sc) \<le> 2 ^ 8
     \<and> (\<forall>i < length (sc_key_configs sc). wf_key_config hp i (sc_key_configs sc ! i))"

lemma wf_default_server_config: "wf_server_config hp default_server_config"
  by (simp add: wf_server_config_def default_server_config_def)

lemma wf_add_key_config:
  assumes "wf_server_config hp sc" "wf_key_pair hp pair"
  shows "wf_server_config hp (snd (add_key_config pair algs sc))"
  using assms
  by (auto simp: add_key_config_def Let_def wf_server_config_def wf_key_config_def nth_append
      less_Suc_eq)

subsection \<open>Encoding\<close>

definition algorithms_bytes :: "octets_api \<Rightarrow> 'c hpke_api \<Rightarrow> (kdf_id \<times> aead_id) list \<Rightarrow> bytes" where
  "algorithms_bytes oct hp algs =
     concat (map (\<lambda>(d, a). u16_bytes oct (KDF_ID hp d) @ u16_bytes oct (AEAD_ID hp a)) algs)"

definition key_config_bytes :: "octets_api \<Rightarrow> 'c hpke_api \<Rightarrow> key_pair key_config \<Rightarrow> bytes" where
  "key_config_bytes oct hp kc =
     u8_bytes oct (kc_key_id kc) @ u16_bytes oct (KEM_ID hp (pk_kem_id (kp_public_key (kc_key kc))))
     @ pk_bytes (kp_public_key (kc_key kc))
     @ u16_bytes oct (of_nat (length (symmetric_algorithms kc)) * 4)
     @ algorithms_bytes oct hp (symmetric_algorithms kc)"

definition config_bytes :: "octets_api \<Rightarrow> 'c hpke_api \<Rightarrow> key_pair key_config list \<Rightarrow> bytes" where
  "config_bytes oct hp kcs =
     concat (map (\<lambda>kc. u16_bytes oct (of_nat (key_config_encoded_len kc)) @ key_config_bytes oct hp kc) kcs)"

context octets_crate
begin

lemma writes_algorithms:
  "writes (put_all (map (\<lambda>(d, a). put_all [put_u16 oct (KDF_ID hp d), put_u16 oct (AEAD_ID hp a)]) algs))
     (algorithms_bytes oct hp algs)"
  unfolding algorithms_bytes_def
proof (rule writes_put_all_map, clarify)
  fix d a
  have "writes (put_all [put_u16 oct (KDF_ID hp d), put_u16 oct (AEAD_ID hp a)])
      (concat [u16_bytes oct (KDF_ID hp d), u16_bytes oct (AEAD_ID hp a)])"
    by (intro writes_put_all) (simp add: writes_put_u16)
  then show "writes (put_all [put_u16 oct (KDF_ID hp d), put_u16 oct (AEAD_ID hp a)])
      (u16_bytes oct (KDF_ID hp d) @ u16_bytes oct (AEAD_ID hp a))" by simp
qed

lemma writes_key_config: "writes (key_config_put oct hp kc) (key_config_bytes oct hp kc)"
proof -
  have "writes (key_config_put oct hp kc)
     (concat [u8_bytes oct (kc_key_id kc), u16_bytes oct (KEM_ID hp (pk_kem_id (kp_public_key (kc_key kc)))),
       pk_bytes (kp_public_key (kc_key kc)), u16_bytes oct (of_nat (length (symmetric_algorithms kc)) * 4),
       algorithms_bytes oct hp (symmetric_algorithms kc)])"
    unfolding key_config_put_def
    by (intro writes_put_all) (simp add: writes_put_u8 writes_put_u16 writes_put_bytes writes_algorithms)
  then show ?thesis by (simp add: key_config_bytes_def)
qed

lemma writes_server_config: "writes (server_config_put oct hp sc) (config_bytes oct hp (sc_key_configs sc))"
  unfolding server_config_put_def config_bytes_def
proof (rule writes_put_all_map)
  fix kc
  have "writes (put_all [put_u16 oct (of_nat (key_config_encoded_len kc)), key_config_put oct hp kc])
      (concat [u16_bytes oct (of_nat (key_config_encoded_len kc)), key_config_bytes oct hp kc])"
    by (intro writes_put_all) (simp add: writes_put_u16 writes_key_config)
  then show "writes (put_all [put_u16 oct (of_nat (key_config_encoded_len kc)), key_config_put oct hp kc])
      (u16_bytes oct (of_nat (key_config_encoded_len kc)) @ key_config_bytes oct hp kc)" by simp
qed

lemma length_algorithms: "length (algorithms_bytes oct hp algs) = length algs * 4"
  by (induction algs) (auto simp: algorithms_bytes_def)

lemma length_key_config: "length (key_config_bytes oct hp kc) = key_config_encoded_len kc"
  by (simp add: key_config_bytes_def key_config_encoded_len_def length_algorithms)

lemma length_config: "length (config_bytes oct hp (sc_key_configs sc)) = server_config_encoded_len sc"
proof -
  have "length (config_bytes oct hp kcs) = sum_list (map (\<lambda>kc. 2 + key_config_encoded_len kc) kcs)" for kcs
    by (induction kcs) (auto simp: config_bytes_def length_key_config)
  then show ?thesis by (simp add: server_config_encoded_len_def)
qed

lemma encode_config_bytes: "encode_config oct hp sc = Inr (config_bytes oct hp (sc_key_configs sc))"
  by (simp add: encode_config_def Let_def writes_exact [OF writes_server_config length_config])

end

subsection \<open>Decoding\<close>

lemma decode_algorithms_length:
  "decode_algorithms oct hp n b = Inr algs \<Longrightarrow> length algs = n"
  by (induction n arbitrary: b algs) (auto simp: rbind_eq_Inr_iff split: prod.splits)

text \<open>A key configuration that decodes has an algorithm.\<close>

lemma key_config_decode_algorithms:
  assumes "key_config_decode oct hp b = (Inr kc :: (_, 'e) result)"
  shows "symmetric_algorithms kc \<noteq> []"
proof -
  from assms obtain algs_len b4 where
    nz: "algs_len \<noteq> 0" "4 dvd (algs_len :: u16)"
    and algs: "decode_algorithms oct hp (unat (algs_len div 4)) b4 = (Inr (symmetric_algorithms kc) :: (_, 'e) result)"
    by (auto simp: key_config_decode_def rbind_eq_Inr_iff split: prod.splits if_splits)
  from nz(2) obtain k where "algs_len = 4 * k" ..
  then have "unat algs_len = 4 * unat k mod 2 ^ 16" by (simp add: unat_word_ariths)
  then have "4 dvd unat algs_len" by (simp add: dvd_mod)
  moreover have "unat algs_len \<noteq> 0" using nz(1) by (simp add: unat_eq_0)
  ultimately have "unat (algs_len div 4) \<noteq> 0" by (auto simp: unat_div elim!: dvdE)
  with decode_algorithms_length [OF algs] show ?thesis by auto
qed

context octets_crate
begin

lemma consumes_u16: "consumes (decode_u16 oct)"
  unfolding decode_with_folds by (rule u16.consumes_decode_with)

lemma chunk_invariant_config_round: "chunk_invariant (decode_key_config_round oct hp kcs)"
  unfolding decode_key_config_round_def by (intro chunk_inv) (auto intro!: chunk_inv)

lemma config_round_consumes:
  fixes sb :: "'e stream_buf"
  assumes wf: "wf_buf sb" and r: "decode_key_config_round oct hp kcs sb = Some (Inr (kcs', True), s)"
  shows "length (avail s) < length (avail sb)"
proof -
  let ?rest = "\<lambda>encoded_len. abind (read_exact (unat (encoded_len :: u16))) (\<lambda>b.
          aret ((case (key_config_decode oct hp b :: (public_key key_config, 'e) result) of
                   Inr kc \<Rightarrow> kcs @ [kc] | Inl _ \<Rightarrow> kcs), True))"
  have c: "consumes (abind (decode_u16 oct) ?rest)"
    by (intro consumes_abind1 consumes_u16 chunk_inv)
  from r obtain d s' where m: "has_more_data sb = Some (Inr d, s')"
    "(if \<not> d then aret (kcs, False) else abind (decode_u16 oct) ?rest) s' = Some (Inr (kcs', True), s)"
    by (auto simp: decode_key_config_round_def abind_def [of has_more_data]
        split: Option.bind_splits sum.splits)
  with chunk_invariant_shrinks [OF chunk_invariant_has_more_data wf m(1)] c show ?thesis
    by (cases d) (fastforce simp: consumes_def)+
qed

lemma chunk_invariant_decode_config: "chunk_invariant (decode_config oct hp)"
  unfolding decode_config_def
  by (intro chunk_inv chunk_invariant_aloop [OF chunk_invariant_config_round config_round_consumes])

end

subsection \<open>The client reads what the server publishes\<close>

definition public_config :: "key_pair key_config \<Rightarrow> public_key key_config" where
  "public_config kc = \<lparr>kc_key_id = kc_key_id kc, kc_key = kp_public_key (kc_key kc),
     symmetric_algorithms = symmetric_algorithms kc\<rparr>"

lemma quadruple_u16:
  assumes "n * 4 < 2 ^ 16"
  shows "unat (of_nat n * 4 :: u16) = n * 4" "(of_nat n * 4 :: u16) mod 4 = 0"
    "unat ((of_nat n * 4 :: u16) div 4) = n" "of_nat n * 4 = (0 :: u16) \<longleftrightarrow> n = 0"
proof -
  show u: "unat (of_nat n * 4 :: u16) = n * 4"
    using assms by (simp add: unat_word_ariths unat_of_nat mod_mult_left_eq)
  then have "unat ((of_nat n * 4 :: u16) mod 4) = 0" by (simp add: unat_mod)
  then show "(of_nat n * 4 :: u16) mod 4 = 0" by (simp only: unat_eq_0)
  from u show "unat ((of_nat n * 4 :: u16) div 4) = n" by (simp add: unat_div)
  from u show "of_nat n * 4 = (0 :: u16) \<longleftrightarrow> n = 0" by (metis mult_eq_0_iff unat_eq_0 zero_neq_numeral)
qed

context ohttp
begin

lemma decode_algorithms_bytes:
  "decode_algorithms oct hp (length algs) (algorithms_bytes oct hp algs @ rest) = Inr algs"
proof (induction algs)
  case (Cons x algs)
  then show ?case
    by (cases x) (simp add: algorithms_bytes_def get_u16_append)
qed simp

lemma key_config_decode_bytes:
  assumes "wf_key_config hp i kc"
  shows "key_config_decode oct hp (key_config_bytes oct hp kc) = Inr (public_config kc)"
proof -
  let ?pk = "kp_public_key (kc_key kc)" and ?n = "length (symmetric_algorithms kc)"
  from assms have size: "length (pk_bytes ?pk) = public_key_len hp (pk_kem_id ?pk)"
    by (auto simp: wf_key_config_def wf_key_pair_def public_key_len_def dest: sk_to_pk_size)
  from assms have "?n * 4 < 2 ^ 16" "symmetric_algorithms kc \<noteq> []"
    by (auto simp: wf_key_config_def key_config_encoded_len_def)
  note q = quadruple_u16 [OF this(1)] this
  have algs: "decode_algorithms oct hp ?n (algorithms_bytes oct hp (symmetric_algorithms kc)) =
      Inr (symmetric_algorithms kc)"
    using decode_algorithms_bytes [of "symmetric_algorithms kc" "[]"] by simp
  show ?thesis
    unfolding key_config_decode_def key_config_bytes_def
    by (simp add: get_u8_append get_u16_append get_bytes_spec size q algs length_algorithms
        public_config_def del: mult_eq_0_iff)
qed

lemma parses_config_round:
  assumes "wf_key_config hp i kc"
  shows "parses (decode_key_config_round oct hp kcs)
     (u16_bytes oct (of_nat (key_config_encoded_len kc)) @ key_config_bytes oct hp kc @ rest) rest
     (kcs @ [public_config kc], True)"
proof -
  have "u16_bytes oct (of_nat (key_config_encoded_len kc)) \<noteq> []"
    using length_encodings(2) by (metis list.size(3) zero_neq_numeral)
  moreover from assms have "unat (of_nat (key_config_encoded_len kc) :: u16) = length (key_config_bytes oct hp kc)"
    by (simp add: length_key_config wf_key_config_def unat_of_nat)
  ultimately show ?thesis
    unfolding decode_key_config_round_def
    by (auto intro!: parses_abind [OF parses_has_more_data] parses_abind [OF parses_u16]
        parses_abind [OF parses_read_exact] parses_aret simp: key_config_decode_bytes [OF assms])
qed

lemma decode_rounds:
  "list_all (\<lambda>kc. \<exists>i. wf_key_config hp i kc) kcs \<Longrightarrow>
   aloop (decode_key_config_round oct hp) acc \<lparr>max_buf_size = n, buf = config_bytes oct hp kcs, stream = [] :: 'e stream\<rparr>
     = Some (Inr (acc @ map public_config kcs), \<lparr>max_buf_size = n, buf = [], stream = []\<rparr>)"
proof (induction kcs arbitrary: acc)
  case Nil
  show ?case
    by (simp add: aloop_unfold [of _ acc] decode_key_config_round_def config_bytes_def abind_def
        has_more_data_unfold)
next
  case (Cons kc kcs)
  from Cons.prems obtain i where "wf_key_config hp i kc" by auto
  then have "parses (decode_key_config_round oct hp acc :: ('e stream_buf, _, 'e) async)
      (u16_bytes oct (of_nat (key_config_encoded_len kc)) @ key_config_bytes oct hp kc @ config_bytes oct hp kcs)
      (config_bytes oct hp kcs) (acc @ [public_config kc], True)"
    by (rule parses_config_round)
  with Cons show ?case
    unfolding aloop_unfold [of _ acc]
    by (simp add: parses_def abind_def [of "decode_key_config_round oct hp acc"] config_bytes_def)
qed

lemma decode_encoded_config:
  fixes sb :: "'e stream_buf"
  assumes wf: "wf_server_config hp sc" and ne: "sc_key_configs sc \<noteq> []"
    and sb: "wf_buf sb" "avail sb = config_bytes oct hp (sc_key_configs sc)" "tail sb = None"
  shows "\<exists>sb'. decode_config oct hp sb =
    Some (Inr \<lparr>cc_key_configs = map public_config (sc_key_configs sc)\<rparr>, sb')"
proof -
  let ?full = "stream_buf_from (config_bytes oct hp (sc_key_configs sc)) :: 'e stream_buf"
  from wf have "list_all (\<lambda>kc. \<exists>i. wf_key_config hp i kc) (sc_key_configs sc)"
    by (auto simp: wf_server_config_def list_all_length)
  then have full: "decode_config oct hp ?full =
      Some (Inr \<lparr>cc_key_configs = map public_config (sc_key_configs sc)\<rparr>, ?full\<lparr>buf := []\<rparr>)"
    using ne by (simp add: decode_config_def abind_def stream_buf_from_def decode_rounds)
  have "same_view ?full sb" using sb by (simp add: same_view_def)
  with sb(1) have "same_outcome (decode_config oct hp ?full) (decode_config oct hp sb)"
    by (intro chunk_invariantD [OF chunk_invariant_decode_config]) simp_all
  with full show ?thesis by (auto elim: same_outcome_cases)
qed

end

text \<open>Every key configuration that the client keeps has an algorithm.\<close>

lemma decode_config_usable:
  fixes sb :: "'e stream_buf"
  assumes "decode_config oct hp sb = Some (Inr cc, sb')"
  shows "cc_key_configs cc \<noteq> [] \<and> list_all (\<lambda>kc. symmetric_algorithms kc \<noteq> []) (cc_key_configs cc)"
proof -
  from assms obtain kcs s where loop: "aloop (decode_key_config_round oct hp) [] sb = Some (Inr kcs, s)"
    and cc: "kcs \<noteq> []" "cc_key_configs cc = kcs"
    by (auto simp: decode_config_def abind_def split: Option.bind_splits sum.splits if_splits)
  have "list_all (\<lambda>kc. symmetric_algorithms kc \<noteq> []) kcs"
  proof (rule aloop_invariant [OF _ loop])
    fix a a' and s s' :: "'e stream_buf" and go_on
    assume "list_all (\<lambda>kc. symmetric_algorithms kc \<noteq> []) a"
      and "decode_key_config_round oct hp a s = Some (Inr (a', go_on), s')"
    then show "list_all (\<lambda>kc. symmetric_algorithms kc \<noteq> []) a'"
      by (auto simp: decode_key_config_round_def abind_def
          split: Option.bind_splits sum.splits if_splits)
        (metis key_config_decode_algorithms)
  qed simp
  with cc show ?thesis by simp
qed

text \<open>A header built from a published key is accepted and finds its key pair.\<close>

lemma get_key_pair_published:
  assumes wf: "wf_server_config hp sc" and i: "i < length (sc_key_configs sc)"
    and alg: "(d, a) \<in> set (symmetric_algorithms (sc_key_configs sc ! i))"
  shows "get_key_pair sc \<lparr>key_id = kc_key_id (sc_key_configs sc ! i),
      kem_id = pk_kem_id (kp_public_key (kc_key (sc_key_configs sc ! i))), kdf_id = d, aead_id = a\<rparr>
    = Inr (kc_key (sc_key_configs sc ! i))"
proof -
  from wf i have "kc_key_id (sc_key_configs sc ! i) = of_nat i" "i < 2 ^ 8"
    by (auto simp: wf_server_config_def wf_key_config_def)
  then have "unat (kc_key_id (sc_key_configs sc ! i)) = i" by (simp add: unat_of_nat)
  with i alg show ?thesis by (simp add: get_key_pair_def Let_def)
qed

subsection \<open>Properties\<close>

definition demo_config :: server_config where
  "demo_config = snd (add_key_config (derive_key_pair plain_hpke X25519HkdfSha256 [1, 2, 3])
     [(HkdfSha256, AesGcm128), (HkdfSha512, ChaCha20Poly1305)] default_server_config)"

lemma demo_config_wf: "wf_server_config plain_hpke demo_config"
  unfolding demo_config_def
  by (intro wf_add_key_config wf_default_server_config plain.wf_derive_key_pair)

lemma demo_config_nonempty: "sc_key_configs demo_config \<noteq> []"
  by (simp add: demo_config_def add_key_config_def default_server_config_def Let_def
      key_config_encoded_len_def derive_key_pair_def kem_derive_keypair_bytes_def plain_hpke_def
      plain_size_def)

text \<open>
  C16: adding a key keeps the invariant of the server's configuration, whether it succeeds or
  panics: every key's identifier is its position, its public key belongs to its private
  key, it has an algorithm and its encoding fits its 16-bit length prefix.
\<close>

theorem add_key_config_invariant:
  assumes "wf_server_config hp sc" "wf_key_pair hp pair"
  shows "wf_server_config hp (snd (add_key_config pair algs sc))"
  using assms by (rule wf_add_key_config)

theorem add_key_config_invariant_witness:
  "wf_server_config plain_hpke (snd (add_key_config (derive_key_pair plain_hpke DhP256HkdfSha256 [])
     [(HkdfSha256, AesGcm128)] demo_config))"
  by (rule add_key_config_invariant [OF demo_config_wf plain.wf_derive_key_pair])

text \<open>
  C15: the client decodes a published configuration to exactly the server's keys, in order,
  with their identifiers, KEMs and algorithms; encoding it never panics, as the computed
  length is the length of what is written.
\<close>

theorem config_round_trip:
  assumes "octets_crate oct" "hpke_crate hp paired" "wf_server_config hp sc" "sc_key_configs sc \<noteq> []"
    and "wf_buf sb" "tail sb = None" "encode_config oct hp sc = Inr (avail sb)"
  shows "\<exists>sb'. decode_config oct hp sb =
    Some (Inr \<lparr>cc_key_configs = map public_config (sc_key_configs sc)\<rparr>, sb')"
  using ohttp.decode_encoded_config [OF ohttp.intro [OF assms(1,2)] assms(3-5) _ assms(6)] assms(7)
  by (simp add: octets_crate.encode_config_bytes [OF assms(1)])

theorem config_round_trip_witness:
  "\<exists>bs sb'. encode_config (rfc9000_octets (2 ^ 64 - 1)) plain_hpke demo_config = (Inr bs :: (bytes, unit) result)
    \<and> decode_config (rfc9000_octets (2 ^ 64 - 1)) plain_hpke (stream_buf_from bs :: unit stream_buf) =
        Some (Inr \<lparr>cc_key_configs = map public_config (sc_key_configs demo_config)\<rparr>, sb')"
  using config_round_trip [OF native.octets_crate_axioms plain.hpke_crate_axioms demo_config_wf demo_config_nonempty,
      of "stream_buf_from (config_bytes (rfc9000_octets (2 ^ 64 - 1)) plain_hpke (sc_key_configs demo_config))"]
  by (simp add: native.encode_config_bytes [simplified])

text \<open>
  \<^verbatim>\<open>first_encap_config\<close> never panics on a configuration that
  \<^verbatim>\<open>decode_config\<close> accepted, whatever bytes it was decoded from.
\<close>

lemma first_encap_config_total:
  assumes "decode_config oct hp sb = Some (Inr cc, sb')"
  shows "\<exists>ec. first_encap_config cc = Inr ec"
  using decode_config_usable [OF assms]
  by (auto simp: first_encap_config_def split: list.splits)

lemma first_encap_config_total_witness:
  "\<exists>cc sb' ec. decode_config (rfc9000_octets (2 ^ 64 - 1)) plain_hpke
      (stream_buf_from (config_bytes (rfc9000_octets (2 ^ 64 - 1)) plain_hpke (sc_key_configs demo_config)) :: unit stream_buf)
        = Some (Inr cc, sb')
    \<and> first_encap_config cc = (Inr ec :: (encap_config, unit) result)"
proof -
  obtain cc sb' where "decode_config (rfc9000_octets (2 ^ 64 - 1)) plain_hpke
      (stream_buf_from (config_bytes (rfc9000_octets (2 ^ 64 - 1)) plain_hpke (sc_key_configs demo_config)) :: unit stream_buf)
        = Some (Inr cc, sb')"
    using ohttp_plain.decode_encoded_config [OF demo_config_wf demo_config_nonempty,
        of "stream_buf_from (config_bytes (rfc9000_octets (2 ^ 64 - 1)) plain_hpke (sc_key_configs demo_config))"]
    by auto
  with first_encap_config_total [OF this] show ?thesis by blast
qed

text \<open>
  A header that names a published key and one of its algorithms is accepted by the
  server and finds exactly that key pair.
\<close>

lemma published_key_accepted:
  assumes "wf_server_config hp sc" "i < length (sc_key_configs sc)"
    and "(d, a) \<in> set (symmetric_algorithms (sc_key_configs sc ! i))"
  shows "get_key_pair sc \<lparr>key_id = kc_key_id (sc_key_configs sc ! i),
      kem_id = pk_kem_id (kp_public_key (kc_key (sc_key_configs sc ! i))), kdf_id = d, aead_id = a\<rparr>
    = Inr (kc_key (sc_key_configs sc ! i))"
  using assms by (rule get_key_pair_published)

lemma published_key_accepted_witness:
  "\<exists>kp. get_key_pair demo_config \<lparr>key_id = kc_key_id (sc_key_configs demo_config ! 0),
      kem_id = pk_kem_id (kp_public_key (kc_key (sc_key_configs demo_config ! 0))),
      kdf_id = HkdfSha512, aead_id = ChaCha20Poly1305\<rparr> = (Inr kp :: (key_pair, unit) result)"
proof -
  have "(HkdfSha512, ChaCha20Poly1305) \<in> set (symmetric_algorithms (sc_key_configs demo_config ! 0))"
    by (simp add: demo_config_def add_key_config_def default_server_config_def Let_def
      key_config_encoded_len_def derive_key_pair_def kem_derive_keypair_bytes_def plain_hpke_def
      plain_size_def)
  then show ?thesis
    using demo_config_nonempty by (simp add: published_key_accepted [OF demo_config_wf])
qed

end
