(* ===== verification/Hpke_Response.thy ===== *)
theory Hpke_Response
  imports Hpke_Keys
begin

unbundle bit_operations_syntax

text \<open>
  The keys, nonces and contexts that protect messages: \<^verbatim>\<open>instance.rs\<close> and
  \<^verbatim>\<open>response.rs\<close> of \<^verbatim>\<open>crates/ohttp-hpke/src\<close>, and the two wrappers of
  an HPKE context in \<^verbatim>\<open>client.rs\<close> (\<^verbatim>\<open>RequestSealer\<close>) and
  \<^verbatim>\<open>server.rs\<close> (\<^verbatim>\<open>RequestOpener\<close>). The traits
  \<^verbatim>\<open>SealInPlace\<close> and \<^verbatim>\<open>OpenInPlace\<close> are one contract, the locale
  \<open>sealing\<close>: what a sealer seals, the opener that agrees with it opens. Both pairs
  of implementations are shown to satisfy it.
\<close>

subsection \<open>The contract of sealers and openers\<close>

text \<open>
  A seal returns the encrypted buffer and the tag, an open the plaintext; both return the
  context they leave.
\<close>

locale sealing =
  fixes seal :: "'s \<Rightarrow> bytes \<Rightarrow> bytes \<Rightarrow> (bytes \<times> bytes) hresult \<times> 's"
    and unseal :: "'o \<Rightarrow> bytes \<Rightarrow> bytes \<Rightarrow> bytes hresult \<times> 'o"
    and agree :: "'s \<Rightarrow> 'o \<Rightarrow> bool"
    and tag_len :: nat
  assumes tag_len_pos: "0 < tag_len"
    and seal_unseal: "agree s r \<Longrightarrow> seal s pt aad = (Inr (ct, tag), s') \<Longrightarrow>
      length ct = length pt \<and> length tag = tag_len
      \<and> (\<exists>r'. unseal r (ct @ tag) aad = (Inr pt, r') \<and> agree s' r')"

subsection \<open>Requests: HPKE contexts\<close>

text \<open>\<^verbatim>\<open>RequestSealer::seal_in_place\<close>.\<close>

definition request_seal :: "'c hpke_api \<Rightarrow> 'c \<Rightarrow> bytes \<Rightarrow> bytes \<Rightarrow> (bytes \<times> bytes) hresult \<times> 'c" where
  "request_seal hp c data aad = (case ctx_seal hp c data aad of (r, c') \<Rightarrow> (map_sum Source id r, c'))"

text \<open>
  \<^verbatim>\<open>RequestOpener::open_in_place\<close>; its AEAD is the type parameter of the context.
\<close>

definition request_open :: "'c hpke_api \<Rightarrow> aead_id \<Rightarrow> 'c \<Rightarrow> bytes \<Rightarrow> bytes \<Rightarrow> bytes hresult \<times> 'c" where
  "request_open hp aead c data aad =
     (if length data < tag_size hp aead then (Inl (Source OpenError), c)
      else let ciphertext_len = length data - tag_size hp aead
           in case split_at_mut ciphertext_len data of
                Inl e \<Rightarrow> (Inl e, c)
              | Inr (ciphertext, tag) \<Rightarrow>
                  (case ctx_open hp c ciphertext aad tag of (r, c') \<Rightarrow> (map_sum Source id r, c')))"

subsection \<open>Dispatch on the algorithms (instance.rs)\<close>

text \<open>
  \<^verbatim>\<open>dispatch_triple\<close> turns the three identifiers, known at run time, into the three
  type parameters of the call. Type parameters are arguments here, so it applies the call
  to them; the arms of the match cover every triple.
\<close>

definition dispatch_triple ::
  "kem_id \<Rightarrow> kdf_id \<Rightarrow> aead_id \<Rightarrow> (kem_id \<Rightarrow> kdf_id \<Rightarrow> aead_id \<Rightarrow> 'args \<Rightarrow> 'out) \<Rightarrow> 'args \<Rightarrow> 'out" where
  "dispatch_triple k d a call_triple args =
     (case (k, d, a) of
        (DhP256HkdfSha256, HkdfSha256, AesGcm128) \<Rightarrow> call_triple DhP256HkdfSha256 HkdfSha256 AesGcm128 args
      | (DhP384HkdfSha384, HkdfSha256, AesGcm128) \<Rightarrow> call_triple DhP384HkdfSha384 HkdfSha256 AesGcm128 args
      | (X25519HkdfSha256, HkdfSha256, AesGcm128) \<Rightarrow> call_triple X25519HkdfSha256 HkdfSha256 AesGcm128 args
      | (DhP256HkdfSha256, HkdfSha384, AesGcm128) \<Rightarrow> call_triple DhP256HkdfSha256 HkdfSha384 AesGcm128 args
      | (DhP384HkdfSha384, HkdfSha384, AesGcm128) \<Rightarrow> call_triple DhP384HkdfSha384 HkdfSha384 AesGcm128 args
      | (X25519HkdfSha256, HkdfSha384, AesGcm128) \<Rightarrow> call_triple X25519HkdfSha256 HkdfSha384 AesGcm128 args
      | (DhP256HkdfSha256, HkdfSha512, AesGcm128) \<Rightarrow> call_triple DhP256HkdfSha256 HkdfSha512 AesGcm128 args
      | (DhP384HkdfSha384, HkdfSha512, AesGcm128) \<Rightarrow> call_triple DhP384HkdfSha384 HkdfSha512 AesGcm128 args
      | (X25519HkdfSha256, HkdfSha512, AesGcm128) \<Rightarrow> call_triple X25519HkdfSha256 HkdfSha512 AesGcm128 args
      | (DhP256HkdfSha256, HkdfSha256, AesGcm256) \<Rightarrow> call_triple DhP256HkdfSha256 HkdfSha256 AesGcm256 args
      | (DhP384HkdfSha384, HkdfSha256, AesGcm256) \<Rightarrow> call_triple DhP384HkdfSha384 HkdfSha256 AesGcm256 args
      | (X25519HkdfSha256, HkdfSha256, AesGcm256) \<Rightarrow> call_triple X25519HkdfSha256 HkdfSha256 AesGcm256 args
      | (DhP256HkdfSha256, HkdfSha384, AesGcm256) \<Rightarrow> call_triple DhP256HkdfSha256 HkdfSha384 AesGcm256 args
      | (DhP384HkdfSha384, HkdfSha384, AesGcm256) \<Rightarrow> call_triple DhP384HkdfSha384 HkdfSha384 AesGcm256 args
      | (X25519HkdfSha256, HkdfSha384, AesGcm256) \<Rightarrow> call_triple X25519HkdfSha256 HkdfSha384 AesGcm256 args
      | (DhP256HkdfSha256, HkdfSha512, AesGcm256) \<Rightarrow> call_triple DhP256HkdfSha256 HkdfSha512 AesGcm256 args
      | (DhP384HkdfSha384, HkdfSha512, AesGcm256) \<Rightarrow> call_triple DhP384HkdfSha384 HkdfSha512 AesGcm256 args
      | (X25519HkdfSha256, HkdfSha512, AesGcm256) \<Rightarrow> call_triple X25519HkdfSha256 HkdfSha512 AesGcm256 args
      | (DhP256HkdfSha256, HkdfSha256, ChaCha20Poly1305) \<Rightarrow> call_triple DhP256HkdfSha256 HkdfSha256 ChaCha20Poly1305 args
      | (DhP384HkdfSha384, HkdfSha256, ChaCha20Poly1305) \<Rightarrow> call_triple DhP384HkdfSha384 HkdfSha256 ChaCha20Poly1305 args
      | (X25519HkdfSha256, HkdfSha256, ChaCha20Poly1305) \<Rightarrow> call_triple X25519HkdfSha256 HkdfSha256 ChaCha20Poly1305 args
      | (DhP256HkdfSha256, HkdfSha384, ChaCha20Poly1305) \<Rightarrow> call_triple DhP256HkdfSha256 HkdfSha384 ChaCha20Poly1305 args
      | (DhP384HkdfSha384, HkdfSha384, ChaCha20Poly1305) \<Rightarrow> call_triple DhP384HkdfSha384 HkdfSha384 ChaCha20Poly1305 args
      | (X25519HkdfSha256, HkdfSha384, ChaCha20Poly1305) \<Rightarrow> call_triple X25519HkdfSha256 HkdfSha384 ChaCha20Poly1305 args
      | (DhP256HkdfSha256, HkdfSha512, ChaCha20Poly1305) \<Rightarrow> call_triple DhP256HkdfSha256 HkdfSha512 ChaCha20Poly1305 args
      | (DhP384HkdfSha384, HkdfSha512, ChaCha20Poly1305) \<Rightarrow> call_triple DhP384HkdfSha384 HkdfSha512 ChaCha20Poly1305 args
      | (X25519HkdfSha256, HkdfSha512, ChaCha20Poly1305) \<Rightarrow> call_triple X25519HkdfSha256 HkdfSha512 ChaCha20Poly1305 args)"

lemma dispatch_triple_eq: "dispatch_triple k d a f args = f k d a args"
  by (cases k; cases d; cases a) (simp_all add: dispatch_triple_def)

text \<open>\<^verbatim>\<open>rpk.expand(info, &mut buf).unwrap()\<close> into a buffer of \<open>n\<close> bytes.\<close>

definition expand_or_panic :: "'c hpke_api \<Rightarrow> kdf_id \<Rightarrow> bytes \<Rightarrow> bytes \<Rightarrow> bytes \<Rightarrow> nat \<Rightarrow> (bytes, 'e) result" where
  "expand_or_panic hp kdf salt secret info n =
     (case hkdf_expand hp kdf salt secret info n of
        None \<Rightarrow> Inl (Panicked ''called `Result::unwrap()` on an `Err` value: InvalidLength'')
      | Some out \<Rightarrow> Inr out)"

definition derive_aead_key_and_nonce ::
  "'c hpke_api \<Rightarrow> kdf_id \<Rightarrow> aead_id \<Rightarrow> bytes \<Rightarrow> bytes \<Rightarrow> bytes \<Rightarrow> (bytes \<times> bytes, 'e) result" where
  "derive_aead_key_and_nonce hp kdf aead encapped_key response_secret response_nonce =
     (let salt = encapped_key @ response_nonce
      in rbind (expand_or_panic hp kdf salt response_secret (ascii ''key'') (key_len hp aead)) (\<lambda>aead_key.
         rbind (expand_or_panic hp kdf salt response_secret (ascii ''nonce'') (nonce_len hp aead)) (\<lambda>aead_nonce.
         Inr (aead_key, aead_nonce))))"

datatype aead_error = AeadError

text \<open>\<^verbatim>\<open>GenericArray::from_slice\<close> panics on a slice of another length.\<close>

definition lift_slice :: "nat \<Rightarrow> bytes \<Rightarrow> (unit, 'e) result" where
  "lift_slice n bs = (if length bs = n then Inr () else Inl (Panicked ''assertion `left == right` failed''))"

definition seal_in_place_detached ::
  "'c hpke_api \<Rightarrow> aead_id \<Rightarrow> bytes \<Rightarrow> bytes \<Rightarrow> bytes \<Rightarrow> bytes \<Rightarrow> (bytes \<times> bytes, aead_error) result" where
  "seal_in_place_detached hp aead aead_key aead_nonce aad data =
     rbind (lift_slice (key_size hp aead) aead_key) (\<lambda>_.
     rbind (lift_slice (nonce_size hp aead) aead_nonce) (\<lambda>_.
     (case aead_encrypt hp aead aead_key aead_nonce aad data of
        None \<Rightarrow> Inl (Source AeadError) | Some r \<Rightarrow> Inr r)))"

definition aead_open_in_place ::
  "'c hpke_api \<Rightarrow> aead_id \<Rightarrow> bytes \<Rightarrow> bytes \<Rightarrow> bytes \<Rightarrow> bytes \<Rightarrow> (bytes, aead_error) result" where
  "aead_open_in_place hp aead aead_key aead_nonce aad data =
     rbind (lift_slice (key_size hp aead) aead_key) (\<lambda>_.
     rbind (lift_slice (nonce_size hp aead) aead_nonce) (\<lambda>_.
     if length data < tag_size hp aead then Inl (Source AeadError)
     else let ciphertext_len = length data - tag_size hp aead
          in rbind (split_at_mut ciphertext_len data) (\<lambda>(ciphertext, tag).
             rbind (lift_slice (tag_size hp aead) tag) (\<lambda>_.
             (case aead_decrypt hp aead aead_key aead_nonce aad ciphertext tag of
                None \<Rightarrow> Inl (Source AeadError) | Some pt \<Rightarrow> Inr pt)))))"

subsection \<open>The nonce of a chunk (response.rs)\<close>

record chunk_nonce =
  initial :: bytes
  counter :: bytes
  current :: bytes

definition chunk_nonce_new :: "bytes \<Rightarrow> chunk_nonce" where
  "chunk_nonce_new aead_nonce =
     \<lparr>initial = aead_nonce, counter = replicate (length aead_nonce) 0, current = aead_nonce\<rparr>"

text \<open>
  \<^verbatim>\<open>incr\<close> adds one from the last byte on; \<open>incr_rev\<close> is its loop over the
  reversed counter and whether it returned before the end.
\<close>

fun incr_rev :: "bytes \<Rightarrow> bool \<times> bytes" where
  "incr_rev [] = (False, [])"
| "incr_rev (b # bs) =
     (if b + 1 = 0 then let (done, bs') = incr_rev bs in (done, (b + 1) # bs')
      else (True, (b + 1) # bs))"

definition incr :: "chunk_nonce \<Rightarrow> unit hresult \<times> chunk_nonce" where
  "incr cn =
     (let (done, bs) = incr_rev (rev (counter cn))
      in ((if done then Inr () else Inl (Source MessageLimitReached)), cn\<lparr>counter := rev bs\<rparr>))"

text \<open>\<^verbatim>\<open>next\<close>: the byte-wise loop stops at the shortest of the three slices.\<close>

definition nonce_next :: "chunk_nonce \<Rightarrow> bytes hresult \<times> chunk_nonce" where
  "nonce_next cn =
     (let new = map2 (\<lambda>c i. c XOR i) (counter cn) (initial cn);
          cn1 = cn\<lparr>current := take (length (current cn)) new @ drop (length new) (current cn)\<rparr>
      in case incr cn1 of
           (Inl e, cn2) \<Rightarrow> (Inl e, cn2)
         | (Inr _, cn2) \<Rightarrow> (Inr (current cn2), cn2))"

subsection \<open>Responses: AEAD contexts (response.rs)\<close>

record aead_context =
  ac_aead_id :: aead_id
  ac_aead_key :: bytes
  chunk_nonce :: chunk_nonce

record response_context =
  rc_kdf_id :: kdf_id
  rc_aead_id :: aead_id
  rc_encapped_key :: bytes
  rc_response_secret :: bytes

definition derive_aead_context :: "'c hpke_api \<Rightarrow> response_context \<Rightarrow> bytes \<Rightarrow> (aead_context, 'e) result" where
  "derive_aead_context hp rc response_nonce =
     rbind (derive_aead_key_and_nonce hp (rc_kdf_id rc) (rc_aead_id rc) (rc_encapped_key rc)
              (rc_response_secret rc) response_nonce) (\<lambda>(aead_key, aead_nonce).
     Inr \<lparr>ac_aead_id = rc_aead_id rc, ac_aead_key = aead_key, chunk_nonce = chunk_nonce_new aead_nonce\<rparr>)"

text \<open>\<^verbatim>\<open>map_err(|aead::Error| e)\<close>.\<close>

definition map_aead_err :: "hpke_error \<Rightarrow> ('a, aead_error) result \<Rightarrow> 'a hresult" where
  "map_aead_err e r = map_sum (map_err (\<lambda>_. e)) id r"

definition context_seal :: "'c hpke_api \<Rightarrow> aead_context \<Rightarrow> bytes \<Rightarrow> bytes \<Rightarrow> (bytes \<times> bytes) hresult \<times> aead_context" where
  "context_seal hp ac data aad =
     (case nonce_next (chunk_nonce ac) of
        (Inl e, cn) \<Rightarrow> (Inl e, ac\<lparr>chunk_nonce := cn\<rparr>)
      | (Inr nonce, cn) \<Rightarrow>
          (map_aead_err SealError (seal_in_place_detached hp (ac_aead_id ac) (ac_aead_key ac) nonce aad data),
           ac\<lparr>chunk_nonce := cn\<rparr>))"

definition context_open :: "'c hpke_api \<Rightarrow> aead_context \<Rightarrow> bytes \<Rightarrow> bytes \<Rightarrow> bytes hresult \<times> aead_context" where
  "context_open hp ac data aad =
     (case nonce_next (chunk_nonce ac) of
        (Inl e, cn) \<Rightarrow> (Inl e, ac\<lparr>chunk_nonce := cn\<rparr>)
      | (Inr nonce, cn) \<Rightarrow>
          (map_aead_err OpenError (aead_open_in_place hp (ac_aead_id ac) (ac_aead_key ac) nonce aad data),
           ac\<lparr>chunk_nonce := cn\<rparr>))"

subsection \<open>Both pairs satisfy the contract\<close>

lemma map_aead_err_Inr [simp]: "map_aead_err e r = Inr x \<longleftrightarrow> r = Inr x"
  by (cases r) (simp_all add: map_aead_err_def)

lemma lift_slice_Inr [simp]: "lift_slice n bs = Inr u \<longleftrightarrow> length bs = n"
  by (simp add: lift_slice_def)

context hpke_crate
begin

lemma request_seal_open:
  assumes "paired a s r" "request_seal hp s pt aad = (Inr (ct, tag), s')"
  shows "length ct = length pt \<and> length tag = tag_size hp a
    \<and> (\<exists>r'. request_open hp a r (ct @ tag) aad = (Inr pt, r') \<and> paired a s' r')"
proof -
  from assms(2) have "ctx_seal hp s pt aad = (Inr (ct, tag), s')"
    by (auto simp: request_seal_def map_sum_def split: prod.splits sum.splits)
  from seal_open [OF assms(1) this] show ?thesis
    by (auto simp: request_open_def Let_def)
qed

lemma context_seal_open:
  assumes "ac_aead_id s = a" "context_seal hp s pt aad = (Inr (ct, tag), s')"
  shows "length ct = length pt \<and> length tag = tag_size hp a
    \<and> context_open hp s (ct @ tag) aad = (Inr pt, s') \<and> ac_aead_id s' = a"
proof -
  from assms(2) obtain nonce cn where n: "nonce_next (chunk_nonce s) = (Inr nonce, cn)"
    and s': "s' = s\<lparr>chunk_nonce := cn\<rparr>"
    and len: "length (ac_aead_key s) = key_size hp (ac_aead_id s)" "length nonce = nonce_size hp (ac_aead_id s)"
    and enc: "aead_encrypt hp (ac_aead_id s) (ac_aead_key s) nonce aad pt = Some (ct, tag)"
    by (auto simp: context_seal_def seal_in_place_detached_def rbind_eq_Inr_iff
        split: prod.splits sum.splits option.splits)
  from encrypt_decrypt [OF enc] n s' len assms(1) show ?thesis
    by (auto simp: context_open_def aead_open_in_place_def Let_def lift_slice_def map_aead_err_def)
qed

end

sublocale hpke_crate \<subseteq> rq: sealing "request_seal hp" "request_open hp a" "paired a" "tag_size hp a" for a
  by unfold_locales (rule tag_size_pos, rule request_seal_open)

sublocale hpke_crate \<subseteq> rs: sealing "context_seal hp" "context_open hp"
    "\<lambda>s r. r = s \<and> ac_aead_id s = a" "tag_size hp a" for a
  by unfold_locales (rule tag_size_pos, use context_seal_open in fastforce)

subsection \<open>The sequence of nonces\<close>

definition nonce_at :: "bytes \<Rightarrow> nat \<Rightarrow> bytes" where
  "nonce_at ini k = map2 (\<lambda>c i. c XOR i) (be_bytes (length ini) k) ini"

definition wf_nonce :: "chunk_nonce \<Rightarrow> bool" where
  "wf_nonce cn \<longleftrightarrow> length (counter cn) = length (initial cn) \<and> length (current cn) = length (initial cn)"

primrec nonces :: "nat \<Rightarrow> chunk_nonce \<Rightarrow> bytes hresult list" where
  "nonces 0 cn = []"
| "nonces (Suc m) cn = (case nonce_next cn of (r, cn') \<Rightarrow> r # nonces m cn')"

lemma be_bytes_be_value: "be_bytes (length bs) (be_value bs) = bs"
proof (induction bs rule: rev_induct)
  case (snoc b bs)
  have "(be_value bs * 256 + unat b) div 256 = be_value bs"
    using unsigned_less [of b, where ?'a = nat] by simp
  moreover have "(256 :: byte) = 0" by simp
  then have "of_nat (be_value bs * 256 + unat b) = b"
    by (simp only: of_nat_add of_nat_mult of_nat_numeral mult_zero_right add_0) simp
  ultimately show ?case using snoc by simp
qed simp

lemma byte_overflow: "(b :: byte) + 1 = 0 \<longleftrightarrow> unat b = 255"
proof -
  have "unat (b + 1) = (unat b + 1) mod 256" by (simp add: unat_word_ariths)
  moreover have "unat b < 256" using unsigned_less [of b, where ?'a = nat] by simp
  ultimately have "unat (b + 1) = 0 \<longleftrightarrow> unat b = 255" by (cases "unat b = 255") auto
  then show ?thesis by (simp add: unat_eq_0)
qed

lemma incr_rev_value:
  "incr_rev r = (done, r') \<Longrightarrow> length r' = length r
     \<and> (if done then be_value (rev r') = be_value (rev r) + 1
        else Suc (be_value (rev r)) = 256 ^ length r \<and> r' = replicate (length r) 0)"
proof (induction r arbitrary: "done" r')
  case Nil
  then show ?case by (simp add: be_value_def)
next
  case (Cons b r)
  show ?case
  proof (cases "b + 1 = 0")
    case True
    obtain d r1 where d: "incr_rev r = (d, r1)" by (cases "incr_rev r")
    from True have "unat b = 255" by (simp only: byte_overflow)
    with Cons.IH [OF d] Cons.prems d True show ?thesis by (cases d) auto
  next
    case False
    then have "unat b \<noteq> 255" by (simp only: byte_overflow not_False_eq_True)
    then have "unat (b + 1) = unat b + 1"
      using unsigned_less [of b, where ?'a = nat] by (simp add: unat_word_ariths)
    with Cons.prems False show ?thesis by auto
  qed
qed

text \<open>One call: the nonce of the counter's value, until the counter is exhausted.\<close>

lemma nonce_next_ok:
  assumes wf: "wf_nonce cn" and room: "Suc (be_value (counter cn)) < 256 ^ length (initial cn)"
  obtains cn' where "nonce_next cn = (Inr (nonce_at (initial cn) (be_value (counter cn))), cn')"
    and "wf_nonce cn'" "initial cn' = initial cn" "be_value (counter cn') = Suc (be_value (counter cn))"
proof -
  obtain d r where d: "incr_rev (rev (counter cn)) = (d, r)" by (cases "incr_rev (rev (counter cn))")
  from incr_rev_value [OF d] wf room have r: "d" "length r = length (counter cn)"
      "be_value (rev r) = Suc (be_value (counter cn))"
    by (auto simp: wf_nonce_def split: if_splits)
  have at: "map2 (\<lambda>c i. c XOR i) (counter cn) (initial cn) = nonce_at (initial cn) (be_value (counter cn))"
    using be_bytes_be_value [of "counter cn"] wf by (simp add: nonce_at_def wf_nonce_def)
  show thesis
    by (rule that [of "cn\<lparr>current := nonce_at (initial cn) (be_value (counter cn)), counter := rev r\<rparr>"])
      (use wf r d in \<open>auto simp: nonce_next_def Let_def incr_def at wf_nonce_def nonce_at_def\<close>)
qed

lemma nonce_next_limit:
  assumes wf: "wf_nonce cn" and full: "Suc (be_value (counter cn)) = 256 ^ length (initial cn)"
  shows "\<exists>cn'. nonce_next cn = (Inl (Source MessageLimitReached), cn')
    \<and> wf_nonce cn' \<and> initial cn' = initial cn \<and> be_value (counter cn') = 0"
proof -
  obtain d r where d: "incr_rev (rev (counter cn)) = (d, r)" by (cases "incr_rev (rev (counter cn))")
  have "be_value (rev r) < 256 ^ length r" using be_value_bound [of "rev r"] by simp
  with incr_rev_value [OF d] wf full have r: "\<not> d" "r = replicate (length (counter cn)) 0"
    by (auto simp: wf_nonce_def split: if_splits)
  have "be_value (replicate n 0) = 0" for n by (induction n) (simp_all add: be_value_def)
  with r d wf show ?thesis
    by (auto simp: nonce_next_def incr_def Let_def wf_nonce_def)
qed

lemma wf_nonce_new [simp]: "wf_nonce (chunk_nonce_new n)"
  by (simp add: wf_nonce_def chunk_nonce_new_def)

lemma counter_new [simp]: "be_value (counter (chunk_nonce_new n)) = 0" "initial (chunk_nonce_new n) = n"
proof -
  have "be_value (replicate m 0) = 0" for m by (induction m) (simp_all add: be_value_def)
  then show "be_value (counter (chunk_nonce_new n)) = 0" by (simp add: chunk_nonce_new_def)
  show "initial (chunk_nonce_new n) = n" by (simp add: chunk_nonce_new_def)
qed

lemma nonces_from:
  "wf_nonce cn \<Longrightarrow> be_value (counter cn) + m < 256 ^ length (initial cn) \<Longrightarrow>
   nonces m cn = map (\<lambda>k. Inr (nonce_at (initial cn) k)) [be_value (counter cn)..<be_value (counter cn) + m]"
proof (induction m arbitrary: cn)
  case (Suc m)
  from Suc.prems have "Suc (be_value (counter cn)) < 256 ^ length (initial cn)" by simp
  with Suc.prems(1) obtain cn' where
    "nonce_next cn = (Inr (nonce_at (initial cn) (be_value (counter cn))), cn')"
    "wf_nonce cn'" "initial cn' = initial cn" "be_value (counter cn') = Suc (be_value (counter cn))"
    by (rule nonce_next_ok)
  with Suc.IH [of cn'] Suc.prems show ?case by (simp add: upt_rec)
qed simp

text \<open>Different counters give different nonces.\<close>

lemma xor_cancel: "a XOR c = b XOR c \<Longrightarrow> a = (b :: 'a::len word)"
  by (metis xor.assoc xor_self_eq xor.right_neutral)

lemma xor_map2_inj:
  "length xs = length ys \<Longrightarrow> length ys = length zs \<Longrightarrow>
   map2 (\<lambda>c i. c XOR i) xs zs = map2 (\<lambda>c i. c XOR i) ys zs \<Longrightarrow> xs = (ys :: bytes)"
  by (induction xs ys zs rule: list_induct3) (auto dest: xor_cancel)

lemma nonce_at_inj:
  assumes "nonce_at ini j = nonce_at ini k" "j < 256 ^ length ini" "k < 256 ^ length ini"
  shows "j = k"
proof -
  from assms(1) have "be_bytes (length ini) j = be_bytes (length ini) k"
    unfolding nonce_at_def by (rule xor_map2_inj [rotated 2]) simp_all
  then have "be_value (be_bytes (length ini) j) = be_value (be_bytes (length ini) k)" by (rule arg_cong)
  then have "j mod 256 ^ length ini = k mod 256 ^ length ini" by (simp only: be_value_be_bytes)
  with assms(2,3) show ?thesis by simp
qed

subsection \<open>Derived contexts\<close>

text \<open>A context whose key and nonce have the lengths of its algorithm.\<close>

definition wf_context :: "'c hpke_api \<Rightarrow> aead_context \<Rightarrow> bool" where
  "wf_context hp ac \<longleftrightarrow> length (ac_aead_key ac) = key_size hp (ac_aead_id ac)
     \<and> length (initial (chunk_nonce ac)) = nonce_size hp (ac_aead_id ac) \<and> wf_nonce (chunk_nonce ac)"

text \<open>The results of sealing one chunk after the other, each with its associated data.\<close>

primrec seal_chunks ::
  "'c hpke_api \<Rightarrow> aead_context \<Rightarrow> (bytes \<times> bytes) list \<Rightarrow> (bytes \<times> bytes) hresult list" where
  "seal_chunks hp ac [] = []"
| "seal_chunks hp ac (c # cs) =
     (case context_seal hp ac (fst c) (snd c) of (r, ac') \<Rightarrow> r # seal_chunks hp ac' cs)"

text \<open>The context of a response, when the two expansions succeed.\<close>

definition response_aead :: "'c hpke_api \<Rightarrow> response_context \<Rightarrow> bytes \<Rightarrow> aead_context" where
  "response_aead hp rc rn =
     (let expand = (\<lambda>info n. the (hkdf_expand hp (rc_kdf_id rc) (rc_encapped_key rc @ rn) (rc_response_secret rc) info n))
      in \<lparr>ac_aead_id = rc_aead_id rc, ac_aead_key = expand (ascii ''key'') (key_size hp (rc_aead_id rc)),
          chunk_nonce = chunk_nonce_new (expand (ascii ''nonce'') (nonce_size hp (rc_aead_id rc)))\<rparr>)"

lemma response_aead_start [simp]:
  "ac_aead_id (response_aead hp rc rn) = rc_aead_id rc"
  "be_value (counter (chunk_nonce (response_aead hp rc rn))) = 0"
  by (simp_all add: response_aead_def Let_def)

context hpke_crate
begin

lemma derive_total: "derive_aead_context hp rc rn = Inr (response_aead hp rc rn)"
  and wf_response_aead: "wf_context hp (response_aead hp rc rn)"
proof -
  let ?salt = "rc_encapped_key rc @ rn"
  obtain k n where
    "hkdf_expand hp (rc_kdf_id rc) ?salt (rc_response_secret rc) (ascii ''key'') (key_size hp (rc_aead_id rc)) = Some k"
    "length k = key_size hp (rc_aead_id rc)"
    "hkdf_expand hp (rc_kdf_id rc) ?salt (rc_response_secret rc) (ascii ''nonce'') (nonce_size hp (rc_aead_id rc)) = Some n"
    "length n = nonce_size hp (rc_aead_id rc)"
    using expand_room [of "key_size hp (rc_aead_id rc)" "rc_aead_id rc"]
      expand_room [of "nonce_size hp (rc_aead_id rc)" "rc_aead_id rc"] by blast
  then show "derive_aead_context hp rc rn = Inr (response_aead hp rc rn)" "wf_context hp (response_aead hp rc rn)"
    by (simp_all add: derive_aead_context_def derive_aead_key_and_nonce_def expand_or_panic_def
        key_len_def nonce_len_def wf_context_def response_aead_def)
qed

text \<open>Sealing with a well-formed context cannot panic and fails only as its library does.\<close>

lemma context_seal_result:
  assumes wf: "wf_context hp ac"
    and room: "Suc (be_value (counter (chunk_nonce ac))) < 256 ^ nonce_size hp (ac_aead_id ac)"
  obtains ac' where "wf_context hp ac'" "ac_aead_id ac' = ac_aead_id ac"
    "be_value (counter (chunk_nonce ac')) = Suc (be_value (counter (chunk_nonce ac)))"
    "context_seal hp ac pt aad =
       ((case aead_encrypt hp (ac_aead_id ac) (ac_aead_key ac)
            (nonce_at (initial (chunk_nonce ac)) (be_value (counter (chunk_nonce ac)))) aad pt of
          None \<Rightarrow> Inl (Source SealError) | Some r \<Rightarrow> Inr r), ac')"
    "ac_aead_key ac' = ac_aead_key ac" "initial (chunk_nonce ac') = initial (chunk_nonce ac)"
proof -
  from wf room obtain cn where
    cn: "nonce_next (chunk_nonce ac) = (Inr (nonce_at (initial (chunk_nonce ac)) (be_value (counter (chunk_nonce ac)))), cn)"
      "wf_nonce cn" "initial cn = initial (chunk_nonce ac)"
      "be_value (counter cn) = Suc (be_value (counter (chunk_nonce ac)))"
    by (auto simp: wf_context_def elim: nonce_next_ok)
  moreover have "length (nonce_at (initial (chunk_nonce ac)) k) = nonce_size hp (ac_aead_id ac)" for k
    using wf by (simp add: wf_context_def nonce_at_def)
  ultimately show thesis
    using wf
    by (intro that [of "ac\<lparr>chunk_nonce := cn\<rparr>"])
      (auto simp: wf_context_def context_seal_def seal_in_place_detached_def lift_slice_def
        map_aead_err_def split: option.split)
qed

text \<open>The \<open>k\<close>-th chunk sealed from here is sealed under the nonce of \<open>k\<close> more.\<close>

lemma seal_chunks_from:
  assumes "wf_context hp ac"
    and "be_value (counter (chunk_nonce ac)) + length cs < 256 ^ nonce_size hp (ac_aead_id ac)"
  shows "seal_chunks hp ac cs =
    map2 (\<lambda>k (pt, aad). case aead_encrypt hp (ac_aead_id ac) (ac_aead_key ac)
          (nonce_at (initial (chunk_nonce ac)) k) aad pt of
        None \<Rightarrow> Inl (Source SealError) | Some r \<Rightarrow> Inr r)
      [be_value (counter (chunk_nonce ac))..<be_value (counter (chunk_nonce ac)) + length cs] cs"
  using assms
proof (induction cs arbitrary: ac)
  case (Cons c cs)
  obtain pt aad where c: "c = (pt, aad)" by (cases c)
  from Cons.prems(2) have "Suc (be_value (counter (chunk_nonce ac))) < 256 ^ nonce_size hp (ac_aead_id ac)"
    by simp
  with Cons.prems(1) obtain ac' where ac': "wf_context hp ac'" "ac_aead_id ac' = ac_aead_id ac"
    "be_value (counter (chunk_nonce ac')) = Suc (be_value (counter (chunk_nonce ac)))"
    "context_seal hp ac pt aad =
       ((case aead_encrypt hp (ac_aead_id ac) (ac_aead_key ac)
            (nonce_at (initial (chunk_nonce ac)) (be_value (counter (chunk_nonce ac)))) aad pt of
          None \<Rightarrow> Inl (Source SealError) | Some r \<Rightarrow> Inr r), ac')"
    "ac_aead_key ac' = ac_aead_key ac" "initial (chunk_nonce ac') = initial (chunk_nonce ac)"
    by (rule context_seal_result)
  from Cons.IH [OF ac'(1)] Cons.prems(2) ac' show ?case
    by (simp add: c upt_conv_Cons del: upt_Suc)
qed simp

lemma response_aead_keys:
  "hkdf_expand hp (rc_kdf_id rc) (rc_encapped_key rc @ rn) (rc_response_secret rc)
     (ascii ''key'') (key_size hp (rc_aead_id rc)) = Some (ac_aead_key (response_aead hp rc rn))"
  "hkdf_expand hp (rc_kdf_id rc) (rc_encapped_key rc @ rn) (rc_response_secret rc)
     (ascii ''nonce'') (nonce_size hp (rc_aead_id rc)) = Some (initial (chunk_nonce (response_aead hp rc rn)))"
  using expand_room [of "key_size hp (rc_aead_id rc)" "rc_aead_id rc"]
    expand_room [of "nonce_size hp (rc_aead_id rc)" "rc_aead_id rc"]
  by (metis (no_types) response_aead_def aead_context.simps(1,2,3) counter_new(2) option.sel)+

end

subsection \<open>Properties\<close>

text \<open>
  C17: the nonces of one response never repeat: the calls of \<^verbatim>\<open>ChunkNonce::next\<close> on
  a fresh nonce of \<open>n\<close> bytes give the initial nonce XORed with 0, 1, 2, \<dots> in
  network byte order, pairwise distinct, for as many calls as \<open>256 ^ n - 1\<close>.
\<close>

theorem nonces_distinct:
  assumes "m < 256 ^ length n"
  shows "nonces m (chunk_nonce_new n) = map (\<lambda>k. Inr (nonce_at n k)) [0..<m]
    \<and> distinct (nonces m (chunk_nonce_new n))"
proof -
  have "nonces m (chunk_nonce_new n) = map (\<lambda>k. Inr (nonce_at n k)) [0..<m]"
    using nonces_from [of "chunk_nonce_new n" m] assms by simp
  moreover have "inj_on (\<lambda>k. Inr (nonce_at n k) :: bytes hresult) {0..<m}"
    using assms by (auto intro!: inj_onI dest: nonce_at_inj)
  ultimately show ?thesis by (simp add: distinct_map)
qed

theorem nonces_distinct_witness:
  "nonces 3 (chunk_nonce_new [7, 255]) = [Inr [7, 255], Inr [7, 254], Inr [7, 253]]"
  using nonces_distinct [of 3 "[7, 255]"] by (simp add: nonce_at_def upt_conv_Cons)

text \<open>
  After the last nonce a response fails with \<^verbatim>\<open>MessageLimitReached\<close>, but the counter
  has wrapped by then: a further call returns the initial nonce, used for the first chunk,
  again.
\<close>

lemma nonce_repeats_after_limit:
  assumes "wf_nonce cn" "Suc (be_value (counter cn)) = 256 ^ length (initial cn)" "initial cn \<noteq> []"
  shows "fst (nonce_next cn) = Inl (Source MessageLimitReached)
    \<and> fst (nonce_next (snd (nonce_next cn))) = Inr (nonce_at (initial cn) 0)
    \<and> fst (nonce_next (chunk_nonce_new (initial cn))) = Inr (nonce_at (initial cn) 0)"
proof -
  from nonce_next_limit [OF assms(1,2)] obtain cn' where
    l: "nonce_next cn = (Inl (Source MessageLimitReached), cn')"
    and cn': "wf_nonce cn'" "initial cn' = initial cn" "be_value (counter cn') = 0" by blast
  from assms(3) have "Suc 0 < 256 ^ length (initial cn)" 
    using one_less_power [of "256 :: nat" "length (initial cn)"] by simp
  with cn' nonce_next_ok [OF cn'(1)] nonce_next_ok [of "chunk_nonce_new (initial cn)"]
  have "fst (nonce_next cn') = Inr (nonce_at (initial cn) 0)"
    "fst (nonce_next (chunk_nonce_new (initial cn))) = Inr (nonce_at (initial cn) 0)"
    by (metis counter_new wf_nonce_new fst_conv)+
  with l show ?thesis by simp
qed

lemma nonce_repeats_after_limit_witness:
  "fst (nonce_next (snd (nonce_next \<lparr>initial = [9], counter = [255], current = [0]\<rparr>)))
    = Inr (nonce_at [9] 0)"
  using nonce_repeats_after_limit [of "\<lparr>initial = [9], counter = [255], current = [0]\<rparr>"]
  by (simp add: wf_nonce_def be_value_def)

text \<open>
  C23: the chunks of a response are sealed as the specification of oblivious HTTP demands. The
  key and the initial nonce are the expansions of \<^verbatim>\<open>"key"\<close> and \<^verbatim>\<open>"nonce"\<close>
  from the exported secret, salted with the encapsulated key followed by the response nonce;
  the chunk with index \<open>k\<close> is sealed under that key and the initial nonce XORed with
  \<open>k\<close> in network byte order, and its result is the cipher's own. No step panics: HKDF
  has room for both expansions, and the key and every nonce have the lengths that the
  cipher asserts.
\<close>

theorem response_chunks_sealed:
  assumes "hpke_crate hp paired" and "length cs < 256 ^ nonce_size hp (rc_aead_id rc)"
  shows "\<exists>key nonce ac.
      hkdf_expand hp (rc_kdf_id rc) (rc_encapped_key rc @ rn) (rc_response_secret rc)
        (ascii ''key'') (key_size hp (rc_aead_id rc)) = Some key
    \<and> hkdf_expand hp (rc_kdf_id rc) (rc_encapped_key rc @ rn) (rc_response_secret rc)
        (ascii ''nonce'') (nonce_size hp (rc_aead_id rc)) = Some nonce
    \<and> derive_aead_context hp rc rn = (Inr ac :: (aead_context, 'e) result)
    \<and> seal_chunks hp ac cs =
        map2 (\<lambda>k (pt, aad). case aead_encrypt hp (rc_aead_id rc) key (nonce_at nonce k) aad pt of
            None \<Rightarrow> Inl (Source SealError) | Some r \<Rightarrow> Inr r) [0..<length cs] cs"
proof -
  note seal = hpke_crate.seal_chunks_from [OF assms(1) hpke_crate.wf_response_aead [OF assms(1)], of rc rn cs]
  show ?thesis
    using seal assms(2) hpke_crate.response_aead_keys [OF assms(1), of rc rn]
    by (simp add: hpke_crate.derive_total [OF assms(1)])
qed

theorem response_chunks_sealed_witness:
  "\<exists>ac. derive_aead_context plain_hpke \<lparr>rc_kdf_id = HkdfSha256, rc_aead_id = AesGcm256,
        rc_encapped_key = [1], rc_response_secret = [2]\<rparr> [3] = (Inr ac :: (aead_context, unit) result)
     \<and> seal_chunks plain_hpke ac [([5], []), ([6], [7])]
       = [Inr ([5], plain_tag 12 []), Inr ([6], plain_tag 12 [7])]"
proof -
  have api: "nonce_size plain_hpke a = 12" "aead_encrypt plain_hpke a k n aad pt = Some (pt, plain_tag (length n) aad)"
    for a k n aad pt by (simp_all add: plain_hpke_def)
  show ?thesis
    using response_chunks_sealed [OF plain.hpke_crate_axioms, of "[([5], []), ([6], [7])]"
        "\<lparr>rc_kdf_id = HkdfSha256, rc_aead_id = AesGcm256, rc_encapped_key = [1], rc_response_secret = [2]\<rparr>"
        "[3]", where ?'e = unit]
    by (auto simp: api nonce_at_def upt_conv_Cons dest!: plain.expand_length)
qed

end
