(* ===== verification/Hpke_Streams.thy ===== *)
theory Hpke_Streams
  imports Hpke_Response
begin

text \<open>
  The streams that encapsulate and decapsulate messages:
  \<^verbatim>\<open>crates/ohttp-hpke/src/encapsulated.rs\<close> and \<^verbatim>\<open>decapsulated.rs\<close>. Both are
  generic in the sealer or opener, an argument here, and are state machines polled by their
  consumer. Under the contract \<open>sealing\<close>, decapsulating an encapsulated stream gives
  the plaintext back, for chunked and non-chunked messages.
\<close>

text \<open>\<^verbatim>\<open>map_err(|e| invalid_data(format!("msg ({e})")))\<close>; a panic stays one.\<close>

definition map_hpke_err :: "string \<Rightarrow> 'a hresult \<Rightarrow> ('a, 'e) result" where
  "map_hpke_err msg r =
     (case r of
        Inr a \<Rightarrow> Inr a
      | Inl (Source e) \<Rightarrow> Inl (invalid_data (HpkeCause msg e))
      | Inl (FromIo x) \<Rightarrow> Inl (FromIo x)
      | Inl (Panicked p) \<Rightarrow> Inl (Panicked p))"

subsection \<open>Encapsulation\<close>

datatype chunk_state = ChunkLen | Tag bytes

datatype encap_state = NonChunked | Chunked chunk_state | EncapDone

record ('s, 'e) encapsulated =
  en_state :: encap_state
  sealer :: 's
  en_chunk :: "bytes option"
  en_buf :: "'e stream_buf"

definition encap_non_chunked :: "'s \<Rightarrow> bytes \<Rightarrow> 'e stream_buf \<Rightarrow> ('s, 'e) encapsulated" where
  "encap_non_chunked s c sb = \<lparr>en_state = NonChunked, sealer = s, en_chunk = Some c, en_buf = sb\<rparr>"

definition encap_chunked :: "'s \<Rightarrow> bytes \<Rightarrow> 'e stream_buf \<Rightarrow> ('s, 'e) encapsulated" where
  "encap_chunked s c sb = \<lparr>en_state = Chunked ChunkLen, sealer = s, en_chunk = Some c, en_buf = sb\<rparr>"

definition encoded_len :: "octets_api \<Rightarrow> nat \<Rightarrow> (bytes, 'e) result" where
  "encoded_len oct len =
     (let n = varint_len oct (of_nat len)
      in rbind (unwrap_write (put_varint oct (of_nat len) (om_zeroed n))) (\<lambda>om.
         rbind (debug_assert_eq n (om_off om)) (\<lambda>_. Inr (om_buf om))))"

type_synonym 's sealer = "'s \<Rightarrow> bytes \<Rightarrow> bytes \<Rightarrow> (bytes \<times> bytes) hresult \<times> 's"
type_synonym 'o opener = "'o \<Rightarrow> bytes \<Rightarrow> bytes \<Rightarrow> bytes hresult \<times> 'o"

text \<open>
  The branches of \<^verbatim>\<open>poll_next\<close> for a non-chunked message, for the end of the content
  and for a chunk of it.
\<close>

definition encap_content ::
  "'s sealer \<Rightarrow> ('s, 'e) encapsulated \<Rightarrow> bytes \<Rightarrow> (bytes, 'e) result option poll \<times> ('s, 'e) encapsulated" where
  "encap_content seal en content =
     (case seal (sealer en) content [] of
        (r, s) \<Rightarrow>
          (case map_hpke_err ''could not seal content'' r of
             Inl e \<Rightarrow> (Ready (Some (Inl e)), en\<lparr>sealer := s\<rparr>)
           | Inr (ct, aead_tag) \<Rightarrow>
               (Ready (Some (Inr ct)), en\<lparr>sealer := s, en_chunk := Some aead_tag, en_state := EncapDone\<rparr>)))"

definition encap_final ::
  "octets_api \<Rightarrow> 's sealer \<Rightarrow> ('s, 'e) encapsulated
     \<Rightarrow> (bytes, 'e) result option poll \<times> ('s, 'e) encapsulated" where
  "encap_final oct seal en =
     (case seal (sealer en) [] (ascii ''final'') of
        (r, s) \<Rightarrow>
          (case map_hpke_err ''could not seal content'' r of
             Inl e \<Rightarrow> (Ready (Some (Inl e)), en\<lparr>sealer := s\<rparr>)
           | Inr (_, aead_tag) \<Rightarrow>
               (case encoded_len oct 0 of
                  Inl e \<Rightarrow> (Ready (Some (Inl e)), en\<lparr>sealer := s\<rparr>)
                | Inr indicator \<Rightarrow>
                    (Ready (Some (Inr indicator)),
                     en\<lparr>sealer := s, en_chunk := Some aead_tag, en_state := EncapDone\<rparr>))))"

definition encap_chunk ::
  "octets_api \<Rightarrow> 's sealer \<Rightarrow> ('s, 'e) encapsulated \<Rightarrow> bytes
     \<Rightarrow> (bytes, 'e) result option poll \<times> ('s, 'e) encapsulated" where
  "encap_chunk oct seal en c =
     (if c = [] then (Ready (Some (Inr c)), en)
      else case seal (sealer en) c [] of
        (r, s) \<Rightarrow>
          (case map_hpke_err ''could not seal content'' r of
             Inl e \<Rightarrow> (Ready (Some (Inl e)), en\<lparr>sealer := s\<rparr>)
           | Inr (ct, aead_tag) \<Rightarrow>
               (case encoded_len oct (length ct + length aead_tag) of
                  Inl e \<Rightarrow> (Ready (Some (Inl e)), en\<lparr>sealer := s\<rparr>)
                | Inr l \<Rightarrow>
                    (Ready (Some (Inr l)),
                     en\<lparr>sealer := s, en_chunk := Some ct, en_state := Chunked (Tag aead_tag)\<rparr>))))"

definition encap_poll_next ::
  "octets_api \<Rightarrow> 's sealer \<Rightarrow> ('s, 'e) encapsulated
     \<Rightarrow> (bytes, 'e) result option poll \<times> ('s, 'e) encapsulated" where
  "encap_poll_next oct seal en =
     (case en_chunk en of
        Some c \<Rightarrow> (Ready (Some (Inr c)), en\<lparr>en_chunk := None\<rparr>)
      | None \<Rightarrow>
          (case en_state en of
             NonChunked \<Rightarrow>
               (case poll_read_to_end (en_buf en) of
                  (Pending, sb) \<Rightarrow> (Pending, en\<lparr>en_buf := sb\<rparr>)
                | (Ready (Inl e), sb) \<Rightarrow> (Ready (Some (Inl e)), en\<lparr>en_buf := sb\<rparr>)
                | (Ready (Inr content), sb) \<Rightarrow> encap_content seal (en\<lparr>en_buf := sb\<rparr>) content)
           | Chunked ChunkLen \<Rightarrow>
               (case buf_poll_next (en_buf en) of
                  (Pending, sb) \<Rightarrow> (Pending, en\<lparr>en_buf := sb\<rparr>)
                | (Ready (Some (Inl e)), sb) \<Rightarrow> (Ready (Some (Inl e)), en\<lparr>en_buf := sb\<rparr>)
                | (Ready None, sb) \<Rightarrow> encap_final oct seal (en\<lparr>en_buf := sb\<rparr>)
                | (Ready (Some (Inr c)), sb) \<Rightarrow> encap_chunk oct seal (en\<lparr>en_buf := sb\<rparr>) c)
           | Chunked (Tag aead_tag) \<Rightarrow>
               (Ready (Some (Inr aead_tag)), en\<lparr>en_state := Chunked ChunkLen\<rparr>)
           | EncapDone \<Rightarrow> (Ready None, en)))"

subsection \<open>Decapsulation\<close>

datatype decap_state = DecapChunkLen | DecapChunk "nat option" | DecapDone

record ('o, 'e) decapsulated =
  de_state :: decap_state
  opener :: 'o
  de_buf :: "'e stream_buf"

definition decapsulated_new :: "'o \<Rightarrow> 'e stream_buf \<Rightarrow> ('o, 'e) decapsulated" where
  "decapsulated_new opn sb = \<lparr>de_state = DecapChunkLen, opener = opn, de_buf = sb\<rparr>"

text \<open>After the loop: open the chunk.\<close>

definition decap_open ::
  "'o opener \<Rightarrow> ('o, 'e) decapsulated \<Rightarrow> bytes \<Rightarrow> bytes
     \<Rightarrow> (bytes, 'e) result option poll \<times> ('o, 'e) decapsulated" where
  "decap_open unseal de aad c =
     (case unseal (opener de) c aad of
        (r, opn) \<Rightarrow> (Ready (Some (map_hpke_err ''could not open chunk'' r)), de\<lparr>opener := opn\<rparr>))"

function decap_poll_next ::
  "octets_api \<Rightarrow> 'o opener \<Rightarrow> ('o, 'e) decapsulated
     \<Rightarrow> (bytes, 'e) result option poll \<times> ('o, 'e) decapsulated" where
  "decap_poll_next oct unseal de =
     (case de_state de of
        DecapChunkLen \<Rightarrow>
          (case poll_decode_varint_usize oct (de_buf de) of
             (Pending, sb) \<Rightarrow> (Pending, de\<lparr>de_buf := sb\<rparr>)
           | (Ready (Inl e), sb) \<Rightarrow> (Ready (Some (Inl e)), de\<lparr>de_buf := sb\<rparr>)
           | (Ready (Inr len), sb) \<Rightarrow>
               decap_poll_next oct unseal
                 (de\<lparr>de_buf := sb, de_state := DecapChunk (if len = 0 then None else Some len)\<rparr>))
      | DecapChunk (Some len) \<Rightarrow>
          (case poll_read_exact len (de_buf de) of
             (Pending, sb) \<Rightarrow> (Pending, de\<lparr>de_buf := sb\<rparr>)
           | (Ready (Inl e), sb) \<Rightarrow> (Ready (Some (Inl e)), de\<lparr>de_buf := sb\<rparr>)
           | (Ready (Inr c), sb) \<Rightarrow>
               decap_open unseal (de\<lparr>de_buf := sb, de_state := DecapChunkLen\<rparr>) [] c)
      | DecapChunk None \<Rightarrow>
          (case poll_read_to_end (de_buf de) of
             (Pending, sb) \<Rightarrow> (Pending, de\<lparr>de_buf := sb\<rparr>)
           | (Ready (Inl e), sb) \<Rightarrow> (Ready (Some (Inl e)), de\<lparr>de_buf := sb\<rparr>)
           | (Ready (Inr c), sb) \<Rightarrow>
               decap_open unseal (de\<lparr>de_buf := sb, de_state := DecapDone\<rparr>) (ascii ''final'') c)
      | DecapDone \<Rightarrow> (Ready None, de))"
  by pat_completeness auto
termination
  by (relation "measure (\<lambda>(oct, unseal, de). if de_state de = DecapChunkLen then 1 else 0)") auto

declare decap_poll_next.simps [simp del]

subsection \<open>The stream of an encapsulated message\<close>

definition encap_polls :: "('s, 'e) encapsulated \<Rightarrow> nat" where
  "encap_polls en = (if en_chunk en = None then 0 else 1) +
     (case en_state en of
        EncapDone \<Rightarrow> 0
      | NonChunked \<Rightarrow> 2 + weight (en_buf en)
      | Chunked ChunkLen \<Rightarrow> 2 + 3 * weight (en_buf en)
      | Chunked (Tag _) \<Rightarrow> 3 + 3 * weight (en_buf en))"

definition encap_events :: "octets_api \<Rightarrow> 's sealer \<Rightarrow> ('s, 'e) encapsulated \<Rightarrow> 'e stream" where
  "encap_events oct seal en = events_upto (Suc (encap_polls en)) (encap_poll_next oct seal) en"

lemma weight_buf_next:
  "buf_poll_next sb = (Pending, sb') \<Longrightarrow> weight sb' < weight sb"
  "buf_poll_next sb = (Ready (Some (Inr d)), sb') \<Longrightarrow> weight sb' < weight sb"
  by (cases "stream sb" rule: stream_poll_next.cases;
      force simp: buf_poll_next_def weight_def split: if_splits)+

lemma encap_step_polls:
  "encap_content seal en c = (p, en') \<Longrightarrow> goes_on p \<Longrightarrow> encap_polls en' = 1"
  "encap_final oct seal en = (p, en') \<Longrightarrow> goes_on p \<Longrightarrow> encap_polls en' = 1"
  "encap_chunk oct seal en c = (p, en') \<Longrightarrow> goes_on p \<Longrightarrow> en_state en = Chunked ChunkLen \<Longrightarrow> en_chunk en = None
     \<Longrightarrow> encap_polls en' \<le> 4 + 3 * weight (en_buf en)"
  by (auto simp: encap_content_def encap_final_def encap_chunk_def encap_polls_def
      split: prod.splits sum.splits if_splits)

lemma encap_progress:
  assumes r: "encap_poll_next oct seal en = (p, en')" and go: "goes_on p"
  shows "encap_polls en' < encap_polls en"
proof (cases "en_chunk en")
  case (Some c)
  with r show ?thesis
    by (auto simp: encap_poll_next_def encap_polls_def split: encap_state.split chunk_state.split)
next
  case None
  have chunk: "encap_polls en' < 2 + 3 * weight (en_buf en)"
    if "buf_poll_next (en_buf en) = (Ready (Some (Inr c)), sb)" "en_state en = Chunked ChunkLen"
      "encap_chunk oct seal (en\<lparr>en_buf := sb\<rparr>) c = (p, en')" for c sb
    using encap_step_polls(3) [OF that(3) go] weight_buf_next(2) [OF that(1)] that(2) None by simp
  show ?thesis
    using r go None
    by (auto simp: encap_poll_next_def encap_polls_def [of en] dest: encap_step_polls(1,2) chunk
        split: encap_state.splits chunk_state.splits prod.splits poll.splits sum.splits option.splits)
      (auto simp: encap_polls_def dest: weight_buf_next(1) weight_read_to_end)
qed

interpretation encap: progressing_stream "encap_poll_next oct seal" encap_polls
  by unfold_locales (rule encap_progress)

text \<open>What a chunked message is made of, from the content as the buffer hands it out.\<close>

definition inner_events :: "'e stream_buf \<Rightarrow> 'e stream" where
  "inner_events sb = (if buf sb = [] then [] else [Yield (Inr (buf sb))]) @ stream sb"

fun sealed_events :: "octets_api \<Rightarrow> 's sealer \<Rightarrow> 's \<Rightarrow> 'e stream \<Rightarrow> 'e stream" where
  "sealed_events oct seal s [] =
     (case seal s [] (ascii ''final'') of
        (r, _) \<Rightarrow>
          (case map_hpke_err ''could not seal content'' r of
             Inl e \<Rightarrow> [Yield (Inl e)]
           | Inr (_, aead_tag) \<Rightarrow>
               (case encoded_len oct 0 of
                  Inl e \<Rightarrow> [Yield (Inl e)]
                | Inr indicator \<Rightarrow> [Yield (Inr indicator), Yield (Inr aead_tag)])))"
| "sealed_events oct seal s (Wait # st) = Wait # sealed_events oct seal s st"
| "sealed_events oct seal s (Yield (Inl e) # st) = [Yield (Inl e)]"
| "sealed_events oct seal s (Yield (Inr d) # st) =
     (if d = [] then Yield (Inr []) # sealed_events oct seal s st
      else case seal s d [] of
        (r, s') \<Rightarrow>
          (case map_hpke_err ''could not seal content'' r of
             Inl e \<Rightarrow> [Yield (Inl e)]
           | Inr (ct, aead_tag) \<Rightarrow>
               (case encoded_len oct (length ct + length aead_tag) of
                  Inl e \<Rightarrow> [Yield (Inl e)]
                | Inr l \<Rightarrow> Yield (Inr l) # Yield (Inr ct) # Yield (Inr aead_tag)
                    # sealed_events oct seal s' st)))"

lemma encap_events_tag:
  assumes "en_chunk en = Some c" "en_state en = Chunked (Tag t)"
  shows "encap_events oct seal en = Yield (Inr c) # Yield (Inr t)
    # encap_events oct seal (en\<lparr>en_chunk := None, en_state := Chunked ChunkLen\<rparr>)"
proof -
  have "encap_poll_next oct seal en = (Ready (Some (Inr c)), en\<lparr>en_chunk := None\<rparr>)"
    "encap_poll_next oct seal (en\<lparr>en_chunk := None\<rparr>) =
       (Ready (Some (Inr t)), en\<lparr>en_chunk := None, en_state := Chunked ChunkLen\<rparr>)"
    using assms by (simp_all add: encap_poll_next_def)
  from encap.events_step [OF this(1)] encap.events_step [OF this(2)] show ?thesis
    by (simp add: encap_events_def)
qed

lemma encap_events_done:
  assumes "en_chunk en = Some c" "en_state en = EncapDone"
  shows "encap_events oct seal en = [Yield (Inr c)]"
proof -
  have "encap_poll_next oct seal en = (Ready (Some (Inr c)), en\<lparr>en_chunk := None\<rparr>)"
    "encap_poll_next oct seal (en\<lparr>en_chunk := None\<rparr>) = (Ready None, en\<lparr>en_chunk := None\<rparr>)"
    using assms by (simp_all add: encap_poll_next_def)
  from encap.events_step [OF this(1)] encap.events_step [OF this(2)] show ?thesis
    by (simp add: encap_events_def)
qed

lemma encap_events_start:
  assumes "en_chunk en = Some c"
  shows "encap_events oct seal en = Yield (Inr c) # encap_events oct seal (en\<lparr>en_chunk := None\<rparr>)"
proof -
  have "encap_poll_next oct seal en = (Ready (Some (Inr c)), en\<lparr>en_chunk := None\<rparr>)"
    using assms by (simp add: encap_poll_next_def)
  from encap.events_step [OF this] show ?thesis by (simp add: encap_events_def)
qed

text \<open>One poll for the next piece of chunked content.\<close>

lemma encap_events_next:
  assumes "en_chunk en = None" "en_state en = Chunked ChunkLen" "inner_events (en_buf en) = Yield (Inr d) # st"
    and sb': "\<And>sb. buf_poll_next (en_buf en) = (Ready (Some (Inr d)), sb) \<Longrightarrow> sb = sb'"
  shows "encap_events oct seal en = (if d = [] then Yield (Inr []) # encap_events oct seal (en\<lparr>en_buf := sb'\<rparr>)
      else case seal (sealer en) d [] of
        (r, s') \<Rightarrow>
          (case map_hpke_err ''could not seal content'' r of
             Inl e \<Rightarrow> [Yield (Inl e)]
           | Inr (ct, aead_tag) \<Rightarrow>
               (case encoded_len oct (length ct + length aead_tag) of
                  Inl e \<Rightarrow> [Yield (Inl e)]
                | Inr l \<Rightarrow> Yield (Inr l) # Yield (Inr ct) # Yield (Inr aead_tag)
                    # encap_events oct seal (en\<lparr>en_buf := sb', sealer := s'\<rparr>))))"
proof -
  have "buf_poll_next (en_buf en) = (Ready (Some (Inr d)), sb')"
    using assms(3) sb' by (cases "buf (en_buf en) = []") (auto simp: inner_events_def buf_poll_next_def)
  with assms(1,2) have p: "encap_poll_next oct seal en = encap_chunk oct seal (en\<lparr>en_buf := sb'\<rparr>) d"
    by (simp add: encap_poll_next_def)
  note step = encap.events_step [of oct seal en, folded encap_events_def, unfolded p]
  have eta: "en\<lparr>en_buf := sb', sealer := s, en_chunk := None, en_state := Chunked ChunkLen\<rparr>
      = en\<lparr>en_buf := sb', sealer := s\<rparr>" for s
    using assms(1,2) by (cases en) simp
  show ?thesis
    using step assms(1,2)
    by (auto simp: encap_chunk_def encap_events_tag eta split: prod.split sum.split)
qed

lemma encap_events_chunked_aux:
  "inner_events (en_buf en) = st \<Longrightarrow> en_chunk en = None \<Longrightarrow> en_state en = Chunked ChunkLen \<Longrightarrow>
   encap_events oct seal en = sealed_events oct seal (sealer en) st"
proof (induction st arbitrary: en)
  case Nil
  then have "buf_poll_next (en_buf en) = (Ready None, en_buf en)"
    by (simp add: inner_events_def buf_poll_next_def split: if_splits)
  with Nil have p: "encap_poll_next oct seal en = encap_final oct seal en"
    by (simp add: encap_poll_next_def)
  note step = encap.events_step [of oct seal en, folded encap_events_def, unfolded p]
  show ?case
    using step Nil by (auto simp: encap_final_def encap_events_done split: prod.split sum.split)
next
  case (Cons e st)
  show ?case
  proof (cases e rule: event_cases)
    case (D d)
    obtain sb where sb: "buf_poll_next (en_buf en) = (Ready (Some (Inr d)), sb)" "inner_events sb = st"
      using Cons.prems(1) D
      by (cases "buf (en_buf en) = []") (auto simp: inner_events_def buf_poll_next_def)
    have next_sb: "\<And>sb1. buf_poll_next (en_buf en) = (Ready (Some (Inr d)), sb1) \<Longrightarrow> sb1 = sb"
      using sb(1) by simp
    show ?thesis
      using encap_events_next [OF Cons.prems(2,3) Cons.prems(1) [unfolded D] next_sb, of oct seal]
        Cons.IH [of "en\<lparr>en_buf := sb\<rparr>"] Cons.IH [of "en\<lparr>en_buf := sb, sealer := s\<rparr>" for s] sb(2) Cons.prems(2,3) D
      by (auto split: prod.split sum.split)
  next
    case W
    obtain sb where sb: "buf_poll_next (en_buf en) = (Pending, sb)" "inner_events sb = st"
      using Cons.prems(1) W
      by (cases "buf (en_buf en) = []") (auto simp: inner_events_def buf_poll_next_def)
    then have "encap_poll_next oct seal en = (Pending, en\<lparr>en_buf := sb\<rparr>)"
      using Cons.prems(2,3) by (simp add: encap_poll_next_def)
    from encap.events_step [OF this, folded encap_events_def] Cons.IH [of "en\<lparr>en_buf := sb\<rparr>"] sb Cons.prems(2,3) W
    show ?thesis by simp
  next
    case (E x)
    obtain sb where sb: "buf_poll_next (en_buf en) = (Ready (Some (Inl x)), sb)"
      using Cons.prems(1) E
      by (cases "buf (en_buf en) = []") (auto simp: inner_events_def buf_poll_next_def)
    then have "encap_poll_next oct seal en = (Ready (Some (Inl x)), en\<lparr>en_buf := sb\<rparr>)"
      using Cons.prems(2,3) by (simp add: encap_poll_next_def)
    from encap.events_step [OF this, folded encap_events_def] E show ?thesis by simp
  qed
qed

lemma encap_events_chunked:
  "encap_events oct seal (encap_chunked s c sb) = Yield (Inr c) # sealed_events oct seal s (inner_events sb)"
  using encap_events_start [of "encap_chunked s c sb" c oct seal]
    encap_events_chunked_aux [of "(encap_chunked s c sb)\<lparr>en_chunk := None\<rparr>" "inner_events sb" oct seal]
  by (simp add: encap_chunked_def)

text \<open>A non-chunked message is its content, sealed once.\<close>

lemma encap_events_content:
  assumes "en_chunk en = None" "en_state en = NonChunked"
  shows "(tail (en_buf en) = Some e \<longrightarrow>
        stream_bytes (encap_events oct seal en) = [] \<and> stream_tail (encap_events oct seal en) = Some e)
    \<and> (tail (en_buf en) = None \<longrightarrow> seal (sealer en) (avail (en_buf en)) [] = (Inr (ct, tag), s') \<longrightarrow>
        stream_bytes (encap_events oct seal en) = ct @ tag \<and> stream_tail (encap_events oct seal en) = None)"
  using assms
proof (induction "weight (en_buf en)" arbitrary: en rule: less_induct)
  case less
  obtain q sb where q: "poll_read_to_end (en_buf en) = (q, sb)" by (cases "poll_read_to_end (en_buf en)")
  note view = poll_read_to_end_view [OF q]
  consider "q = Pending" | e' where "q = Ready (Inl e')" | c where "q = Ready (Inr c)"
    by (cases q) (metis sum.exhaust)+
  then show ?case
  proof cases
    case 1
    with q less.prems have "encap_poll_next oct seal en = (Pending, en\<lparr>en_buf := sb\<rparr>)"
      by (simp add: encap_poll_next_def)
    from encap.events_step [OF this, folded encap_events_def] 1 view less.prems
      less.hyps [of "en\<lparr>en_buf := sb\<rparr>"] weight_read_to_end [of "en_buf en" sb] q
    show ?thesis by (simp add: same_view_def)
  next
    case (2 e')
    with q less.prems have "encap_poll_next oct seal en = (Ready (Some (Inl e')), en\<lparr>en_buf := sb\<rparr>)"
      by (simp add: encap_poll_next_def)
    from encap.events_step [OF this, folded encap_events_def] 2 view show ?thesis by auto
  next
    case (3 c)
    with q less.prems have p: "encap_poll_next oct seal en = encap_content seal (en\<lparr>en_buf := sb\<rparr>) c"
      by (simp add: encap_poll_next_def)
    note step = encap.events_step [of oct seal en, folded encap_events_def, unfolded p]
    show ?thesis
      using step 3 view
      by (auto simp: encap_content_def map_hpke_err_def encap_events_done split: prod.split sum.split)
  qed
qed

lemma encap_events_non_chunked:
  assumes "tail sb = None" "seal s (avail sb) [] = (Inr (ct, tag), s')"
  shows "stream_bytes (encap_events oct seal (encap_non_chunked s c sb)) = c @ ct @ tag"
    and "stream_tail (encap_events oct seal (encap_non_chunked s c sb)) = None"
proof -
  let ?en = "(encap_non_chunked s c sb)\<lparr>en_chunk := None\<rparr>"
  have "encap_events oct seal (encap_non_chunked s c sb) = Yield (Inr c) # encap_events oct seal ?en"
    by (rule encap_events_start) (simp add: encap_non_chunked_def)
  moreover have "stream_bytes (encap_events oct seal ?en) = ct @ tag \<and> stream_tail (encap_events oct seal ?en) = None"
    using encap_events_content [of ?en] assms by (simp add: encap_non_chunked_def)
  ultimately show "stream_bytes (encap_events oct seal (encap_non_chunked s c sb)) = c @ ct @ tag"
    "stream_tail (encap_events oct seal (encap_non_chunked s c sb)) = None" by simp_all
qed

subsection \<open>What a decapsulated stream delivers\<close>

text \<open>
  \<open>opens oct unseal st opn bs t out t'\<close>: decapsulation in state \<open>st\<close> with opener
  \<open>opn\<close>, in front of the bytes \<open>bs\<close> that end with \<open>t\<close>, delivers \<open>out\<close>
  and then ends or fails. It ends without an error only after a chunk was opened as the
  final one.
\<close>

inductive opens ::
  "octets_api \<Rightarrow> 'o opener \<Rightarrow> decap_state \<Rightarrow> 'o \<Rightarrow> bytes \<Rightarrow> 'e err option \<Rightarrow> bytes \<Rightarrow> 'e err option \<Rightarrow> bool"
  for oct :: octets_api and unseal :: "'o opener" where
  no_length: "get_varint oct bs = None \<Longrightarrow>
    opens oct unseal DecapChunkLen opn bs t [] (Some (end_error ''could not accumulate more data'' t))"
| big_length: "get_varint oct bs = Some (v, rest) \<Longrightarrow> usize_max oct < unat v \<Longrightarrow>
    opens oct unseal DecapChunkLen opn bs t [] (Some (invalid_data TryFromIntError))"
| got_length: "get_varint oct bs = Some (v, rest) \<Longrightarrow> unat v \<le> usize_max oct \<Longrightarrow>
    opens oct unseal (DecapChunk (if unat v = 0 then None else Some (unat v))) opn rest t out t' \<Longrightarrow>
    opens oct unseal DecapChunkLen opn bs t out t'"
| short_chunk: "length bs < n \<Longrightarrow>
    opens oct unseal (DecapChunk (Some n)) opn bs t [] (Some (end_error ''could not read exact amount of bytes'' t))"
| bad_chunk: "n \<le> length bs \<Longrightarrow> unseal opn (take n bs) [] = (r, opn') \<Longrightarrow>
    map_hpke_err ''could not open chunk'' r = Inl e \<Longrightarrow>
    opens oct unseal (DecapChunk (Some n)) opn bs t [] (Some e)"
| good_chunk: "n \<le> length bs \<Longrightarrow> unseal opn (take n bs) [] = (Inr pt, opn') \<Longrightarrow>
    opens oct unseal DecapChunkLen opn' (drop n bs) t out t' \<Longrightarrow>
    opens oct unseal (DecapChunk (Some n)) opn bs t (pt @ out) t'"
| failed_final: "opens oct unseal (DecapChunk None) opn bs (Some e) [] (Some e)"
| bad_final: "unseal opn bs (ascii ''final'') = (r, opn') \<Longrightarrow>
    map_hpke_err ''could not open chunk'' r = Inl e \<Longrightarrow>
    opens oct unseal (DecapChunk None) opn bs None [] (Some e)"
| good_final: "unseal opn bs (ascii ''final'') = (Inr pt, opn') \<Longrightarrow>
    opens oct unseal (DecapChunk None) opn bs None pt None"
| finished: "opens oct unseal DecapDone opn bs t [] None"

inductive_cases opens_length: "opens oct unseal DecapChunkLen opn bs t out t'"
inductive_cases opens_chunk: "opens oct unseal (DecapChunk (Some n)) opn bs t out t'"
inductive_cases opens_final: "opens oct unseal (DecapChunk None) opn bs t out t'"
inductive_cases opens_done: "opens oct unseal DecapDone opn bs t out t'"

lemma map_hpke_err_Inr [simp]: "map_hpke_err msg r = Inr x \<longleftrightarrow> r = Inr x"
  by (auto simp: map_hpke_err_def split: sum.splits err.splits)

lemma opens_deterministic:
  "opens oct unseal st opn bs t out1 t1 \<Longrightarrow> opens oct unseal st opn bs t out2 t2 \<Longrightarrow> out1 = out2 \<and> t1 = t2"
proof (induction arbitrary: out2 t2 rule: opens.induct)
  case (no_length bs opn t)
  from no_length.prems show ?case by (rule opens_length) (use no_length.hyps in simp_all)
next
  case (big_length bs v rest opn t)
  from big_length.prems show ?case by (rule opens_length) (use big_length.hyps in simp_all)
next
  case (got_length bs v rest opn t out t')
  from got_length.prems show ?case
  proof (rule opens_length)
    fix v' rest'
    assume g: "get_varint oct bs = Some (v', rest')"
      and o: "opens oct unseal (DecapChunk (if unat v' = 0 then None else Some (unat v'))) opn rest' t out2 t2"
    from g got_length.hyps(1) have "v' = v" "rest' = rest" by simp_all
    from o [unfolded this] show ?case by (rule got_length.IH)
  qed (use got_length.hyps(1,2) in simp_all)
next
  case (short_chunk bs n opn t)
  from short_chunk.prems show ?case by (rule opens_chunk) (use short_chunk.hyps in simp_all)
next
  case (bad_chunk n bs opn r opn' e t)
  from bad_chunk.prems show ?case by (rule opens_chunk) (use bad_chunk.hyps in \<open>auto simp: map_hpke_err_def\<close>)
next
  case (good_chunk n bs opn pt opn' t out t')
  from good_chunk.prems show ?case
    by (rule opens_chunk) (use good_chunk.hyps(1,2) in \<open>auto simp: map_hpke_err_def dest: good_chunk.IH\<close>)
next
  case (failed_final opn bs e)
  from failed_final.prems show ?case by (rule opens_final) simp_all
next
  case (bad_final opn bs r opn' e)
  from bad_final.prems show ?case by (rule opens_final) (use bad_final.hyps in \<open>auto simp: map_hpke_err_def\<close>)
next
  case (good_final opn bs pt opn')
  from good_final.prems show ?case by (rule opens_final) (use good_final.hyps in \<open>auto simp: map_hpke_err_def\<close>)
next
  case (finished opn bs t)
  from finished.prems show ?case by (rule opens_done) simp_all
qed

definition decap_polls :: "('o, 'e) decapsulated \<Rightarrow> nat" where
  "decap_polls de =
     (case de_state de of
        DecapDone \<Rightarrow> 0
      | DecapChunkLen \<Rightarrow> 1 + 2 * weight (de_buf de)
      | DecapChunk _ \<Rightarrow> 2 + 2 * weight (de_buf de))"

definition decap_events :: "octets_api \<Rightarrow> 'o opener \<Rightarrow> ('o, 'e) decapsulated \<Rightarrow> 'e stream" where
  "decap_events oct unseal de = events_upto (Suc (decap_polls de)) (decap_poll_next oct unseal) de"

lemma weight_varint_usize:
  "poll_decode_varint_usize oct sb = (Pending, sb') \<Longrightarrow> weight sb' < weight sb"
  "poll_decode_varint_usize oct sb = (Ready (Inr v), sb') \<Longrightarrow> weight sb' \<le> weight sb"
  by (auto simp: poll_decode_varint_usize_def dest: weight_varint
      split: prod.splits poll.splits sum.splits)

lemma decap_open_state:
  "decap_open unseal de aad c = (p, de') \<Longrightarrow> de_state de' = de_state de \<and> de_buf de' = de_buf de"
  by (auto simp: decap_open_def split: prod.splits)

text \<open>A poll in the middle of a chunk, or in the final one, makes progress.\<close>

lemma decap_chunk_progress:
  assumes "decap_poll_next oct unseal de = (p, de')" "goes_on p" "de_state de = DecapChunk m" "m \<noteq> Some 0"
  shows "decap_polls de' \<le> 2 * weight (de_buf de)"
proof (cases m)
  case None
  with assms(1,3) assms(2) show ?thesis
    by (auto simp: decap_poll_next.simps [of oct unseal de] decap_polls_def
        dest!: decap_open_state weight_read_to_end split: prod.splits poll.splits sum.splits)
next
  case (Some n)
  with assms(4) have n: "0 < n" by simp
  from Some assms(1,2,3) show ?thesis
    using weight_read_exact [of n "de_buf de"] n
    by (auto simp: decap_poll_next.simps [of oct unseal de] decap_polls_def
        dest!: decap_open_state split: prod.splits poll.splits sum.splits)
qed

lemma decap_progress:
  assumes r: "decap_poll_next oct unseal de = (p, de')" and go: "goes_on p"
  shows "decap_polls de' < decap_polls de"
proof (cases "de_state de")
  case DecapDone
  with r go show ?thesis by (auto simp: decap_poll_next.simps [of oct unseal de])
next
  case (DecapChunk m)
  show ?thesis
  proof (cases "m = Some 0")
    case True
    have read: "poll_read_exact 0 (de_buf de) = (Ready (Inr []), de_buf de)"
      by (simp add: poll_read_exact_eq)
    from True DecapChunk r have "de_state de' = DecapChunkLen" "de_buf de' = de_buf de"
      by (auto simp: decap_poll_next.simps [of oct unseal de] read dest!: decap_open_state)
    with DecapChunk show ?thesis by (simp add: decap_polls_def)
  next
    case False
    from decap_chunk_progress [OF r go DecapChunk False] DecapChunk show ?thesis
      by (simp add: decap_polls_def)
  qed
next
  case DecapChunkLen
  obtain q sb where q: "poll_decode_varint_usize oct (de_buf de) = (q, sb)"
    by (cases "poll_decode_varint_usize oct (de_buf de)")
  consider "q = Pending" | e where "q = Ready (Inl e)" | n where "q = Ready (Inr n)"
    by (cases q) (metis sum.exhaust)+
  then show ?thesis
  proof cases
    case (3 n)
    let ?de = "de\<lparr>de_buf := sb, de_state := DecapChunk (if n = 0 then None else Some n)\<rparr>"
    from 3 q r DecapChunkLen have "decap_poll_next oct unseal ?de = (p, de')"
      by (simp add: decap_poll_next.simps [of oct unseal de])
    from decap_chunk_progress [OF this go] have "decap_polls de' \<le> 2 * weight sb" by (cases "n = 0") simp_all
    with weight_varint_usize(2) [of oct "de_buf de" n sb] q 3 DecapChunkLen show ?thesis
      by (simp add: decap_polls_def)
  qed (use q r go DecapChunkLen weight_varint_usize(1) [of oct "de_buf de" sb] in
      \<open>auto simp: decap_poll_next.simps [of oct unseal de] decap_polls_def\<close>)
qed

abbreviation decap_delivers ::
  "octets_api \<Rightarrow> 'o opener \<Rightarrow> ('o, 'e) decapsulated \<Rightarrow> bytes \<Rightarrow> 'e err option \<Rightarrow> bool" where
  "decap_delivers oct unseal de \<equiv>
     opens oct unseal (de_state de) (opener de) (avail (de_buf de)) (tail (de_buf de))"

lemma good_chunk_append:
  "unseal opn d [] = (Inr pt, opn') \<Longrightarrow> opens oct unseal DecapChunkLen opn' bs t out t' \<Longrightarrow>
   opens oct unseal (DecapChunk (Some (length d))) opn (d @ bs) t (pt @ out) t'"
  by (rule good_chunk) simp_all

lemma bad_chunk_append:
  "unseal opn d [] = (r, opn') \<Longrightarrow> map_hpke_err ''could not open chunk'' r = Inl e \<Longrightarrow>
   opens oct unseal (DecapChunk (Some (length d))) opn (d @ bs) t [] (Some e)"
  by (rule bad_chunk) simp_all

text \<open>The branches of the loop that end it.\<close>

lemma decap_chunk_ok:
  assumes wf: "wf_buf (de_buf de)" and r: "decap_poll_next oct unseal de = (p, de')"
    and st: "de_state de \<noteq> DecapChunkLen"
  shows "step_delivers (\<lambda>de. wf_buf (de_buf de)) (decap_delivers oct unseal) de p de'"
proof (cases "de_state de")
  case DecapDone
  with r finished show ?thesis by (auto simp: decap_poll_next.simps [of oct unseal de] step_delivers_def)
next
  case (DecapChunk m)
  show ?thesis
  proof (cases m)
    case (Some n)
    obtain q sb where q: "poll_read_exact n (de_buf de) = (q, sb)" by (cases "poll_read_exact n (de_buf de)")
    note view = poll_read_exact_view [OF wf q]
    note step = decap_poll_next.simps [of oct unseal de] decap_open_def step_delivers_def
    consider "q = Pending" | e where "q = Ready (Inl e)" | d where "q = Ready (Inr d)"
      by (cases q) (metis sum.exhaust)+
    then show ?thesis
    proof cases
      case 1
      with q r DecapChunk Some view show ?thesis by (auto simp: step same_view_def)
    next
      case 2
      with q r DecapChunk Some view short_chunk show ?thesis by (auto simp: step)
    next
      case (3 d)
      with view have d: "avail (de_buf de) = d @ avail sb" "length d = n" "wf_buf sb" "tail sb = tail (de_buf de)"
        by simp_all
      obtain r' opn where u: "unseal (opener de) d [] = (r', opn)" by (cases "unseal (opener de) d []")
      from q r DecapChunk Some 3 u d show ?thesis
        by (auto simp: step split: sum.split intro: bad_chunk_append good_chunk_append)
    qed
  next
    case None
    obtain q sb where q: "poll_read_to_end (de_buf de) = (q, sb)" by (cases "poll_read_to_end (de_buf de)")
    note view = poll_read_to_end_view [OF q]
    note step = decap_poll_next.simps [of oct unseal de] decap_open_def step_delivers_def
    consider "q = Pending" | e where "q = Ready (Inl e)" | d where "q = Ready (Inr d)"
      by (cases q) (metis sum.exhaust)+
    then show ?thesis
    proof cases
      case 1
      with q r DecapChunk None view wf show ?thesis by (auto simp: step same_view_def)
    next
      case 2
      with q r DecapChunk None view failed_final show ?thesis by (auto simp: step)
    next
      case (3 d)
      obtain r' opn where u: "unseal (opener de) d (ascii ''final'') = (r', opn)"
        by (cases "unseal (opener de) d (ascii ''final'')")
      from q r DecapChunk None 3 u view wf show ?thesis
        by (auto simp: step split: sum.split elim!: opens_done) (blast intro: bad_final good_final)+
    qed
  qed
qed (use st in simp)

context octets_crate
begin

lemma varint_usize_view:
  assumes "wf_buf sb" "poll_decode_varint_usize oct sb = (p, sb')"
  shows "case p of
      Pending \<Rightarrow> wf_buf sb' \<and> same_view sb' sb
    | Ready (Inl e) \<Rightarrow>
        (get_varint oct (avail sb) = None \<and> e = end_error ''could not accumulate more data'' (tail sb))
        \<or> (\<exists>v rest. get_varint oct (avail sb) = Some (v, rest) \<and> usize_max oct < unat v
             \<and> e = invalid_data TryFromIntError)
    | Ready (Inr n) \<Rightarrow> wf_buf sb' \<and> tail sb' = tail sb
        \<and> (\<exists>v. get_varint oct (avail sb) = Some (v, avail sb') \<and> unat v \<le> usize_max oct \<and> n = unat v)"
proof -
  obtain q sb1 where q: "poll_decode_varint_u64 oct sb = (q, sb1)" by (cases "poll_decode_varint_u64 oct sb")
  from vi.poll_with_octets_view [OF refl assms(1) q [unfolded poll_decode_varint_u64_def]] assms(2) q
  show ?thesis
    by (auto simp: poll_decode_varint_usize_def usize_try_from_def split: poll.splits sum.splits if_splits)
qed

lemma decap_ok:
  assumes wf: "wf_buf (de_buf de)" and r: "decap_poll_next oct unseal de = (p, de')"
  shows "step_delivers (\<lambda>de. wf_buf (de_buf de)) (decap_delivers oct unseal) de p de'"
proof (cases "de_state de = DecapChunkLen")
  case False
  with wf r show ?thesis by (intro decap_chunk_ok)
next
  case True
  obtain q sb where q: "poll_decode_varint_usize oct (de_buf de) = (q, sb)"
    by (cases "poll_decode_varint_usize oct (de_buf de)")
  note view = varint_usize_view [OF wf q] and step = decap_poll_next.simps [of oct unseal de]
  consider "q = Pending" | e where "q = Ready (Inl e)" | n where "q = Ready (Inr n)"
    by (cases q) (metis sum.exhaust)+
  then show ?thesis
  proof cases
    case 1
    with view q r True show ?thesis by (auto simp: step step_delivers_def same_view_def)
  next
    case 2
    with view q r True no_length big_length show ?thesis
      by (auto simp: step step_delivers_def)
  next
    case (3 n)
    with view obtain v where v: "get_varint oct (avail (de_buf de)) = Some (v, avail sb)"
        "unat v \<le> usize_max oct" "n = unat v" and sb: "wf_buf sb" "tail sb = tail (de_buf de)"
      by auto
    let ?de = "de\<lparr>de_buf := sb, de_state := DecapChunk (if n = 0 then None else Some n)\<rparr>"
    from 3 q r True have "decap_poll_next oct unseal ?de = (p, de')" by (simp add: step)
    with sb have "step_delivers (\<lambda>de. wf_buf (de_buf de)) (decap_delivers oct unseal) ?de p de'"
      by (intro decap_chunk_ok) simp_all
    then show ?thesis
    proof (rule step_delivers_mono)
      fix out t
      assume "decap_delivers oct unseal ?de out t"
      with sb(2) have "opens oct unseal (DecapChunk (if unat v = 0 then None else Some (unat v)))
          (opener de) (avail sb) (tail (de_buf de)) out t" unfolding v(3) by simp
      from got_length [OF v(1,2) this] True show "decap_delivers oct unseal de out t" by simp
    qed
  qed
qed

end

sublocale octets_crate \<subseteq> decap: delivering_stream "decap_poll_next oct unseal" decap_polls
    "\<lambda>de. wf_buf (de_buf de)" "decap_delivers oct unseal" for unseal
  by unfold_locales (rule decap_progress, assumption+, rule decap_ok)

context octets_crate
begin

lemma decap_delivered:
  "wf_buf sb \<Longrightarrow> opens oct unseal DecapChunkLen opn (avail sb) (tail sb)
     (stream_bytes (decap_events oct unseal (decapsulated_new opn sb)))
     (stream_tail (decap_events oct unseal (decapsulated_new opn sb)))"
  using decap.events_deliver [of "decapsulated_new opn sb" unseal]
  by (simp add: decap_events_def decapsulated_new_def)

end

subsection \<open>Round trips\<close>

text \<open>Every piece of the content can be sealed.\<close>

fun seals_ok :: "'s sealer \<Rightarrow> 's \<Rightarrow> 'e stream \<Rightarrow> bool" where
  "seals_ok seal s [] = (case seal s [] (ascii ''final'') of (Inr _, _) \<Rightarrow> True | _ \<Rightarrow> False)"
| "seals_ok seal s (Wait # st) = seals_ok seal s st"
| "seals_ok seal s (Yield (Inl e) # st) = True"
| "seals_ok seal s (Yield (Inr d) # st) =
     (if d = [] then seals_ok seal s st
      else case seal s d [] of (Inr _, s') \<Rightarrow> seals_ok seal s' st | _ \<Rightarrow> False)"

text \<open>
  A response context seals every stream that has fewer chunks than it has nonces, if its
  cipher does not refuse the data.
\<close>

context hpke_crate
begin

lemma seals_ok_context:
  assumes cipher: "\<And>key nonce aad pt. aead_encrypt hp (ac_aead_id ac) key nonce aad pt \<noteq> None"
  shows "wf_context hp ac' \<Longrightarrow> ac_aead_id ac' = ac_aead_id ac \<Longrightarrow>
    Suc (be_value (counter (chunk_nonce ac'))) + length st < 256 ^ nonce_size hp (ac_aead_id ac) \<Longrightarrow>
    seals_ok (context_seal hp) ac' st"
proof (induction st arbitrary: ac')
  case Nil
  then obtain ac'' where "context_seal hp ac' [] (ascii ''final'') =
     ((case aead_encrypt hp (ac_aead_id ac') (ac_aead_key ac')
            (nonce_at (initial (chunk_nonce ac')) (be_value (counter (chunk_nonce ac')))) (ascii ''final'') [] of
          None \<Rightarrow> Inl (Source SealError) | Some r \<Rightarrow> Inr r), ac'')"
    by (metis context_seal_result add_lessD1)
  with cipher Nil.prems(2) show ?case by (auto split: option.split)
next
  case (Cons e st)
  show ?case
  proof (cases e rule: event_cases)
    case (D d)
    from Cons.prems have "Suc (be_value (counter (chunk_nonce ac'))) < 256 ^ nonce_size hp (ac_aead_id ac')" by simp
    then obtain ac'' where a: "wf_context hp ac''" "ac_aead_id ac'' = ac_aead_id ac'"
      "be_value (counter (chunk_nonce ac'')) = Suc (be_value (counter (chunk_nonce ac')))"
      "context_seal hp ac' d [] =
       ((case aead_encrypt hp (ac_aead_id ac') (ac_aead_key ac')
            (nonce_at (initial (chunk_nonce ac')) (be_value (counter (chunk_nonce ac')))) [] d of
          None \<Rightarrow> Inl (Source SealError) | Some r \<Rightarrow> Inr r), ac'')"
      by (rule context_seal_result [OF Cons.prems(1)])
    from cipher Cons.prems(2) obtain r where "aead_encrypt hp (ac_aead_id ac') (ac_aead_key ac')
      (nonce_at (initial (chunk_nonce ac')) (be_value (counter (chunk_nonce ac')))) [] d = Some r" by fastforce
    with a Cons D show ?thesis by simp
  qed (use Cons in simp_all)
qed

end

text \<open>The lengths of the sealed chunks have an encoding.\<close>

definition chunks_fit :: "octets_api \<Rightarrow> nat \<Rightarrow> 'e stream \<Rightarrow> bool" where
  "chunks_fit oct n st \<longleftrightarrow>
     (\<forall>d. Yield (Inr d) \<in> set st \<longrightarrow> length d + n \<le> usize_max oct \<and> length d + n < 2 ^ 62)"

lemma chunks_fit_simps [simp]:
  "chunks_fit oct n []"
  "chunks_fit oct n (Wait # st) = chunks_fit oct n st"
  "chunks_fit oct n (Yield (Inl e) # st) = chunks_fit oct n st"
  "chunks_fit oct n (Yield (Inr d) # st) \<longleftrightarrow>
     length d + n \<le> usize_max oct \<and> length d + n < 2 ^ 62 \<and> chunks_fit oct n st"
  by (auto simp: chunks_fit_def)

locale sealed_stream = octets_crate oct + sealing seal unseal agree tag_len
  for oct :: octets_api and seal :: "'s sealer" and unseal :: "'o opener"
    and agree :: "'s \<Rightarrow> 'o \<Rightarrow> bool" and tag_len :: nat
begin

lemma encoded_len_bytes: "n < 2 ^ 62 \<Longrightarrow> encoded_len oct n = Inr (varint_bytes oct (of_nat n))"
proof -
  assume n: "n < 2 ^ 62"
  then have ok: "varint_ok (of_nat n)" by (simp add: varint_ok_def unat_of_nat)
  show ?thesis
    using writes_exact [OF writes_put_varint [OF ok] refl] ok by (simp add: encoded_len_def Let_def)
qed

lemma opens_sealed_chunk:
  assumes "agree s r" "seal s d [] = (Inr (ct, tg), s')" "d \<noteq> []"
    and "length d + tag_len \<le> usize_max oct" "length d + tag_len < 2 ^ 62"
    and rest: "\<And>r'. agree s' r' \<Longrightarrow> opens oct unseal DecapChunkLen r' bs t out t'"
  shows "opens oct unseal DecapChunkLen r
    (varint_bytes oct (of_nat (length ct + length tg)) @ ct @ tg @ bs) t (d @ out) t'"
proof -
  from seal_unseal [OF assms(1,2)] obtain r' where len: "length ct = length d" "length tg = tag_len"
    and u: "unseal r (ct @ tg) [] = (Inr d, r')" "agree s' r'" by blast
  let ?v = "of_nat (length ct + length tg) :: u64"
  have v: "unat ?v = length (ct @ tg)" "varint_ok ?v"
    using assms(5) len by (simp_all add: unat_of_nat varint_ok_def del: of_nat_add)
  have g: "get_varint oct (varint_bytes oct ?v @ ct @ tg @ bs) = Some (?v, (ct @ tg) @ bs)"
    using get_varint_append [OF v(2)] by simp
  have "opens oct unseal (DecapChunk (Some (length (ct @ tg)))) r ((ct @ tg) @ bs) t (d @ out) t'"
    using u rest by (intro good_chunk_append) simp_all
  then have "opens oct unseal (DecapChunk (if unat ?v = 0 then None else Some (unat ?v)))
      r ((ct @ tg) @ bs) t (d @ out) t'"
    unfolding v(1) using assms(3) len by auto
  moreover have "unat ?v \<le> usize_max oct" unfolding v(1) using assms(4) len by simp
  ultimately show ?thesis by (intro got_length [OF g])
qed

lemma opens_sealed_final:
  assumes "agree s r" "seal s [] (ascii ''final'') = (Inr (ct, tg), s')"
  shows "opens oct unseal DecapChunkLen r (varint_bytes oct 0 @ tg) None [] None"
proof -
  from seal_unseal [OF assms] obtain r' where "length ct = 0" "unseal r (ct @ tg) (ascii ''final'') = (Inr [], r')"
    by auto
  then have "opens oct unseal (DecapChunk None) r tg None [] None" by (intro good_final) simp_all
  moreover have "get_varint oct (varint_bytes oct 0 @ tg) = Some (0 :: u64, tg)"
    by (rule get_varint_append) (simp add: varint_ok_def)
  ultimately show ?thesis by (intro got_length [where v = "0 :: u64"]) simp_all
qed

text \<open>Decapsulating what was encapsulated in chunks delivers the content.\<close>

lemma opens_sealed:
  "agree s r \<Longrightarrow> seals_ok seal s st \<Longrightarrow> chunks_fit oct tag_len st \<Longrightarrow>
   opens oct unseal DecapChunkLen r (stream_bytes (sealed_events oct seal s st))
     (stream_tail (sealed_events oct seal s st)) (stream_bytes st) (stream_tail st)"
proof (induction st arbitrary: s r)
  case Nil
  obtain ct tg s' where f: "seal s [] (ascii ''final'') = (Inr (ct, tg), s')"
    using Nil.prems(2) by (auto split: prod.splits sum.splits)
  then show ?case
    by (simp add: map_hpke_err_def encoded_len_bytes opens_sealed_final [OF Nil.prems(1) f])
next
  case (Cons e st)
  show ?case
  proof (cases e rule: event_cases)
    case W
    with Cons show ?thesis by simp
  next
    case (E x)
    have "opens oct unseal DecapChunkLen r [] (Some x) [] (Some (end_error ''could not accumulate more data'' (Some x)))"
      by (rule no_length) (use vi.get_shorter [of "[]"] in \<open>cases "get_varint oct []"; fastforce\<close>)
    with E show ?thesis by (simp add: end_error_def)
  next
    case (D d)
    show ?thesis
    proof (cases "d = []")
      case True
      with Cons D show ?thesis by simp
    next
      case False
      with Cons.prems(2) D obtain ct tg s' where f: "seal s d [] = (Inr (ct, tg), s')" "seals_ok seal s' st"
        by (auto split: prod.splits sum.splits)
      from seal_unseal [OF Cons.prems(1) f(1)] Cons.prems(3) D
      have "length ct + length tg < 2 ^ 62" by simp
      with f False D show ?thesis
        using Cons.prems(3)
        by (auto simp: map_hpke_err_def encoded_len_bytes simp del: of_nat_add
            intro!: opens_sealed_chunk [OF Cons.prems(1) f(1) False] Cons.IH [OF _ f(2)])
    qed
  qed
qed

lemma stream_tail_sealed:
  "agree s r \<Longrightarrow> seals_ok seal s st \<Longrightarrow> chunks_fit oct tag_len st \<Longrightarrow>
   stream_tail (sealed_events oct seal s st) = stream_tail st"
proof (induction st arbitrary: s r)
  case Nil
  then show ?case
    by (auto simp: map_hpke_err_def encoded_len_bytes split: prod.splits sum.splits)
next
  case (Cons e st)
  show ?case
  proof (cases e rule: event_cases)
    case (D d)
    show ?thesis
    proof (cases "d = []")
      case False
      with Cons.prems(2) D obtain ct tg s' where f: "seal s d [] = (Inr (ct, tg), s')" "seals_ok seal s' st"
        by (auto split: prod.splits sum.splits)
      from seal_unseal [OF Cons.prems(1) f(1)] obtain r' where "agree s' r'" "length ct = length d" "length tg = tag_len"
        by blast
      with f False D Cons show ?thesis by (simp add: map_hpke_err_def encoded_len_bytes)
    qed (use Cons D in simp)
  qed (use Cons in simp_all)
qed

lemma decap_events_sealed:
  assumes "agree s r" "seals_ok seal s (inner_events sb)" "chunks_fit oct tag_len (inner_events sb)"
    and "wf_buf sb'" "avail sb' = stream_bytes (sealed_events oct seal s (inner_events sb))"
    and "tail sb' = stream_tail (sealed_events oct seal s (inner_events sb))"
  shows "stream_bytes (decap_events oct unseal (decapsulated_new r sb')) = avail sb
    \<and> stream_tail (decap_events oct unseal (decapsulated_new r sb')) = tail sb"
proof -
  have "stream_bytes (inner_events sb) = avail sb" "stream_tail (inner_events sb) = tail sb"
    by (simp_all add: inner_events_def avail_def tail_def)
  with opens_sealed [OF assms(1-3)] assms(5,6)
  have "opens oct unseal DecapChunkLen r (avail sb') (tail sb') (avail sb) (tail sb)" by simp
  from opens_deterministic [OF decap_delivered [OF assms(4)] this] show ?thesis .
qed

end

sublocale ohttp \<subseteq> rqs: sealed_stream oct "request_seal hp" "request_open hp a" "paired a" "tag_size hp a" for a
  by unfold_locales

sublocale ohttp \<subseteq> rss: sealed_stream oct "context_seal hp" "context_open hp"
    "\<lambda>s r. r = s \<and> ac_aead_id s = a" "tag_size hp a" for a
  by unfold_locales

context octets_crate
begin

text \<open>A delivery that ends without an error has opened the rest of the input as the final chunk.\<close>

lemma opens_final_chunk:
  "opens oct unseal st opn bs t out t' \<Longrightarrow> st \<noteq> DecapDone \<Longrightarrow> t' = None \<Longrightarrow>
   t = None \<and> (\<exists>pre opn1 lst pt opn2 out1. bs = pre @ lst \<and> out = out1 @ pt
     \<and> unseal opn1 lst (ascii ''final'') = (Inr pt, opn2))"
proof (induction rule: opens.induct)
  case (got_length bs v rest opn t out t')
  then obtain pre opn1 lst pt opn2 out1 where "t = None" "rest = pre @ lst" "out = out1 @ pt"
    "unseal opn1 lst (ascii ''final'') = (Inr pt, opn2)" by auto
  moreover from vi.get_suffix [OF got_length.hyps(1)] obtain hd where "bs = hd @ rest"
    by (metis append_take_drop_id)
  ultimately show ?case by (metis append.assoc)
next
  case (good_chunk n bs opn pt opn' t out t')
  then obtain pre opn1 lst p opn2 out1 where l: "t = None" "drop n bs = pre @ lst" "out = out1 @ p"
    "unseal opn1 lst (ascii ''final'') = (Inr p, opn2)" by auto
  have "bs = (take n bs @ pre) @ lst" using l(2) by (metis append.assoc append_take_drop_id)
  moreover have "pt @ out = (pt @ out1) @ p" using l(3) by simp
  ultimately show ?case using l(1,4) by blast
next
  case (good_final opn bs pt opn')
  then show ?case by (metis append_Nil)
qed auto

end

text \<open>A sealed message of one chunk, for the examples.\<close>

definition demo_ctx :: plain_ctx where
  "demo_ctx = \<lparr>pc_setup = (AesGcm128, [], [], []), pc_seq = 0\<rparr>"

definition demo_sealed :: bytes where
  "demo_sealed = stream_bytes (sealed_events (rfc9000_octets (2 ^ 64 - 1)) (request_seal plain_hpke) demo_ctx
     [Yield (Inr [1, 2]) :: unit event])"

lemma demo_opens:
  "opens (rfc9000_octets (2 ^ 64 - 1)) (request_open plain_hpke AesGcm128) DecapChunkLen demo_ctx
     demo_sealed None [1, 2] (None :: unit err option)"
proof -
  let ?st = "[Yield (Inr [1, 2]) :: unit event]"
  have "seals_ok (request_seal plain_hpke) demo_ctx ?st"
    "chunks_fit (rfc9000_octets (2 ^ 64 - 1)) (tag_size plain_hpke AesGcm128) ?st"
    by (simp_all add: request_seal_def plain_hpke_def rfc9000_octets_def)
  from ohttp_plain.rqs.opens_sealed [OF refl this] ohttp_plain.rqs.stream_tail_sealed [OF refl this]
  show ?thesis by (simp add: demo_sealed_def)
qed

subsection \<open>Properties\<close>

text \<open>
  C7: reading a decapsulated stream to its end delivers exactly the plaintext that the
  received bytes describe (\<open>opens\<close>: length, chunk, length, \<dots>, zero length, final
  chunk) and ends or fails as they say, however the bytes arrive.
\<close>

theorem decap_stream_refines:
  assumes "octets_crate oct" "wf_buf sb"
  shows "opens oct unseal DecapChunkLen opn (avail sb) (tail sb) out t \<longleftrightarrow>
    stream_bytes (decap_events oct unseal (decapsulated_new opn sb)) = out
    \<and> stream_tail (decap_events oct unseal (decapsulated_new opn sb)) = t"
    (is "?opens out t \<longleftrightarrow> _")
proof
  note delivered = octets_crate.decap_delivered [OF assms]
  show "stream_bytes (decap_events oct unseal (decapsulated_new opn sb)) = out
      \<and> stream_tail (decap_events oct unseal (decapsulated_new opn sb)) = t" if "?opens out t"
    by (rule opens_deterministic [OF delivered that])
  show "?opens out t" if "stream_bytes (decap_events oct unseal (decapsulated_new opn sb)) = out
      \<and> stream_tail (decap_events oct unseal (decapsulated_new opn sb)) = t"
    using delivered [of unseal opn] that by simp
qed

theorem decap_stream_refines_witness:
  "stream_bytes (decap_events (rfc9000_octets (2 ^ 64 - 1)) (request_open plain_hpke AesGcm128)
     (decapsulated_new demo_ctx (stream_buf_from demo_sealed :: unit stream_buf))) = [1, 2]"
  using demo_opens decap_stream_refines [OF native.octets_crate_axioms,
      where sb = "stream_buf_from demo_sealed :: unit stream_buf"
        and unseal = "request_open plain_hpke AesGcm128" and opn = demo_ctx and out = "[1, 2]" and t = None]
  by simp

text \<open>
  C6: a chunked message cannot be cut short unnoticed: if the decapsulated stream ends without
  an error, the transport ended without an error and everything after some point of the
  received bytes was opened as the final chunk, with the associated data
  \<^verbatim>\<open>"final"\<close>.
\<close>

theorem decap_end_is_final:
  assumes "octets_crate oct" "wf_buf sb"
    and "stream_tail (decap_events oct unseal (decapsulated_new opn sb)) = None"
  shows "tail sb = None \<and> (\<exists>pre opn1 lst pt opn2 out. avail sb = pre @ lst
    \<and> unseal opn1 lst (ascii ''final'') = (Inr pt, opn2)
    \<and> stream_bytes (decap_events oct unseal (decapsulated_new opn sb)) = out @ pt)"
proof -
  note delivered = octets_crate.decap_delivered [OF assms(1,2), of unseal opn]
  from octets_crate.opens_final_chunk [OF assms(1) delivered _ assms(3)] show ?thesis by simp metis
qed

theorem decap_end_is_final_witness:
  "tail (stream_buf_from demo_sealed :: unit stream_buf) = None
   \<and> (\<exists>pre opn1 lst pt opn2 out. avail (stream_buf_from demo_sealed :: unit stream_buf) = pre @ lst
      \<and> request_open plain_hpke AesGcm128 opn1 lst (ascii ''final'') = (Inr pt, opn2)
      \<and> stream_bytes (decap_events (rfc9000_octets (2 ^ 64 - 1)) (request_open plain_hpke AesGcm128)
          (decapsulated_new demo_ctx (stream_buf_from demo_sealed :: unit stream_buf))) = out @ pt)"
proof (rule decap_end_is_final [OF native.octets_crate_axioms])
  show "wf_buf (stream_buf_from demo_sealed :: unit stream_buf)" by simp
  from native.decap_delivered [OF this]
  have "opens (rfc9000_octets (2 ^ 64 - 1)) (request_open plain_hpke AesGcm128) DecapChunkLen demo_ctx demo_sealed None
      (stream_bytes (decap_events (rfc9000_octets (2 ^ 64 - 1)) (request_open plain_hpke AesGcm128)
        (decapsulated_new demo_ctx (stream_buf_from demo_sealed :: unit stream_buf))))
      (stream_tail (decap_events (rfc9000_octets (2 ^ 64 - 1)) (request_open plain_hpke AesGcm128)
        (decapsulated_new demo_ctx (stream_buf_from demo_sealed :: unit stream_buf))))"
    by (simp only: avail_from_bytes tail_from_bytes)
  from opens_deterministic [OF this demo_opens]
  show "stream_tail (decap_events (rfc9000_octets (2 ^ 64 - 1)) (request_open plain_hpke AesGcm128)
      (decapsulated_new demo_ctx (stream_buf_from demo_sealed :: unit stream_buf))) = None" ..
qed

end
