(* ===== verification/Hpke_Client.thy ===== *)
theory Hpke_Client
  imports Hpke_Config Hpke_Streams
begin

text \<open>
  The client's side of an encapsulated exchange, \<^verbatim>\<open>crates/ohttp-hpke/src/client.rs\<close>
  from \<^verbatim>\<open>setup_request_encapsulation\<close> on. The sender's random bytes are an
  argument. The boxed \<^verbatim>\<open>SealInPlace\<close> of a request is the HPKE context, sealed with
  by \<open>request_seal\<close>.
\<close>

subsection \<open>Contexts\<close>

record 'c request_sending_context =
  rqs_sealer :: 'c
  rqs_encap_header :: encap_header
  rqs_encapped_key :: bytes

text \<open>\<^verbatim>\<open>ResponseReceivingContext\<close> wraps the context of the response.\<close>

record response_receiving_context =
  rrc_inner :: response_context

subsection \<open>Requests\<close>

text \<open>
  \<^verbatim>\<open>aead_ctx.export(info, &mut buf).unwrap()\<close> into a buffer of the longer of the
  key's and the nonce's length, on both sides of the exchange.
\<close>

definition export_or_panic :: "'c hpke_api \<Rightarrow> aead_id \<Rightarrow> 'c \<Rightarrow> bytes \<Rightarrow> (bytes, 'e) result" where
  "export_or_panic hp a ctx response_info_str =
     (let response_secret_len = max (key_size hp a) (nonce_size hp a)
      in case export_secret hp ctx response_info_str response_secret_len of
           None \<Rightarrow> Inl (Panicked ''called `Result::unwrap()` on an `Err` value: KdfOutputTooLong'')
         | Some secret \<Rightarrow> Inr secret)"

text \<open>\<^verbatim>\<open>SetupRequestEncap::call_triple\<close>.\<close>

definition setup_request_encap ::
  "'c hpke_api \<Rightarrow> bytes \<Rightarrow> kem_id \<Rightarrow> kdf_id \<Rightarrow> aead_id \<Rightarrow> bytes \<times> bytes \<times> bytes
     \<Rightarrow> ('c \<times> bytes \<times> bytes) hresult" where
  "setup_request_encap hp rng k d a args =
     (case args of (pk_recip, request_info, response_info_str) \<Rightarrow>
        (case setup_sender hp k d a pk_recip request_info rng of
           Inl e \<Rightarrow> Inl (Source e)
         | Inr (encapped_key, aead_ctx) \<Rightarrow>
             rbind (export_or_panic hp a aead_ctx response_info_str) (\<lambda>response_secret.
             Inr (aead_ctx, encapped_key, response_secret))))"

definition setup_request_encapsulation ::
  "octets_api \<Rightarrow> 'c hpke_api \<Rightarrow> bytes \<Rightarrow> encap_config \<Rightarrow> bytes \<Rightarrow> bytes
     \<Rightarrow> ('c request_sending_context \<times> response_receiving_context) hresult" where
  "setup_request_encapsulation oct hp rng config request_info_str response_info_str =
     (let encap_header = \<lparr>key_id = ec_key_id config, kem_id = pk_kem_id (ec_public_key config),
                          kdf_id = ec_kdf_id config, aead_id = ec_aead_id config\<rparr>
      in rbind (encode_info oct hp encap_header request_info_str) (\<lambda>request_info.
         rbind (dispatch_triple (pk_kem_id (ec_public_key config)) (ec_kdf_id config) (ec_aead_id config)
                  (setup_request_encap hp rng)
                  (pk_bytes (ec_public_key config), request_info, response_info_str))
           (\<lambda>(methods, encapped_key, response_secret).
         Inr (\<lparr>rqs_sealer = methods, rqs_encap_header = encap_header, rqs_encapped_key = encapped_key\<rparr>,
              \<lparr>rrc_inner = \<lparr>rc_kdf_id = ec_kdf_id config, rc_aead_id = ec_aead_id config,
                            rc_encapped_key = encapped_key, rc_response_secret = response_secret\<rparr>\<rparr>))))"

definition encode_initial_chunk :: "octets_api \<Rightarrow> 'c hpke_api \<Rightarrow> 'c request_sending_context \<Rightarrow> (bytes, 'e) result" where
  "encode_initial_chunk oct hp rqs =
     rbind (unwrap_write (put_all [header_put oct hp (rqs_encap_header rqs), put_bytes oct (rqs_encapped_key rqs)]
              (om_zeroed (header_encoded_len + length (rqs_encapped_key rqs))))) (\<lambda>om.
     Inr (om_buf om))"

definition request_encapsulate_non_chunked_content ::
  "octets_api \<Rightarrow> 'c hpke_api \<Rightarrow> 'c request_sending_context \<Rightarrow> 'e stream_buf \<Rightarrow> (('c, 'e) encapsulated, 'e) result" where
  "request_encapsulate_non_chunked_content oct hp rqs sb =
     rbind (encode_initial_chunk oct hp rqs) (\<lambda>initial_chunk.
     Inr (encap_non_chunked (rqs_sealer rqs) initial_chunk sb))"

definition request_encapsulate_chunked_content ::
  "octets_api \<Rightarrow> 'c hpke_api \<Rightarrow> 'c request_sending_context \<Rightarrow> 'e stream_buf \<Rightarrow> (('c, 'e) encapsulated, 'e) result" where
  "request_encapsulate_chunked_content oct hp rqs sb =
     rbind (encode_initial_chunk oct hp rqs) (\<lambda>initial_chunk.
     Inr (encap_chunked (rqs_sealer rqs) initial_chunk sb))"

text \<open>Polling the stream of an encapsulated request.\<close>

definition request_stream_poll_next ::
  "octets_api \<Rightarrow> 'c hpke_api \<Rightarrow> ('c, 'e) encapsulated \<Rightarrow> (bytes, 'e) result option poll \<times> ('c, 'e) encapsulated" where
  "request_stream_poll_next oct hp = encap_poll_next oct (request_seal hp)"

subsection \<open>Responses\<close>

definition receive_aead_context ::
  "'c hpke_api \<Rightarrow> response_receiving_context \<Rightarrow> ('e stream_buf, aead_context, 'e) async" where
  "receive_aead_context hp rrc =
     abind (read_exact (length (rc_response_secret (rrc_inner rrc)))) (\<lambda>response_nonce.
     alift (derive_aead_context hp (rrc_inner rrc) response_nonce))"

definition response_decapsulate_non_chunked_content ::
  "'c hpke_api \<Rightarrow> response_receiving_context \<Rightarrow> ('e stream_buf, bytes, 'e) async" where
  "response_decapsulate_non_chunked_content hp rrc =
     abind (receive_aead_context hp rrc) (\<lambda>aead_context.
     abind read_to_end (\<lambda>content.
     alift (map_hpke_err ''could not open content'' (fst (context_open hp aead_context content [])))))"

text \<open>The buffer moves into the stream of the response.\<close>

definition response_decapsulate_chunked_content ::
  "'c hpke_api \<Rightarrow> response_receiving_context \<Rightarrow> 'e stream_buf
     \<Rightarrow> ((aead_context, 'e) decapsulated, 'e) result option" where
  "response_decapsulate_chunked_content hp rrc sb =
     map_option (\<lambda>(r, sb'). rbind r (\<lambda>aead_context. Inr (decapsulated_new aead_context sb')))
       (receive_aead_context hp rrc sb)"

definition response_stream_poll_next ::
  "octets_api \<Rightarrow> 'c hpke_api \<Rightarrow> (aead_context, 'e) decapsulated
     \<Rightarrow> (bytes, 'e) result option poll \<times> (aead_context, 'e) decapsulated" where
  "response_stream_poll_next oct hp = decap_poll_next oct (context_open hp)"

subsection \<open>Lemmas\<close>

lemma chunk_invariant_receive_aead_context [chunk_inv]: "chunk_invariant (receive_aead_context hp rrc)"
  unfolding receive_aead_context_def by (intro chunk_inv)

context octets_crate
begin

lemma encode_initial_chunk_bytes:
  "encode_initial_chunk oct hp rqs = Inr (header_bytes oct hp (rqs_encap_header rqs) @ rqs_encapped_key rqs)"
proof -
  have "writes (put_all [header_put oct hp (rqs_encap_header rqs), put_bytes oct (rqs_encapped_key rqs)])
      (concat [header_bytes oct hp (rqs_encap_header rqs), rqs_encapped_key rqs])"
    by (intro writes_put_all) (simp add: writes_header writes_put_bytes)
  from writes_exact [OF this] show ?thesis by (simp add: encode_initial_chunk_def length_header_bytes)
qed

end

text \<open>The header that the setup puts together.\<close>

definition config_header :: "encap_config \<Rightarrow> encap_header" where
  "config_header ec = \<lparr>key_id = ec_key_id ec, kem_id = pk_kem_id (ec_public_key ec),
     kdf_id = ec_kdf_id ec, aead_id = ec_aead_id ec\<rparr>"

context ohttp
begin

lemma setup_request_encapsulation_eq:
  "setup_request_encapsulation oct hp rng ec rq rs =
     (case setup_sender hp (pk_kem_id (ec_public_key ec)) (ec_kdf_id ec) (ec_aead_id ec)
         (pk_bytes (ec_public_key ec)) (info_bytes oct hp (config_header ec) rq) rng of
        Inl e \<Rightarrow> Inl (Source e)
      | Inr (enc, s) \<Rightarrow> rbind (export_or_panic hp (ec_aead_id ec) s rs) (\<lambda>secret.
          Inr (\<lparr>rqs_sealer = s, rqs_encap_header = config_header ec, rqs_encapped_key = enc\<rparr>,
               \<lparr>rrc_inner = \<lparr>rc_kdf_id = ec_kdf_id ec, rc_aead_id = ec_aead_id ec,
                  rc_encapped_key = enc, rc_response_secret = secret\<rparr>\<rparr>)))"
  by (simp add: setup_request_encapsulation_def Let_def dispatch_triple_eq setup_request_encap_def
      encode_info_bytes config_header_def rbind_def split: sum.split prod.split)

text \<open>What the two contexts hold after a successful setup.\<close>

lemma setup_request_encapsulation_cases:
  assumes "setup_request_encapsulation oct hp rng ec rq rs = Inr (rqs, rrc)"
  obtains enc s secret where
    "setup_sender hp (pk_kem_id (ec_public_key ec)) (ec_kdf_id ec) (ec_aead_id ec)
       (pk_bytes (ec_public_key ec)) (info_bytes oct hp (config_header ec) rq) rng = Inr (enc, s)"
    "export_secret hp s rs (max (key_size hp (ec_aead_id ec)) (nonce_size hp (ec_aead_id ec))) = Some secret"
    "rqs = \<lparr>rqs_sealer = s, rqs_encap_header = config_header ec, rqs_encapped_key = enc\<rparr>"
    "rrc = \<lparr>rrc_inner = \<lparr>rc_kdf_id = ec_kdf_id ec, rc_aead_id = ec_aead_id ec,
        rc_encapped_key = enc, rc_response_secret = secret\<rparr>\<rparr>"
  using assms
  by (auto simp: setup_request_encapsulation_eq export_or_panic_def Let_def rbind_eq_Inr_iff
      split: sum.splits option.splits)

text \<open>The setup fails only with the error of the library: its \<^verbatim>\<open>unwrap\<close>s cannot panic.\<close>

lemma setup_request_encapsulation_error:
  assumes "setup_request_encapsulation oct hp rng ec rq rs = Inl e"
  obtains x where "e = Source x"
    "setup_sender hp (pk_kem_id (ec_public_key ec)) (ec_kdf_id ec) (ec_aead_id ec)
       (pk_bytes (ec_public_key ec)) (info_bytes oct hp (config_header ec) rq) rng = Inl x"
proof (cases "setup_sender hp (pk_kem_id (ec_public_key ec)) (ec_kdf_id ec) (ec_aead_id ec)
       (pk_bytes (ec_public_key ec)) (info_bytes oct hp (config_header ec) rq) rng")
  case (Inl x)
  with assms that show ?thesis by (auto simp: setup_request_encapsulation_eq)
next
  case (Inr p)
  obtain enc s where p: "p = (enc, s)" by (cases p)
  from export_room [OF Inr [unfolded p] order_refl] obtain out where
    "export_secret hp s rs (max (key_size hp (ec_aead_id ec)) (nonce_size hp (ec_aead_id ec))) = Some out" by blast
  with Inr p assms show ?thesis by (simp add: setup_request_encapsulation_eq export_or_panic_def)
qed

end

end
