(* ===== verification/Hpke_Server.thy ===== *)
theory Hpke_Server
  imports Hpke_Client
begin

text \<open>
  The server's side of an encapsulated exchange, \<^verbatim>\<open>crates/ohttp-hpke/src/server.rs\<close>
  from \<^verbatim>\<open>decode_request_header\<close> on, and the exchange as a whole: what the server
  decapsulates from a client's request is what the client put in, and the other way round
  for the response. The random response nonce is an argument.
\<close>

subsection \<open>Contexts\<close>

text \<open>
  The boxed \<^verbatim>\<open>OpenInPlace\<close> of a request is the HPKE context with the AEAD that is
  its type parameter.
\<close>

record 'c request_receiving_context =
  rrq_opener :: 'c
  rrq_aead :: aead_id

record response_sending_context =
  rsc_inner :: response_context

subsection \<open>Requests\<close>

text \<open>\<^verbatim>\<open>SetupRequestDecap::call_triple\<close>.\<close>

definition setup_request_decap ::
  "'c hpke_api \<Rightarrow> kem_id \<Rightarrow> kdf_id \<Rightarrow> aead_id \<Rightarrow> bytes \<times> bytes \<times> bytes \<times> bytes
     \<Rightarrow> ('c request_receiving_context \<times> bytes) hresult" where
  "setup_request_decap hp k d a args =
     (case args of (sk_recip, encapped_key, request_info, response_info_str) \<Rightarrow>
        (case setup_receiver hp k d a sk_recip encapped_key request_info of
           Inl e \<Rightarrow> Inl (Source e)
         | Inr aead_ctx \<Rightarrow>
             rbind (export_or_panic hp a aead_ctx response_info_str) (\<lambda>response_secret.
             Inr (\<lparr>rrq_opener = aead_ctx, rrq_aead = a\<rparr>, response_secret))))"

text \<open>The error of the setup becomes \<^verbatim>\<open>invalid_data(format!("{e}"))\<close>.\<close>

definition decode_request_header ::
  "octets_api \<Rightarrow> 'c hpke_api \<Rightarrow> server_config \<Rightarrow> bytes \<Rightarrow> bytes
     \<Rightarrow> ('e stream_buf, 'c request_receiving_context \<times> response_sending_context, 'e) async" where
  "decode_request_header oct hp hpke_config request_info_str response_info_str =
     abind (header_decode oct hp) (\<lambda>encap_header.
     abind (alift (get_key_pair hpke_config encap_header)) (\<lambda>key_pair.
     abind (read_exact (encapped_key_len hp (pk_kem_id (kp_public_key key_pair)))) (\<lambda>encapped_key.
     abind (alift (encode_info oct hp encap_header request_info_str)) (\<lambda>request_info.
     abind (alift (map_hpke_err []
              (dispatch_triple (pk_kem_id (kp_public_key key_pair)) (kdf_id encap_header) (aead_id encap_header)
                 (setup_request_decap hp)
                 (kp_private_key key_pair, encapped_key, request_info, response_info_str))))
       (\<lambda>(opener, response_secret).
     aret (opener,
           \<lparr>rsc_inner = \<lparr>rc_kdf_id = kdf_id encap_header, rc_aead_id = aead_id encap_header,
              rc_encapped_key = encapped_key, rc_response_secret = response_secret\<rparr>\<rparr>))))))"

definition request_decapsulate_non_chunked_content ::
  "'c hpke_api \<Rightarrow> 'c request_receiving_context \<Rightarrow> ('e stream_buf, bytes, 'e) async" where
  "request_decapsulate_non_chunked_content hp rrq =
     abind read_to_end (\<lambda>content.
     alift (map_hpke_err ''could not open non chunked content''
       (fst (request_open hp (rrq_aead rrq) (rrq_opener rrq) content []))))"

definition request_decapsulate_chunked_content ::
  "'c request_receiving_context \<Rightarrow> 'e stream_buf \<Rightarrow> ('c, 'e) decapsulated" where
  "request_decapsulate_chunked_content rrq sb = decapsulated_new (rrq_opener rrq) sb"

text \<open>Polling the stream of a decapsulated request, opened with algorithm \<open>a\<close>.\<close>

definition decap_request_poll_next ::
  "octets_api \<Rightarrow> 'c hpke_api \<Rightarrow> aead_id \<Rightarrow> ('c, 'e) decapsulated
     \<Rightarrow> (bytes, 'e) result option poll \<times> ('c, 'e) decapsulated" where
  "decap_request_poll_next oct hp a = decap_poll_next oct (request_open hp a)"

subsection \<open>Responses\<close>

text \<open>\<open>random\<close> is what the generator fills the nonce of the response with.\<close>

definition derive_aead_state ::
  "'c hpke_api \<Rightarrow> (nat \<Rightarrow> bytes) \<Rightarrow> response_sending_context \<Rightarrow> (bytes \<times> aead_context, 'e) result" where
  "derive_aead_state hp random rsc =
     (let response_nonce = random (length (rc_response_secret (rsc_inner rsc)))
      in rbind (derive_aead_context hp (rsc_inner rsc) response_nonce) (\<lambda>aead_context.
         Inr (response_nonce, aead_context)))"

definition response_encapsulate_non_chunked_content ::
  "'c hpke_api \<Rightarrow> (nat \<Rightarrow> bytes) \<Rightarrow> response_sending_context \<Rightarrow> 'e stream_buf
     \<Rightarrow> ((aead_context, 'e) encapsulated, 'e) result" where
  "response_encapsulate_non_chunked_content hp random rsc sb =
     rbind (derive_aead_state hp random rsc) (\<lambda>(response_nonce, aead_context).
     Inr (encap_non_chunked aead_context response_nonce sb))"

definition response_encapsulate_chunked_content ::
  "'c hpke_api \<Rightarrow> (nat \<Rightarrow> bytes) \<Rightarrow> response_sending_context \<Rightarrow> 'e stream_buf
     \<Rightarrow> ((aead_context, 'e) encapsulated, 'e) result" where
  "response_encapsulate_chunked_content hp random rsc sb =
     rbind (derive_aead_state hp random rsc) (\<lambda>(response_nonce, aead_context).
     Inr (encap_chunked aead_context response_nonce sb))"

definition encap_response_poll_next ::
  "octets_api \<Rightarrow> 'c hpke_api \<Rightarrow> (aead_context, 'e) encapsulated
     \<Rightarrow> (bytes, 'e) result option poll \<times> (aead_context, 'e) encapsulated" where
  "encap_response_poll_next oct hp = encap_poll_next oct (context_seal hp)"

subsection \<open>The contexts of both sides belong together\<close>

text \<open>An encapsulation configuration that the server offers.\<close>

definition offered :: "server_config \<Rightarrow> encap_config \<Rightarrow> bool" where
  "offered sc ec \<longleftrightarrow> (\<exists>kc \<in> set (sc_key_configs sc). ec_key_id ec = kc_key_id kc
     \<and> ec_public_key ec = kp_public_key (kc_key kc)
     \<and> (ec_kdf_id ec, ec_aead_id ec) \<in> set (symmetric_algorithms kc))"

text \<open>The key pair that the server finds for it.\<close>

definition offered_pair :: "server_config \<Rightarrow> encap_config \<Rightarrow> key_pair" where
  "offered_pair sc ec = kc_key (sc_key_configs sc ! unat (ec_key_id ec))"

lemma offered_key_pair:
  assumes "wf_server_config hp sc" "offered sc ec"
  shows "get_key_pair sc (config_header ec) = Inr (offered_pair sc ec)"
    and "kp_public_key (offered_pair sc ec) = ec_public_key ec" and "wf_key_pair hp (offered_pair sc ec)"
proof -
  from assms(2) obtain kc where "kc \<in> set (sc_key_configs sc)" and kc: "ec_key_id ec = kc_key_id kc"
    "ec_public_key ec = kp_public_key (kc_key kc)" "(ec_kdf_id ec, ec_aead_id ec) \<in> set (symmetric_algorithms kc)"
    unfolding offered_def by blast
  then obtain i where i: "i < length (sc_key_configs sc)" "kc = sc_key_configs sc ! i" by (metis in_set_conv_nth)
  from assms(1) i have "kc_key_id kc = of_nat i" "i < 2 ^ 8" and wf: "wf_key_pair hp (kc_key kc)"
    by (auto simp: wf_server_config_def wf_key_config_def)
  then have "unat (ec_key_id ec) = i" using kc(1) by (simp add: unat_of_nat)
  then have pair: "offered_pair sc ec = kc_key kc" by (simp add: offered_pair_def i(2))
  show "get_key_pair sc (config_header ec) = Inr (offered_pair sc ec)"
    unfolding pair config_header_def kc(1,2) i(2)
    by (rule get_key_pair_published [OF assms(1) i(1) kc(3) [unfolded i(2)]])
  show "kp_public_key (offered_pair sc ec) = ec_public_key ec" "wf_key_pair hp (offered_pair sc ec)"
    using kc(2) wf by (simp_all add: pair)
qed

lemma first_config_offered:
  assumes "first_encap_config \<lparr>cc_key_configs = map public_config (sc_key_configs sc)\<rparr> = Inr ec"
  shows "offered sc ec"
proof (cases "sc_key_configs sc")
  case (Cons kc kcs)
  with assms show ?thesis
    by (cases "symmetric_algorithms kc")
      (auto simp: first_encap_config_def public_config_def offered_def)
qed (use assms in \<open>simp add: first_encap_config_def\<close>)

context octets_crate
begin

lemma chunk_invariant_decode_request_header [chunk_inv]:
  "chunk_invariant (decode_request_header oct hp sc rq rs)"
  unfolding decode_request_header_def case_prod_beta by (intro chunk_inv)

end

context ohttp
begin

lemma parses_request_header:
  assumes wf: "wf_server_config hp sc" "offered sc ec"
    and encap: "setup_request_encapsulation oct hp rng ec rq rs = Inr (rqs, rrc)"
  obtains rrq where "rrq_aead rrq = ec_aead_id ec" "paired (ec_aead_id ec) (rqs_sealer rqs) (rrq_opener rrq)"
    "\<And>rest. parses (decode_request_header oct hp sc rq rs)
       (header_bytes oct hp (rqs_encap_header rqs) @ rqs_encapped_key rqs @ rest) rest
       (rrq, \<lparr>rsc_inner = rrc_inner rrc\<rparr>)"
proof -
  let ?k = "pk_kem_id (ec_public_key ec)" and ?d = "ec_kdf_id ec" and ?a = "ec_aead_id ec"
  from encap obtain enc s secret where
    snd: "setup_sender hp ?k ?d ?a (pk_bytes (ec_public_key ec)) (info_bytes oct hp (config_header ec) rq) rng
        = Inr (enc, s)"
    and sec: "export_secret hp s rs (max (key_size hp ?a) (nonce_size hp ?a)) = Some secret"
    and rqs: "rqs = \<lparr>rqs_sealer = s, rqs_encap_header = config_header ec, rqs_encapped_key = enc\<rparr>"
    and rrc: "rrc = \<lparr>rrc_inner = \<lparr>rc_kdf_id = ?d, rc_aead_id = ?a, rc_encapped_key = enc,
        rc_response_secret = secret\<rparr>\<rparr>"
    by (rule setup_request_encapsulation_cases)
  let ?kp = "offered_pair sc ec"
  note kp = offered_key_pair [OF wf]
  from kp(2,3) have "sk_to_pk hp ?k (kp_private_key ?kp) = Inr (pk_bytes (ec_public_key ec))"
    by (simp add: wf_key_pair_def)
  from setup_pair [OF snd this] obtain r where len: "length enc = encapped_key_size hp ?k"
    and r: "setup_receiver hp ?k ?d ?a (kp_private_key ?kp) enc (info_bytes oct hp (config_header ec) rq) = Inr r"
      "paired ?a s r" by blast
  let ?rrq = "\<lparr>rrq_opener = r, rrq_aead = ?a\<rparr>"
  have h: "kdf_id (config_header ec) = ?d" "aead_id (config_header ec) = ?a" by (simp_all add: config_header_def)
  have call: "dispatch_triple ?k ?d ?a (setup_request_decap hp)
      (kp_private_key ?kp, enc, info_bytes oct hp (config_header ec) rq, rs) = Inr (?rrq, secret)"
    using r(1) sec paired_export [OF r(2)]
    by (simp add: dispatch_triple_eq setup_request_decap_def export_or_panic_def)
  show thesis
  proof (rule that [of ?rrq])
    fix rest
    show "parses (decode_request_header oct hp sc rq rs)
       (header_bytes oct hp (rqs_encap_header rqs) @ rqs_encapped_key rqs @ rest) rest
       (?rrq, \<lparr>rsc_inner = rrc_inner rrc\<rparr>)"
      unfolding decode_request_header_def
      by (rule parses_abind [OF parses_header])
        (auto simp: rqs rrc kp encode_info_bytes h call map_hpke_err_def encapped_key_len_def len
          intro!: parses_abind [OF parses_read_exact] parses_aret parses_Some)
  qed (use r rqs in simp_all)
qed

text \<open>The same on a buffer that holds the message, in whatever chunks it arrived.\<close>

lemma decode_request_header_view:
  fixes sb :: "'e stream_buf"
  assumes "wf_server_config hp sc" "offered sc ec"
    and "setup_request_encapsulation oct hp rng ec rq rs = Inr (rqs, rrc)"
    and "wf_buf sb" "avail sb = header_bytes oct hp (rqs_encap_header rqs) @ rqs_encapped_key rqs @ rest"
  obtains rrq sb' where
    "decode_request_header oct hp sc rq rs sb = Some (Inr (rrq, \<lparr>rsc_inner = rrc_inner rrc\<rparr>), sb')"
    "rrq_aead rrq = ec_aead_id ec" "paired (ec_aead_id ec) (rqs_sealer rqs) (rrq_opener rrq)"
    "wf_buf sb'" "avail sb' = rest" "tail sb' = tail sb"
proof -
  from assms(1-3) obtain rrq where rrq: "rrq_aead rrq = ec_aead_id ec"
      "paired (ec_aead_id ec) (rqs_sealer rqs) (rrq_opener rrq)"
    and p: "parses (decode_request_header oct hp sc rq rs :: ('e stream_buf, _, 'e) async)
       (header_bytes oct hp (rqs_encap_header rqs) @ rqs_encapped_key rqs @ rest) rest
       (rrq, \<lparr>rsc_inner = rrc_inner rrc\<rparr>)"
    by (rule parses_request_header) blast
  from parses_view [OF chunk_invariant_decode_request_header p assms(4,5)] rrq that show thesis by blast
qed

lemma request_chunked_round_trip:
  assumes pre: "wf_server_config hp sc" "offered sc ec"
      "setup_request_encapsulation oct hp rng ec rq rs = Inr (rqs, rrc)"
    and content: "seals_ok (request_seal hp) (rqs_sealer rqs) (inner_events content)"
      "chunks_fit oct (tag_size hp (ec_aead_id ec)) (inner_events content)"
    and en: "request_encapsulate_chunked_content oct hp rqs content = Inr en"
    and sb: "wf_buf sb" "avail sb = stream_bytes (encap_events oct (request_seal hp) en)"
      "tail sb = stream_tail (encap_events oct (request_seal hp) en)"
  shows "\<exists>rrq sb'. decode_request_header oct hp sc rq rs sb = Some (Inr (rrq, \<lparr>rsc_inner = rrc_inner rrc\<rparr>), sb')
    \<and> stream_bytes (decap_events oct (request_open hp (rrq_aead rrq)) (request_decapsulate_chunked_content rrq sb'))
        = avail content
    \<and> stream_tail (decap_events oct (request_open hp (rrq_aead rrq)) (request_decapsulate_chunked_content rrq sb'))
        = tail content"
proof -
  from en have en': "en = encap_chunked (rqs_sealer rqs)
      (header_bytes oct hp (rqs_encap_header rqs) @ rqs_encapped_key rqs) content"
    by (simp add: request_encapsulate_chunked_content_def encode_initial_chunk_bytes)
  have "avail sb = header_bytes oct hp (rqs_encap_header rqs) @ rqs_encapped_key rqs
      @ stream_bytes (sealed_events oct (request_seal hp) (rqs_sealer rqs) (inner_events content))"
    using sb(2) by (simp add: en' encap_events_chunked)
  with decode_request_header_view [OF pre sb(1)] obtain rrq sb' where
    d: "decode_request_header oct hp sc rq rs sb = Some (Inr (rrq, \<lparr>rsc_inner = rrc_inner rrc\<rparr>), sb')"
    and a: "rrq_aead rrq = ec_aead_id ec" and pair: "paired (ec_aead_id ec) (rqs_sealer rqs) (rrq_opener rrq)"
    and sb': "wf_buf sb'" "avail sb' =
        stream_bytes (sealed_events oct (request_seal hp) (rqs_sealer rqs) (inner_events content))"
      "tail sb' = tail sb" by blast
  have "tail sb' = stream_tail (sealed_events oct (request_seal hp) (rqs_sealer rqs) (inner_events content))"
    using sb(3) sb'(3) by (simp add: en' encap_events_chunked)
  from rqs.decap_events_sealed [OF pair content sb'(1,2) this] d a show ?thesis
    by (auto simp: request_decapsulate_chunked_content_def)
qed

lemma request_non_chunked_round_trip:
  assumes pre: "wf_server_config hp sc" "offered sc ec"
      "setup_request_encapsulation oct hp rng ec rq rs = Inr (rqs, rrc)"
    and content: "tail content = None" "request_seal hp (rqs_sealer rqs) (avail content) [] = (Inr (ct, tag), s')"
    and en: "request_encapsulate_non_chunked_content oct hp rqs content = Inr en"
    and sb: "wf_buf sb" "avail sb = stream_bytes (encap_events oct (request_seal hp) en)"
      "tail sb = stream_tail (encap_events oct (request_seal hp) en)"
  shows "\<exists>rrq sb' sb''. decode_request_header oct hp sc rq rs sb = Some (Inr (rrq, \<lparr>rsc_inner = rrc_inner rrc\<rparr>), sb')
    \<and> request_decapsulate_non_chunked_content hp rrq sb' = Some (Inr (avail content), sb'')"
proof -
  from en have en': "en = encap_non_chunked (rqs_sealer rqs)
      (header_bytes oct hp (rqs_encap_header rqs) @ rqs_encapped_key rqs) content"
    by (simp add: request_encapsulate_non_chunked_content_def encode_initial_chunk_bytes)
  note events = encap_events_non_chunked [where seal = "request_seal hp", OF content]
  have "avail sb = header_bytes oct hp (rqs_encap_header rqs) @ rqs_encapped_key rqs @ ct @ tag"
    using sb(2) by (simp add: en' events)
  with decode_request_header_view [OF pre sb(1)] obtain rrq sb' where
    d: "decode_request_header oct hp sc rq rs sb = Some (Inr (rrq, \<lparr>rsc_inner = rrc_inner rrc\<rparr>), sb')"
    and a: "rrq_aead rrq = ec_aead_id ec" and pair: "paired (ec_aead_id ec) (rqs_sealer rqs) (rrq_opener rrq)"
    and sb': "avail sb' = ct @ tag" "tail sb' = tail sb" by blast
  have "tail sb' = None" using sb(3) sb'(2) by (simp add: en' events)
  with read_to_end_result [OF refl, of sb'] sb'(1) obtain sb'' where
    r: "read_to_end sb' = Some (Inr (ct @ tag), sb'')" by auto
  from rq.seal_unseal [OF pair content(2)] a
  have "fst (request_open hp (rrq_aead rrq) (rrq_opener rrq) (ct @ tag) []) = Inr (avail content)" by auto
  with r have "request_decapsulate_non_chunked_content hp rrq sb' = Some (Inr (avail content), sb'')"
    by (simp add: request_decapsulate_non_chunked_content_def abind_Some_Inr map_hpke_err_def)
  with d show ?thesis by blast
qed

text \<open>The client derives the context of the response that the server sealed it with.\<close>

lemma receive_aead_context_view:
  fixes sb :: "'e stream_buf"
  assumes "wf_buf sb" "avail sb = nonce @ rest" "length nonce = length (rc_response_secret (rrc_inner rrc))"
  obtains sb' where
    "receive_aead_context hp rrc sb = Some (Inr (response_aead hp (rrc_inner rrc) nonce), sb')"
    "wf_buf sb'" "avail sb' = rest" "tail sb' = tail sb"
proof -
  have "parses (receive_aead_context hp rrc :: ('e stream_buf, _, 'e) async) (nonce @ rest) rest
      (response_aead hp (rrc_inner rrc) nonce)"
    unfolding receive_aead_context_def
    by (rule parses_abind [OF parses_read_exact]) (auto simp: assms(3) derive_total intro!: parses_aret parses_Some)
  from parses_view [OF chunk_invariant_receive_aead_context this assms(1,2)] that show thesis by blast
qed

lemma derive_aead_state_total:
  "derive_aead_state hp random rsc =
     Inr (random (length (rc_response_secret (rsc_inner rsc))),
          response_aead hp (rsc_inner rsc) (random (length (rc_response_secret (rsc_inner rsc)))))"
  by (simp add: derive_aead_state_def derive_total Let_def)

lemma response_chunked_round_trip:
  assumes same: "rsc_inner rsc = rrc_inner rrc" and random: "\<And>n. length (random n) = n"
    and ac: "derive_aead_state hp random rsc = Inr (nonce, ac)"
    and content: "seals_ok (context_seal hp) ac (inner_events content)"
      "chunks_fit oct (tag_size hp (rc_aead_id (rsc_inner rsc))) (inner_events content)"
    and en: "response_encapsulate_chunked_content hp random rsc content = Inr en"
    and sb: "wf_buf sb" "avail sb = stream_bytes (encap_events oct (context_seal hp) en)"
      "tail sb = stream_tail (encap_events oct (context_seal hp) en)"
  shows "\<exists>de. response_decapsulate_chunked_content hp rrc sb = Some (Inr de)
    \<and> stream_bytes (decap_events oct (context_open hp) de) = avail content
    \<and> stream_tail (decap_events oct (context_open hp) de) = tail content"
proof -
  from ac have nonce: "nonce = random (length (rc_response_secret (rsc_inner rsc)))"
    "ac = response_aead hp (rsc_inner rsc) nonce" by (auto simp: derive_aead_state_total)
  from en have en': "en = encap_chunked ac nonce content"
    by (simp add: response_encapsulate_chunked_content_def derive_aead_state_total nonce)
  have "avail sb = nonce @ stream_bytes (sealed_events oct (context_seal hp) ac (inner_events content))"
    using sb(2) by (simp add: en' encap_events_chunked)
  moreover have "length nonce = length (rc_response_secret (rrc_inner rrc))" by (simp add: nonce random same)
  ultimately obtain sb' where
    r: "receive_aead_context hp rrc sb = Some (Inr (response_aead hp (rrc_inner rrc) nonce), sb')"
    and sb': "wf_buf sb'" "avail sb' = stream_bytes (sealed_events oct (context_seal hp) ac (inner_events content))"
      "tail sb' = tail sb"
    using receive_aead_context_view [OF sb(1)] by metis
  have "tail sb' = stream_tail (sealed_events oct (context_seal hp) ac (inner_events content))"
    using sb(3) sb'(3) by (simp add: en' encap_events_chunked)
  from rss.decap_events_sealed [OF _ content sb'(1,2) this, where r = ac] r show ?thesis
    by (auto simp: response_decapsulate_chunked_content_def nonce(2) same)
qed

lemma response_non_chunked_round_trip:
  assumes same: "rsc_inner rsc = rrc_inner rrc" and random: "\<And>n. length (random n) = n"
    and ac: "derive_aead_state hp random rsc = Inr (nonce, ac)"
    and content: "tail content = None" "context_seal hp ac (avail content) [] = (Inr (ct, tag), s')"
    and en: "response_encapsulate_non_chunked_content hp random rsc content = Inr en"
    and sb: "wf_buf sb" "avail sb = stream_bytes (encap_events oct (context_seal hp) en)"
      "tail sb = stream_tail (encap_events oct (context_seal hp) en)"
  shows "\<exists>sb'. response_decapsulate_non_chunked_content hp rrc sb = Some (Inr (avail content), sb')"
proof -
  from ac have nonce: "nonce = random (length (rc_response_secret (rsc_inner rsc)))"
    "ac = response_aead hp (rsc_inner rsc) nonce" by (auto simp: derive_aead_state_total)
  from en have en': "en = encap_non_chunked ac nonce content"
    by (simp add: response_encapsulate_non_chunked_content_def derive_aead_state_total nonce)
  note events = encap_events_non_chunked [where seal = "context_seal hp", OF content]
  have "avail sb = nonce @ ct @ tag" using sb(2) by (simp add: en' events)
  moreover have "length nonce = length (rc_response_secret (rrc_inner rrc))" by (simp add: nonce random same)
  ultimately obtain sb' where
    r: "receive_aead_context hp rrc sb = Some (Inr ac, sb')" and sb': "avail sb' = ct @ tag" "tail sb' = tail sb"
    using receive_aead_context_view [OF sb(1)] nonce(2) same by metis
  have "tail sb' = None" using sb(3) sb'(2) by (simp add: en' events)
  with read_to_end_result [OF refl, of sb'] sb'(1) obtain sb'' where
    e: "read_to_end sb' = Some (Inr (ct @ tag), sb'')" by auto
  from context_seal_open [OF refl content(2)] have "fst (context_open hp ac (ct @ tag) []) = Inr (avail content)" by simp
  with r e show ?thesis
    by (simp add: response_decapsulate_non_chunked_content_def abind_Some_Inr map_hpke_err_def)
qed

end

subsection \<open>Properties\<close>

definition demo_encap :: encap_config where
  "demo_encap = (let kc = hd (sc_key_configs demo_config) in
     \<lparr>ec_key_id = kc_key_id kc, ec_public_key = kp_public_key (kc_key kc),
      ec_kdf_id = HkdfSha256, ec_aead_id = AesGcm128\<rparr>)"

lemma demo_encap_eq:
  "demo_encap = \<lparr>ec_key_id = 0, ec_public_key = \<lparr>pk_kem_id = X25519HkdfSha256,
     pk_bytes = sized 32 [1, 2, 3]\<rparr>, ec_kdf_id = HkdfSha256, ec_aead_id = AesGcm128\<rparr>"
  by (simp add: demo_encap_def demo_config_def add_key_config_def default_server_config_def Let_def
      key_config_encoded_len_def derive_key_pair_def kem_derive_keypair_bytes_def plain_hpke_def plain_size_def)

lemma demo_offered: "offered demo_config demo_encap"
  by (simp add: offered_def demo_encap_def demo_config_def add_key_config_def default_server_config_def Let_def
      key_config_encoded_len_def derive_key_pair_def kem_derive_keypair_bytes_def plain_hpke_def plain_size_def)

definition demo_sender :: plain_ctx where
  "demo_sender = \<lparr>pc_setup = (AesGcm128, sized 32 [1, 2, 3], sized 32 [],
     info_bytes (rfc9000_octets (2 ^ 64 - 1)) plain_hpke (config_header demo_encap) (ascii ''req'')), pc_seq = 0\<rparr>"

definition demo_sending :: "plain_ctx request_sending_context" where
  "demo_sending = \<lparr>rqs_sealer = demo_sender, rqs_encap_header = config_header demo_encap,
     rqs_encapped_key = sized 32 []\<rparr>"

definition demo_response_ctx :: response_context where
  "demo_response_ctx = \<lparr>rc_kdf_id = HkdfSha256, rc_aead_id = AesGcm128, rc_encapped_key = sized 32 [],
     rc_response_secret = sized 16 (ascii ''res'')\<rparr>"

lemma demo_setup:
  "setup_request_encapsulation (rfc9000_octets (2 ^ 64 - 1)) plain_hpke [] demo_encap (ascii ''req'') (ascii ''res'')
     = Inr (demo_sending, \<lparr>rrc_inner = demo_response_ctx\<rparr>)"
  unfolding ohttp_plain.setup_request_encapsulation_eq
  by (simp add: demo_encap_eq demo_sending_def demo_sender_def demo_response_ctx_def export_or_panic_def
      plain_hpke_def plain_size_def)

definition demo_context :: aead_context where
  "demo_context = response_aead plain_hpke demo_response_ctx (replicate 16 9)"

lemma demo_derive:
  "derive_aead_state plain_hpke (\<lambda>n. replicate n 9) \<lparr>rsc_inner = demo_response_ctx\<rparr> = Inr (replicate 16 9, demo_context)"
  unfolding ohttp_plain.derive_aead_state_total by (simp add: demo_response_ctx_def demo_context_def)

lemma demo_seals: "length st < 1000 \<Longrightarrow> seals_ok (context_seal plain_hpke) demo_context st"
proof (rule plain.seals_ok_context [where ac = demo_context])
  show "wf_context plain_hpke demo_context" by (simp add: demo_context_def plain.wf_response_aead)
qed (simp_all add: demo_context_def plain_hpke_def)

text \<open>
  C20: setting up the encapsulation of a request fails only when the HPKE library refuses the
  server's key, with the library's error. No input makes it panic: the information string
  has exactly the computed length and the exported secret is never too long.
\<close>

theorem setup_never_panics:
  assumes "octets_crate oct" "hpke_crate hp paired"
    and "setup_request_encapsulation oct hp rng ec rq rs = Inl e"
  shows "\<exists>x. e = Source x \<and> setup_sender hp (pk_kem_id (ec_public_key ec)) (ec_kdf_id ec) (ec_aead_id ec)
    (pk_bytes (ec_public_key ec)) (info_bytes oct hp (config_header ec) rq) rng = Inl x"
  using ohttp.setup_request_encapsulation_error [OF ohttp.intro [OF assms(1,2)] assms(3)] by metis

theorem setup_never_panics_witness:
  "\<exists>x. setup_request_encapsulation (rfc9000_octets (2 ^ 64 - 1)) plain_hpke []
      (demo_encap\<lparr>ec_public_key := \<lparr>pk_kem_id = X25519HkdfSha256, pk_bytes = [7]\<rparr>\<rparr>) [] [] = Inl (Source x)"
proof -
  let ?ec = "demo_encap\<lparr>ec_public_key := \<lparr>pk_kem_id = X25519HkdfSha256, pk_bytes = [7]\<rparr>\<rparr>"
  obtain e where e: "setup_request_encapsulation (rfc9000_octets (2 ^ 64 - 1)) plain_hpke [] ?ec [] [] = Inl e"
    unfolding ohttp_plain.setup_request_encapsulation_eq by (simp add: plain_hpke_def plain_size_def)
  from setup_never_panics [OF native.octets_crate_axioms plain.hpke_crate_axioms e] e show ?thesis by metis
qed

text \<open>
  C2: a request reaches the server as the client made it: when the client encapsulates content
  in chunks for a key that the server offers, the server decodes the header from the
  bytes, however they arrive, finds the key, derives the same response context as the client and
  decapsulates exactly the client's content, with its end or its error.
\<close>

theorem request_exchange_chunked:
  assumes "octets_crate oct" "hpke_crate hp paired"
    and "wf_server_config hp sc" "offered sc ec"
      "setup_request_encapsulation oct hp rng ec rq rs = Inr (rqs, rrc)"
    and "seals_ok (request_seal hp) (rqs_sealer rqs) (inner_events content)"
      "chunks_fit oct (tag_size hp (ec_aead_id ec)) (inner_events content)"
    and "request_encapsulate_chunked_content oct hp rqs content = Inr en"
    and "wf_buf sb" "avail sb = stream_bytes (encap_events oct (request_seal hp) en)"
      "tail sb = stream_tail (encap_events oct (request_seal hp) en)"
  shows "\<exists>rrq sb'. decode_request_header oct hp sc rq rs sb = Some (Inr (rrq, \<lparr>rsc_inner = rrc_inner rrc\<rparr>), sb')
    \<and> stream_bytes (decap_events oct (request_open hp (rrq_aead rrq)) (request_decapsulate_chunked_content rrq sb'))
        = avail content
    \<and> stream_tail (decap_events oct (request_open hp (rrq_aead rrq)) (request_decapsulate_chunked_content rrq sb'))
        = tail content"
  by (rule ohttp.request_chunked_round_trip [OF ohttp.intro [OF assms(1,2)] assms(3-11)])

theorem request_exchange_chunked_witness:
  "\<exists>rrq sb'. decode_request_header (rfc9000_octets (2 ^ 64 - 1)) plain_hpke demo_config (ascii ''req'') (ascii ''res'')
       (stream_buf_from (stream_bytes (encap_events (rfc9000_octets (2 ^ 64 - 1)) (request_seal plain_hpke)
          (encap_chunked demo_sender (header_bytes (rfc9000_octets (2 ^ 64 - 1)) plain_hpke (config_header demo_encap)
             @ sized 32 []) (stream_buf_from [5, 6] :: unit stream_buf)))) :: unit stream_buf)
     = Some (Inr (rrq, \<lparr>rsc_inner = demo_response_ctx\<rparr>), sb')
   \<and> stream_bytes (decap_events (rfc9000_octets (2 ^ 64 - 1)) (request_open plain_hpke (rrq_aead rrq))
       (request_decapsulate_chunked_content rrq sb')) = [5, 6]"
proof -
  let ?oct = "rfc9000_octets (2 ^ 64 - 1)" and ?c = "stream_buf_from [5, 6] :: unit stream_buf"
  let ?en = "encap_chunked demo_sender (header_bytes ?oct plain_hpke (config_header demo_encap) @ sized 32 []) ?c"
  have ok: "seals_ok (request_seal plain_hpke) demo_sender (inner_events ?c)"
    "chunks_fit ?oct (tag_size plain_hpke (ec_aead_id demo_encap)) (inner_events ?c)"
    by (simp_all add: request_seal_def plain_hpke_def inner_events_def stream_buf_from_def rfc9000_octets_def)
  have "stream_tail (encap_events ?oct (request_seal plain_hpke) ?en) = None"
    unfolding encap_events_chunked
    using ohttp_plain.rqs.stream_tail_sealed [OF refl ok]
    by (simp add: inner_events_def stream_buf_from_def)
  moreover have "request_encapsulate_chunked_content ?oct plain_hpke demo_sending ?c = Inr ?en"
    unfolding request_encapsulate_chunked_content_def native.encode_initial_chunk_bytes
    by (simp add: demo_sending_def)
  ultimately show ?thesis
    using request_exchange_chunked [OF native.octets_crate_axioms plain.hpke_crate_axioms demo_config_wf demo_offered
        demo_setup, of ?c ?en "stream_buf_from (stream_bytes (encap_events ?oct (request_seal plain_hpke) ?en))"] ok
    by (simp add: demo_sending_def) metis
qed

text \<open>
  C18: the same for content that is sealed as a whole: the server opens exactly the content.
\<close>

theorem request_exchange_non_chunked:
  assumes "octets_crate oct" "hpke_crate hp paired"
    and "wf_server_config hp sc" "offered sc ec"
      "setup_request_encapsulation oct hp rng ec rq rs = Inr (rqs, rrc)"
    and "tail content = None" "request_seal hp (rqs_sealer rqs) (avail content) [] = (Inr (ct, tag), s')"
    and "request_encapsulate_non_chunked_content oct hp rqs content = Inr en"
    and "wf_buf sb" "avail sb = stream_bytes (encap_events oct (request_seal hp) en)"
      "tail sb = stream_tail (encap_events oct (request_seal hp) en)"
  shows "\<exists>rrq sb' sb''. decode_request_header oct hp sc rq rs sb = Some (Inr (rrq, \<lparr>rsc_inner = rrc_inner rrc\<rparr>), sb')
    \<and> request_decapsulate_non_chunked_content hp rrq sb' = Some (Inr (avail content), sb'')"
  by (rule ohttp.request_non_chunked_round_trip [OF ohttp.intro [OF assms(1,2)] assms(3-11)])

theorem request_exchange_non_chunked_witness:
  "\<exists>rrq sb' sb''. decode_request_header (rfc9000_octets (2 ^ 64 - 1)) plain_hpke demo_config (ascii ''req'') (ascii ''res'')
       (stream_buf_from (stream_bytes (encap_events (rfc9000_octets (2 ^ 64 - 1)) (request_seal plain_hpke)
          (encap_non_chunked demo_sender (header_bytes (rfc9000_octets (2 ^ 64 - 1)) plain_hpke (config_header demo_encap)
             @ sized 32 []) (stream_buf_from [5, 6] :: unit stream_buf)))) :: unit stream_buf)
     = Some (Inr (rrq, \<lparr>rsc_inner = demo_response_ctx\<rparr>), sb')
   \<and> request_decapsulate_non_chunked_content plain_hpke rrq sb' = Some (Inr [5, 6], sb'')"
proof -
  let ?oct = "rfc9000_octets (2 ^ 64 - 1)" and ?c = "stream_buf_from [5, 6] :: unit stream_buf"
  let ?en = "encap_non_chunked demo_sender (header_bytes ?oct plain_hpke (config_header demo_encap) @ sized 32 []) ?c"
  obtain ct tag s' where seal: "request_seal plain_hpke demo_sender (avail ?c) [] = (Inr (ct, tag), s')"
    by (simp add: request_seal_def plain_hpke_def)
  have "stream_tail (encap_events ?oct (request_seal plain_hpke) ?en) = None"
    by (rule encap_events_non_chunked(2) [where seal = "request_seal plain_hpke", OF _ seal]) simp
  moreover have "request_encapsulate_non_chunked_content ?oct plain_hpke demo_sending ?c = Inr ?en"
    unfolding request_encapsulate_non_chunked_content_def native.encode_initial_chunk_bytes
    by (simp add: demo_sending_def)
  ultimately show ?thesis
    using request_exchange_non_chunked [OF native.octets_crate_axioms plain.hpke_crate_axioms demo_config_wf demo_offered
        demo_setup, of ?c ct tag s' ?en "stream_buf_from (stream_bytes (encap_events ?oct (request_seal plain_hpke) ?en))"] seal
    by (simp add: demo_sending_def)
qed

text \<open>
  C5: a response reaches the client as the server made it: from the contexts that both sides
  got from one request, the client reads the random nonce, derives the server's AEAD
  context and decapsulates exactly the content that the server encapsulated in chunks.
\<close>

theorem response_exchange_chunked:
  assumes "octets_crate oct" "hpke_crate hp paired"
    and "rsc_inner rsc = rrc_inner rrc" "\<And>n. length (random n) = n"
    and "derive_aead_state hp random rsc = Inr (nonce, ac)"
    and "seals_ok (context_seal hp) ac (inner_events content)"
      "chunks_fit oct (tag_size hp (rc_aead_id (rsc_inner rsc))) (inner_events content)"
    and "response_encapsulate_chunked_content hp random rsc content = Inr en"
    and "wf_buf sb" "avail sb = stream_bytes (encap_events oct (context_seal hp) en)"
      "tail sb = stream_tail (encap_events oct (context_seal hp) en)"
  shows "\<exists>de. response_decapsulate_chunked_content hp rrc sb = Some (Inr de)
    \<and> stream_bytes (decap_events oct (context_open hp) de) = avail content
    \<and> stream_tail (decap_events oct (context_open hp) de) = tail content"
  by (rule ohttp.response_chunked_round_trip [OF ohttp.intro [OF assms(1,2)] assms(3-11)])

theorem response_exchange_chunked_witness:
  "\<exists>en de. response_encapsulate_chunked_content plain_hpke (\<lambda>n. replicate n 9)
       \<lparr>rsc_inner = demo_response_ctx\<rparr> (stream_buf_from [5, 6] :: unit stream_buf) = Inr en
   \<and> response_decapsulate_chunked_content plain_hpke \<lparr>rrc_inner = demo_response_ctx\<rparr>
       (stream_buf_from (stream_bytes (encap_events (rfc9000_octets (2 ^ 64 - 1)) (context_seal plain_hpke) en))
         :: unit stream_buf) = Some (Inr de)
   \<and> stream_bytes (decap_events (rfc9000_octets (2 ^ 64 - 1)) (context_open plain_hpke) de) = [5, 6]"
proof -
  let ?oct = "rfc9000_octets (2 ^ 64 - 1)" and ?c = "stream_buf_from [5, 6] :: unit stream_buf"
  let ?en = "encap_chunked demo_context (replicate 16 9) ?c"
  have ok: "seals_ok (context_seal plain_hpke) demo_context (inner_events ?c)"
    "chunks_fit ?oct (tag_size plain_hpke (rc_aead_id demo_response_ctx)) (inner_events ?c)"
    by (rule demo_seals) (simp_all add: inner_events_def stream_buf_from_def rfc9000_octets_def plain_hpke_def)
  have tail: "stream_tail (encap_events ?oct (context_seal plain_hpke) ?en) = None"
    unfolding encap_events_chunked
    using ohttp_plain.rss.stream_tail_sealed [OF _ ok, where r = demo_context]
    by (simp add: inner_events_def stream_buf_from_def demo_context_def)
  have en: "response_encapsulate_chunked_content plain_hpke (\<lambda>n. replicate n 9) \<lparr>rsc_inner = demo_response_ctx\<rparr> ?c = Inr ?en"
    by (simp add: response_encapsulate_chunked_content_def demo_derive)
  show ?thesis
    using response_exchange_chunked [OF native.octets_crate_axioms plain.hpke_crate_axioms,
        of "\<lparr>rsc_inner = demo_response_ctx\<rparr>" "\<lparr>rrc_inner = demo_response_ctx\<rparr>" "\<lambda>n. replicate n 9" "replicate 16 9"
           demo_context ?c ?en "stream_buf_from (stream_bytes (encap_events ?oct (context_seal plain_hpke) ?en))"]
      ok tail en
    by (auto simp: demo_derive)
qed

text \<open>
  C19: the same for a response that is sealed as a whole.
\<close>

theorem response_exchange_non_chunked:
  assumes "octets_crate oct" "hpke_crate hp paired"
    and "rsc_inner rsc = rrc_inner rrc" "\<And>n. length (random n) = n"
    and "derive_aead_state hp random rsc = Inr (nonce, ac)"
    and "tail content = None" "context_seal hp ac (avail content) [] = (Inr (ct, tag), s')"
    and "response_encapsulate_non_chunked_content hp random rsc content = Inr en"
    and "wf_buf sb" "avail sb = stream_bytes (encap_events oct (context_seal hp) en)"
      "tail sb = stream_tail (encap_events oct (context_seal hp) en)"
  shows "\<exists>sb'. response_decapsulate_non_chunked_content hp rrc sb = Some (Inr (avail content), sb')"
  by (rule ohttp.response_non_chunked_round_trip [OF ohttp.intro [OF assms(1,2)] assms(3-11)])

theorem response_exchange_non_chunked_witness:
  "\<exists>en sb'. response_encapsulate_non_chunked_content plain_hpke (\<lambda>n. replicate n 9)
       \<lparr>rsc_inner = demo_response_ctx\<rparr> (stream_buf_from [5, 6] :: unit stream_buf) = Inr en
   \<and> response_decapsulate_non_chunked_content plain_hpke \<lparr>rrc_inner = demo_response_ctx\<rparr>
       (stream_buf_from (stream_bytes (encap_events (rfc9000_octets (2 ^ 64 - 1)) (context_seal plain_hpke) en))
         :: unit stream_buf) = Some (Inr [5, 6], sb')"
proof -
  let ?oct = "rfc9000_octets (2 ^ 64 - 1)" and ?c = "stream_buf_from [5, 6] :: unit stream_buf"
  let ?en = "encap_non_chunked demo_context (replicate 16 9) ?c"
  have "seals_ok (context_seal plain_hpke) demo_context [Yield (Inr (avail ?c)) :: unit event]"
    by (rule demo_seals) simp
  then obtain ct tag s' where seal: "context_seal plain_hpke demo_context (avail ?c) [] = (Inr (ct, tag), s')"
    by (auto split: prod.splits sum.splits)
  have tail: "stream_tail (encap_events ?oct (context_seal plain_hpke) ?en) = None"
    by (rule encap_events_non_chunked(2) [where seal = "context_seal plain_hpke", OF _ seal]) simp
  have en: "response_encapsulate_non_chunked_content plain_hpke (\<lambda>n. replicate n 9) \<lparr>rsc_inner = demo_response_ctx\<rparr> ?c = Inr ?en"
    by (simp add: response_encapsulate_non_chunked_content_def demo_derive)
  show ?thesis
    using response_exchange_non_chunked [OF native.octets_crate_axioms plain.hpke_crate_axioms,
        of "\<lparr>rsc_inner = demo_response_ctx\<rparr>" "\<lparr>rrc_inner = demo_response_ctx\<rparr>" "\<lambda>n. replicate n 9" "replicate 16 9"
           demo_context ?c ct tag s' ?en
           "stream_buf_from (stream_bytes (encap_events ?oct (context_seal plain_hpke) ?en))"]
      seal tail en
    by (simp add: demo_derive)
qed

end
