(* ===== verification/Robustness.thy ===== *)
theory Robustness
  imports Bhttp_Chunking Hpke_Server
begin

text \<open>
  Robustness of the decoders against what a peer sends: on every buffer, well formed or not,
  decoding returns after finitely many polls, and it does not panic. One exception is
  found and stated: the header map of the \<^verbatim>\<open>http\<close> crate panics at its capacity,
  and the binary HTTP decoder lets it.
\<close>

subsection \<open>A calculus of robust decoders\<close>

text \<open>The wrapped stream itself reports errors, not panics.\<close>

definition quiet :: "'e stream_buf \<Rightarrow> bool" where
  "quiet sb \<longleftrightarrow> (\<forall>e. Yield (Inl e) \<in> set (stream sb) \<longrightarrow> \<not> panics e)"

definition harmless :: "(string \<Rightarrow> bool) \<Rightarrow> 'e err \<Rightarrow> bool" where
  "harmless ok e \<longleftrightarrow> (\<forall>p. e = Panicked p \<longrightarrow> ok p)"

text \<open>
  \<open>robust ok cost m\<close>: from every quiet buffer, \<open>m\<close> returns; it panics only with
  a message in \<open>ok\<close>; and when it succeeds with \<open>a\<close>, it has consumed at least
  \<open>cost a\<close> bytes.
\<close>

definition robust :: "(string \<Rightarrow> bool) \<Rightarrow> ('a \<Rightarrow> nat) \<Rightarrow> ('e stream_buf, 'a, 'e) async \<Rightarrow> bool" where
  "robust ok cost m \<longleftrightarrow> (\<forall>sb. quiet sb \<longrightarrow> (\<exists>r sb'. m sb = Some (r, sb') \<and> quiet sb'
     \<and> (\<forall>e. r = Inl e \<longrightarrow> harmless ok e) \<and> (\<forall>a. r = Inr a \<longrightarrow> length (avail sb') + cost a \<le> length (avail sb))))"

named_theorems robust_rules \<open>robust decoders\<close>

lemma robustI:
  assumes "\<And>sb. quiet sb \<Longrightarrow> \<exists>r sb'. m sb = Some (r, sb') \<and> quiet sb'
     \<and> (\<forall>e. r = Inl e \<longrightarrow> harmless ok e) \<and> (\<forall>a. r = Inr a \<longrightarrow> length (avail sb') + cost a \<le> length (avail sb))"
  shows "robust ok cost m"
  using assms by (simp add: robust_def)

lemma robust_cases:
  assumes "robust ok cost m" "quiet sb"
  obtains e sb' where "m sb = Some (Inl e, sb')" "quiet sb'" "harmless ok e"
  | a sb' where "m sb = Some (Inr a, sb')" "quiet sb'" "length (avail sb') + cost a \<le> length (avail sb)"
  using assms unfolding robust_def by (metis sum.exhaust)

lemma robust_mono: "robust ok c m \<Longrightarrow> (\<And>a. d a \<le> c a) \<Longrightarrow> robust ok d m"
  unfolding robust_def by (meson add_left_mono order_trans)

lemma robust_abind:
  fixes m :: "('e stream_buf, 'a, 'e) async"
  assumes m: "robust ok c m" and f: "\<And>a. robust ok (\<lambda>b. d b - c a) (f a)"
  shows "robust ok d (abind m f)"
proof (rule robustI)
  fix sb :: "'e stream_buf"
  assume "quiet sb"
  with m show "\<exists>r sb'. abind m f sb = Some (r, sb') \<and> quiet sb'
     \<and> (\<forall>e. r = Inl e \<longrightarrow> harmless ok e) \<and> (\<forall>a. r = Inr a \<longrightarrow> length (avail sb') + d a \<le> length (avail sb))"
  proof (cases rule: robust_cases)
    case (1 e sb')
    then show ?thesis by (simp add: abind_Some_Inl)
  next
    case (2 a s1)
    from f [of a] 2(2) show ?thesis
      by (cases rule: robust_cases) (use 2 in \<open>fastforce simp: abind_Some_Inr\<close>)+
  qed
qed

lemma robust_alift:
  "(\<And>e. r = Inl e \<Longrightarrow> harmless ok e) \<Longrightarrow> (\<And>a. cost a = 0) \<Longrightarrow> robust ok cost (alift r)"
  by (rule robustI) auto

lemma robust_aret: "cost a = 0 \<Longrightarrow> robust ok cost (aret a)"
  by (rule robustI) simp

text \<open>Sequences whose consumption does not matter, and the rounds of a loop.\<close>

lemma robust_sequence [robust_rules]:
  "robust ok (\<lambda>_. 0) m \<Longrightarrow> (\<And>a. robust ok (\<lambda>_. 0) (f a)) \<Longrightarrow> robust ok (\<lambda>_. 0) (abind m f)"
  by (rule robust_abind) simp_all

lemma robust_free: "robust ok c m \<Longrightarrow> robust ok (\<lambda>_. 0) m"
  by (rule robust_mono, assumption) simp

lemma robust_result [robust_rules]: "(\<And>e. r = Inl e \<Longrightarrow> harmless ok e) \<Longrightarrow> robust ok (\<lambda>_. 0) (alift r)"
  by (rule robust_alift) simp_all

lemma robust_return [robust_rules]: "robust ok (\<lambda>_. 0) (aret a)"
  by (rule robust_aret) simp

lemma robust_if [robust_rules]:
  "(b \<Longrightarrow> robust ok c m) \<Longrightarrow> (\<not> b \<Longrightarrow> robust ok c m') \<Longrightarrow> robust ok c (if b then m else m')"
  by simp

abbreviation round_cost :: "'a \<times> bool \<Rightarrow> nat" where
  "round_cost \<equiv> \<lambda>(a, go_on). if go_on then 1 else 0"

lemma robust_round:
  assumes "robust ok (\<lambda>_. 1) m" "\<And>a. robust ok (\<lambda>_. 0) (f a)"
  shows "robust ok round_cost (abind m f)"
  by (rule robust_abind [OF assms(1)], rule robust_mono [OF assms(2)]) (simp split: prod.split)

lemma robust_round_after:
  assumes "robust ok (\<lambda>_. 0) m" "\<And>a. robust ok round_cost (f a)"
  shows "robust ok round_cost (abind m f)"
  by (rule robust_abind [OF assms(1)]) (simp add: assms(2))

lemma robust_last_round: "robust ok round_cost (aret (a, False))"
  by (rule robust_aret) simp

text \<open>A loop is robust when its rounds are and every round that goes on consumes something.\<close>

lemma robust_aloop:
  assumes round: "\<And>a. robust ok round_cost (round a)"
  shows "robust ok (\<lambda>_. 0) (aloop round a)"
proof (rule robustI)
  fix sb
  show "quiet sb \<Longrightarrow> \<exists>r sb'. aloop round a sb = Some (r, sb') \<and> quiet sb'
     \<and> (\<forall>e. r = Inl e \<longrightarrow> harmless ok e) \<and> (\<forall>a. r = Inr a \<longrightarrow> length (avail sb') + 0 \<le> length (avail sb))"
  proof (induction "length (avail sb)" arbitrary: a sb rule: less_induct)
    case less
    from round [of a] less.prems show ?case
    proof (cases rule: robust_cases)
      case (1 e sb')
      then show ?thesis by (simp add: aloop_unfold abind_Some_Inl)
    next
      case (2 p s1)
      obtain a' go_on where p: "p = (a', go_on)" by (cases p)
      show ?thesis
      proof (cases go_on)
        case True
        with 2(3) p have lt: "length (avail s1) < length (avail sb)" by simp
        from less.hyps [OF lt 2(2), of a'] obtain r s2 where r: "aloop round a' s1 = Some (r, s2)" "quiet s2"
          "(\<forall>e. r = Inl e \<longrightarrow> harmless ok e) \<and> (\<forall>a. r = Inr a \<longrightarrow> length (avail s2) + 0 \<le> length (avail s1))" by blast
        have "aloop round a sb = Some (r, s2)"
          using 2(1) p True r(1) by (subst aloop_unfold) (simp add: abind_Some_Inr)
        with r lt show ?thesis by auto
      next
        case False
        with 2 p show ?thesis by (subst aloop_unfold) (simp add: abind_Some_Inr)
      qed
    qed
  qed
qed

subsection \<open>Reads\<close>

lemma harmless_simps [simp]:
  "harmless ok (FromIo x)" "harmless ok (Source y)" "harmless ok (Panicked p) = ok p"
  "harmless ok (invalid_data c)" "harmless ok (unexpected_eof s)"
  by (simp_all add: harmless_def invalid_data_def unexpected_eof_def)

lemma not_panics_harmless: "\<not> panics e \<Longrightarrow> harmless ok e"
  by (cases e) simp_all

lemma quiet_step:
  "quiet sb \<Longrightarrow> stream sb = ev # st \<Longrightarrow> quiet (sb\<lparr>stream := st\<rparr>)"
  "quiet sb \<Longrightarrow> stream sb = ev # st \<Longrightarrow> quiet (sb\<lparr>stream := st, buf := b\<rparr>)"
  "quiet sb \<Longrightarrow> stream sb = ev # st \<Longrightarrow> quiet (sb\<lparr>buf := b, stream := st\<rparr>)"
  "quiet sb \<Longrightarrow> quiet (sb\<lparr>buf := b\<rparr>)"
  "quiet sb \<Longrightarrow> stream sb = Yield (Inl e) # st \<Longrightarrow> harmless ok e"
  by (auto simp: quiet_def intro: not_panics_harmless)

lemma avail_step:
  "stream sb = Wait # st \<Longrightarrow> avail (sb\<lparr>stream := st\<rparr>) = avail sb"
  "stream sb = Yield (Inr d) # st \<Longrightarrow> avail (sb\<lparr>stream := st, buf := buf sb @ d\<rparr>) = avail sb"
  "stream sb = Yield (Inr d) # st \<Longrightarrow> buf sb = [] \<Longrightarrow> avail (sb\<lparr>buf := d, stream := st\<rparr>) = avail sb"
  by (simp_all add: avail_def)

abbreviation returns_robustly ::
  "(string \<Rightarrow> bool) \<Rightarrow> ('a \<Rightarrow> nat) \<Rightarrow> (('a, 'e) result \<times> 'e stream_buf) option \<Rightarrow> 'e stream_buf \<Rightarrow> bool" where
  "returns_robustly ok cost o' sb \<equiv> \<exists>r sb'. o' = Some (r, sb') \<and> quiet sb'
     \<and> (\<forall>e. r = Inl e \<longrightarrow> harmless ok e) \<and> (\<forall>a. r = Inr a \<longrightarrow> length (avail sb') + cost a \<le> length (avail sb))"

lemma robust_read_exact [robust_rules]: "robust ok (\<lambda>_. 0) (read_exact n)"
proof (rule robustI)
  fix sb :: "'e stream_buf"
  show "quiet sb \<Longrightarrow> returns_robustly ok (\<lambda>_. 0) (read_exact n sb) sb"
  proof (induction "stream sb" arbitrary: sb)
    case Nil
    then show ?case by (simp add: read_exact_unfold [of n sb] quiet_step avail_def)
  next
    case (Cons ev st)
    note q = Cons.prems and s = Cons.hyps(2) [symmetric]
    show ?case
    proof (cases "n \<le> length (buf sb) \<or> max_buf_size sb < length (buf sb)")
      case True
      with q show ?thesis by (auto simp: read_exact_unfold [of n sb] quiet_step avail_def)
    next
      case False
      show ?thesis
      proof (cases ev rule: event_cases)
        case W
        with False s Cons.hyps(1) [of "sb\<lparr>stream := st\<rparr>"] q show ?thesis
          by (simp add: read_exact_unfold [of n sb] quiet_step avail_step)
      next
        case (E e)
        with False s q show ?thesis
          by (simp add: read_exact_unfold [of n sb] quiet_step)
      next
        case (D d)
        with False s Cons.hyps(1) [of "sb\<lparr>stream := st, buf := buf sb @ d\<rparr>"] q show ?thesis
          by (simp add: read_exact_unfold [of n sb] quiet_step avail_step)
      qed
    qed
  qed
qed

lemma robust_has_more_data [robust_rules]: "robust ok (\<lambda>_. 0) has_more_data"
proof (rule robustI)
  fix sb :: "'e stream_buf"
  show "quiet sb \<Longrightarrow> returns_robustly ok (\<lambda>_. 0) (has_more_data sb) sb"
  proof (induction "stream sb" arbitrary: sb)
    case Nil
    then show ?case by (simp add: has_more_data_unfold [of sb])
  next
    case (Cons ev st)
    note q = Cons.prems and s = Cons.hyps(2) [symmetric]
    show ?case
    proof (cases ev rule: event_cases)
      case W
      with s Cons.hyps(1) [of "sb\<lparr>stream := st\<rparr>"] q show ?thesis
        by (simp add: has_more_data_unfold [of sb] quiet_step avail_step)
    qed (use s q in \<open>simp_all add: has_more_data_unfold [of sb] quiet_step avail_step\<close>)
  qed
qed

lemma robust_read_to_end [robust_rules]: "robust ok (\<lambda>_. 0) read_to_end"
proof (rule robustI)
  fix sb :: "'e stream_buf"
  show "quiet sb \<Longrightarrow> returns_robustly ok (\<lambda>_. 0) (read_to_end sb) sb"
  proof (induction "stream sb" arbitrary: sb)
    case Nil
    then show ?case by (simp add: read_to_end_unfold [of sb] quiet_step avail_def)
  next
    case (Cons ev st)
    note q = Cons.prems and s = Cons.hyps(2) [symmetric]
    show ?case
    proof (cases ev rule: event_cases)
      case W
      with s Cons.hyps(1) [of "sb\<lparr>stream := st\<rparr>"] q show ?thesis
        by (simp add: read_to_end_unfold [of sb] quiet_step avail_step)
    next
      case (E e)
      with s q show ?thesis by (simp add: read_to_end_unfold [of sb] quiet_step)
    next
      case (D d)
      with s Cons.hyps(1) [of "sb\<lparr>stream := st, buf := buf sb @ d\<rparr>"] q show ?thesis
        by (simp add: read_to_end_unfold [of sb] quiet_step avail_step)
    qed
  qed
qed

context reader
begin

lemma robust_decode_with: "robust ok (\<lambda>_. 1) (decode_with get)"
proof (rule robustI)
  fix sb :: "'e stream_buf"
  show "quiet sb \<Longrightarrow> returns_robustly ok (\<lambda>_. 1) (decode_with get sb) sb"
  proof (induction "stream sb" arbitrary: sb)
    case Nil
    then show ?case
      by (auto simp: decode_with_unfold [of get sb] quiet_step avail_def advance_def
          dest: get_shorter split: option.split prod.split)
  next
    case (Cons ev st)
    note q = Cons.prems and s = Cons.hyps(2) [symmetric]
    show ?case
    proof (cases "get (buf sb)")
      case (Some p)
      with q show ?thesis
        by (cases p) (auto simp: decode_with_unfold [of get sb] quiet_step avail_def advance_def dest: get_shorter)
    next
      case None
      show ?thesis
      proof (cases "max_buf_size sb < length (buf sb)")
        case True
        with None q show ?thesis by (simp add: decode_with_unfold [of get sb])
      next
        case False
        show ?thesis
        proof (cases ev rule: event_cases)
          case W
          with None False s Cons.hyps(1) [of "sb\<lparr>stream := st\<rparr>"] q show ?thesis
            by (simp add: decode_with_unfold [of get sb] quiet_step avail_step)
        next
          case (E e)
          with None False s q show ?thesis by (simp add: decode_with_unfold [of get sb] quiet_step)
        next
          case (D d)
          with None False s Cons.hyps(1) [of "sb\<lparr>stream := st, buf := buf sb @ d\<rparr>"] q show ?thesis
            by (simp add: decode_with_unfold [of get sb] quiet_step avail_step)
        qed
      qed
    qed
  qed
qed

end

context octets_crate
begin

lemma robust_integers:
  "robust ok (\<lambda>_. 1) (decode_u8 oct)" "robust ok (\<lambda>_. 1) (decode_u16 oct)" "robust ok (\<lambda>_. 1) (decode_varint_u64 oct)"
  unfolding decode_with_folds
  by (rule u8.robust_decode_with u16.robust_decode_with vi.robust_decode_with)+

lemma robust_varint_usize: "robust ok (\<lambda>_. 1) (decode_varint_usize oct)"
  unfolding decode_varint_usize_eq [abs_def]
proof (rule robust_abind [OF robust_integers(3)])
  show "robust ok (\<lambda>b. 1 - 1) (alift (usize_try_from oct v) :: ('e stream_buf, nat, 'e) async)" for v
    unfolding diff_self_eq_0 by (rule robust_result) (auto simp: usize_try_from_def split: if_splits)
qed

lemmas robust_integers_free [robust_rules] =
  robust_integers [THEN robust_free] robust_varint_usize [THEN robust_free]

lemma robust_read_with_varint_length [robust_rules]: "robust ok (\<lambda>_. 0) (read_with_varint_length oct)"
  unfolding read_with_varint_length_def by (intro robust_rules)

end

subsection \<open>The client and the server of ohttp-hpke\<close>

lemma harmless_ids:
  "kem_try_from_u16 hp i = Inl e \<Longrightarrow> harmless ok e"
  "kdf_try_from_u16 hp i = Inl e \<Longrightarrow> harmless ok e"
  "aead_try_from_u16 hp i = Inl e \<Longrightarrow> harmless ok e"
  by (auto simp: kem_try_from_u16_def kdf_try_from_u16_def aead_try_from_u16_def split: if_splits)

lemma harmless_get_key_pair: "get_key_pair sc h = Inl e \<Longrightarrow> harmless ok e"
  by (auto simp: get_key_pair_def Let_def split: if_splits)

context octets_crate
begin

lemma robust_header_decode [robust_rules]: "robust ok (\<lambda>_. 0) (header_decode oct hp)"
  unfolding header_decode_def by (intro robust_rules harmless_ids)

lemma robust_config_round: "robust ok round_cost (decode_key_config_round oct hp kcs)"
  unfolding decode_key_config_round_def
  by (rule robust_round_after [OF robust_has_more_data])
    (auto intro!: robust_last_round robust_round [OF robust_integers(2)] robust_rules)

lemma robust_decode_config: "robust ok (\<lambda>_. 0) (decode_config oct hp)"
  unfolding decode_config_def
  by (rule robust_sequence [OF robust_aloop [OF robust_config_round]]) (auto intro!: robust_rules)

end

context ohttp
begin

lemma robust_decode_request_header: "robust ok (\<lambda>_. 0) (decode_request_header oct hp sc rq rs)"
proof -
  have "map_hpke_err [] (dispatch_triple k d a (setup_request_decap hp) (sk, enc, info, rs)) = Inl e \<Longrightarrow> harmless ok e"
    for k d a sk enc info and e :: "'e err"
  proof (cases "setup_receiver hp k d a sk enc info")
    case (Inr r)
    from export_room_receiver [OF this order_refl] obtain out where
      "export_secret hp r rs (max (key_size hp a) (nonce_size hp a)) = Some out" by blast
    with Inr show "map_hpke_err [] (dispatch_triple k d a (setup_request_decap hp) (sk, enc, info, rs)) = Inl e \<Longrightarrow> harmless ok e"
      by (simp add: dispatch_triple_eq setup_request_decap_def export_or_panic_def map_hpke_err_def)
  qed (auto simp: dispatch_triple_eq setup_request_decap_def map_hpke_err_def)
  then show ?thesis
    unfolding decode_request_header_def encode_info_bytes alift_Inr case_prod_beta
    by (intro robust_rules) (erule harmless_get_key_pair, blast)
qed

end

subsection \<open>The binary HTTP decoder\<close>

definition capacity_panic :: "string \<Rightarrow> bool" where
  "capacity_panic p \<longleftrightarrow> p = ''header map at capacity''"

lemma harmless_ok_or: "ok_or c x = Inl e \<Longrightarrow> harmless ok e"
  by (auto simp: ok_or_def split: option.splits)

lemma harmless_append: "hm_append_or_panic api h n v = Inl e \<Longrightarrow> harmless capacity_panic e"
  by (auto simp: hm_append_or_panic_def capacity_panic_def split: option.splits)

lemma harmless_rbind:
  "rbind r f = Inl e \<Longrightarrow> (\<And>e. r = Inl e \<Longrightarrow> harmless ok e) \<Longrightarrow> (\<And>a. f a = Inl e \<Longrightarrow> harmless ok e) \<Longrightarrow> harmless ok e"
  by (auto simp: rbind_def split: sum.splits)

lemma harmless_field_varint: "field_varint oct b = Inl e \<Longrightarrow> harmless ok e"
  unfolding field_varint_def
  by (elim harmless_rbind) (auto simp: usize_try_from_def split: if_splits elim!: harmless_rbind dest: harmless_ok_or)

text \<open>The two length checks of the code are what keeps the splits from panicking.\<close>

lemma harmless_field_line: "decode_field_line oct api b = Inl e \<Longrightarrow> harmless ok e"
  unfolding decode_field_line_def
  by (auto elim!: harmless_rbind elim: harmless_ok_or harmless_field_varint split: if_splits)
    (erule harmless_ok_or harmless_field_varint)+

context octets_crate
begin

lemma harmless_known_field_lines:
  "known_field_lines oct api b h = Some (Inl e) \<Longrightarrow> harmless capacity_panic (e :: 'e err)"
proof (induction "length b" arbitrary: b h rule: less_induct)
  case less
  show ?case
  proof (cases "decode_field_line oct api b :: (bytes \<times> bytes \<times> bytes, 'e) result")
    case (Inl x)
    with less.prems show ?thesis
      by (auto simp: known_field_lines.simps [of oct api b] split: if_splits dest: harmless_field_line)
  next
    case (Inr t)
    obtain n v b' where t: "t = (n, v, b')" by (cases t)
    from decode_field_line_shorter [OF Inr [unfolded t]] less.hyps [of b'] less.prems Inr t show ?thesis
      by (auto simp: known_field_lines.simps [of oct api b] split: if_splits sum.splits dest: harmless_append)
  qed
qed

lemma robust_known_field_lines [robust_rules]:
  "robust capacity_panic (\<lambda>_. 0) (aopt (known_field_lines oct api b h) :: ('e stream_buf, 'hm, 'e) async)"
proof -
  obtain r :: "('hm, 'e) result" where r: "known_field_lines oct api b h = Some r"
    by (rule exE [OF known_field_lines_total])
  show ?thesis
    unfolding r aopt_Some by (rule robust_result, rule harmless_known_field_lines [of api b h]) (simp add: r)
qed

lemma robust_known_section [robust_rules]:
  "robust capacity_panic (\<lambda>_. 0) (decode_known_length_field_section oct api)"
  unfolding decode_known_length_field_section_def by (intro robust_rules)

lemma robust_field_line: "robust capacity_panic round_cost (indeterminate_field_line oct api h)"
  unfolding indeterminate_field_line_def
  by (rule robust_round_after [OF robust_has_more_data])
    (auto intro!: robust_last_round robust_round [OF robust_varint_usize] robust_rules
      dest: harmless_ok_or harmless_append)

lemma robust_indeterminate_section [robust_rules]:
  "robust capacity_panic (\<lambda>_. 0) (decode_indeterminate_length_field_section oct api)"
  unfolding decode_indeterminate_length_field_section_def by (rule robust_aloop [OF robust_field_line])

lemma robust_request_control_data [robust_rules]:
  "robust capacity_panic (\<lambda>_. 0) (decode_request_control_data oct api)"
  unfolding decode_request_control_data_def
  by (intro robust_rules) (auto simp: map_sum_def split: if_splits sum.splits dest: harmless_ok_or)

lemma robust_status: "robust capacity_panic (\<lambda>_. 1) (decode_status oct api)"
  unfolding decode_status_def
proof (rule robust_abind [OF robust_varint_usize])
  fix n
  show "robust capacity_panic (\<lambda>b. 1 - 1)
      (abind (alift (if n < 2 ^ 16 then Inr (of_nat n) else Inl (invalid_data TryFromIntError)))
        (\<lambda>c. alift (ok_or InvalidStatusCode (status_from_u16 api c))) :: ('e stream_buf, u16, 'e) async)"
    unfolding diff_self_eq_0 by (intro robust_rules) (auto split: if_splits dest: harmless_ok_or)
qed

lemma robust_skip_informational: "robust capacity_panic round_cost (skip_informational oct api status)"
  unfolding skip_informational_def
  by (auto intro!: robust_last_round robust_round_after [OF robust_known_section] robust_round [OF robust_status] robust_rules)

lemma robust_response_control_data [robust_rules]:
  "robust capacity_panic (\<lambda>_. 0) (decode_response_control_data oct api)"
  unfolding decode_response_control_data_def
  by (rule robust_sequence [OF robust_free [OF robust_status] robust_aloop [OF robust_skip_informational]])

lemma robust_known_length [robust_rules]: "robust ok (\<lambda>_. 0) (known_length oct)"
  unfolding known_length_def by (intro robust_rules)

lemma harmless_mk_request: "mk_request api rc fs body = Inl e \<Longrightarrow> harmless ok e"
  by (auto simp: mk_request_def elim!: harmless_rbind elim: harmless_ok_or split: option.splits)

lemma robust_decode_request: "robust capacity_panic (\<lambda>_. 0) (decode_request oct api)"
  unfolding decode_request_def decode_known_length_request_def decode_indeterminate_length_request_def
  by (intro robust_rules) (auto elim: harmless_mk_request)

lemma robust_decode_response: "robust capacity_panic (\<lambda>_. 0) (decode_response oct api)"
  unfolding decode_response_def decode_known_length_response_def decode_indeterminate_length_response_def
  by (intro robust_rules) auto

end

subsection \<open>Properties\<close>

lemma robust_returns:
  assumes "robust ok (\<lambda>_. 0) m" "quiet sb"
  shows "\<exists>r sb'. m sb = Some (r, sb') \<and> (\<forall>p. r = Inl (Panicked p) \<longrightarrow> ok p)"
  using robust_cases [OF assms] by (metis harmless_def sum.inject(1) sum.simps(4))

text \<open>
  C9: neither side of the Oblivious HTTP exchange can be made to hang or panic by what the
  other sends: on every buffer, \<^verbatim>\<open>decode_config\<close> (client) and
  \<^verbatim>\<open>decode_request_header\<close> (server) return, with a value or an error that is not
  a panic.
\<close>

theorem hpke_decoding_is_robust:
  assumes "octets_crate oct" "hpke_crate hp paired" "quiet sb"
  shows "(\<exists>r sb'. decode_config oct hp sb = Some (r, sb') \<and> (\<forall>p. r \<noteq> Inl (Panicked p)))
    \<and> (\<exists>r sb'. decode_request_header oct hp sc rq rs sb = Some (r, sb') \<and> (\<forall>p. r \<noteq> Inl (Panicked p)))"
  using robust_returns [OF octets_crate.robust_decode_config [OF assms(1)] assms(3), where ok = "\<lambda>_. False"]
    robust_returns [OF ohttp.robust_decode_request_header [OF ohttp.intro [OF assms(1,2)]] assms(3), where ok = "\<lambda>_. False"]
  by simp

theorem hpke_decoding_is_robust_witness:
  "\<exists>r sb'. decode_request_header (rfc9000_octets (2 ^ 64 - 1)) plain_hpke demo_config [] []
     (new_stream_buf [Yield (Inr [0]), Wait, Yield (Inl (Source ()))]) = Some (r, sb') \<and> (\<forall>p. r \<noteq> Inl (Panicked p))"
proof -
  have "quiet (new_stream_buf [Yield (Inr [0]), Wait, Yield (Inl (Source ()))])"
    by (simp add: quiet_def new_stream_buf_def)
  from hpke_decoding_is_robust [OF native.octets_crate_axioms plain.hpke_crate_axioms this] show ?thesis by blast
qed

text \<open>
  C10: decoding a binary HTTP message returns on every buffer, and the only panic that a
  message can provoke is that of the header map at its capacity.
\<close>

theorem bhttp_decoding_is_robust:
  assumes "octets_crate oct" "quiet sb"
  shows "(\<exists>r sb'. decode_request oct api sb = Some (r, sb') \<and> (\<forall>p. r = Inl (Panicked p) \<longrightarrow> p = ''header map at capacity''))
    \<and> (\<exists>r sb'. decode_response oct api sb = Some (r, sb') \<and> (\<forall>p. r = Inl (Panicked p) \<longrightarrow> p = ''header map at capacity''))"
  using robust_returns [OF octets_crate.robust_decode_request [OF assms(1)] assms(2), of api]
    robust_returns [OF octets_crate.robust_decode_response [OF assms(1)] assms(2), of api]
  by (simp add: capacity_panic_def)

theorem bhttp_decoding_is_robust_witness:
  "\<exists>r sb'. decode_response (rfc9000_octets (2 ^ 64 - 1)) alist_http (stream_buf_from [1, 64, 200] :: unit stream_buf)
     = Some (r, sb') \<and> (\<forall>p. r = Inl (Panicked p) \<longrightarrow> p = ''header map at capacity'')"
proof -
  have "quiet (stream_buf_from [1, 64, 200] :: unit stream_buf)" by (simp add: quiet_def stream_buf_from_def)
  from bhttp_decoding_is_robust [OF native.octets_crate_axioms this] show ?thesis by blast
qed

end
