(* ===== verification/Client_Base.thy ===== *)
theory Client_Base
  imports Http_Crate
begin

text \<open>
  What the parts of the command-line client share: reports (the errors of
  \<^verbatim>\<open>color_eyre\<close>), computations over the outside world and the helpers of
  \<^verbatim>\<open>Result\<close>. The outside world is a type variable \<open>'w\<close>; the operations of the
  platform (sockets, TLS, name resolution, files) are parameters of the definitions that
  call them. Log output is not modelled, but the redaction of what is logged is.
\<close>

text \<open>
  A report is a message with the values put into it, an error of a library, an error of
  \<^verbatim>\<open>PvcliError\<close> or a report wrapped with a message.
\<close>

datatype report =
    Eyre string "bytes list"
  | Lib string
  | IoReport io_error
  | PvcliHpkeError string
  | UnexpectedStatus u16 string "bytes list"
  | WrapErr string report

type_synonym 'a rresult = "('a, report) result"
type_synonym ('w, 'a) io = "('w, 'a, report) async"

abbreviation eyre :: "string \<Rightarrow> bytes list \<Rightarrow> 'a rresult" where
  "eyre msg args \<equiv> Inl (Source (Eyre msg args))"

text \<open>\<^verbatim>\<open>wrap_err\<close> on an error; a panic passes through it.\<close>

definition wrap_error :: "string \<Rightarrow> report err \<Rightarrow> report err" where
  "wrap_error msg e =
     (case e of
        FromIo i \<Rightarrow> Source (WrapErr msg (IoReport i))
      | Source r \<Rightarrow> Source (WrapErr msg r)
      | Panicked p \<Rightarrow> Panicked p)"

definition wrap_err :: "string \<Rightarrow> 'a rresult \<Rightarrow> 'a rresult" where
  "wrap_err msg = map_sum (wrap_error msg) id"

definition awrap_err :: "string \<Rightarrow> ('w, 'a) io \<Rightarrow> ('w, 'a) io" where
  "awrap_err msg m s = map_option (apfst (wrap_err msg)) (m s)"

text \<open>\<^verbatim>\<open>map_err(|e| eyre!(..))\<close>: the error becomes a new report.\<close>

definition replace_error :: "string \<Rightarrow> report err \<Rightarrow> report err" where
  "replace_error msg e = (case e of Panicked p \<Rightarrow> Panicked p | _ \<Rightarrow> Source (Eyre msg []))"

definition map_err_eyre :: "string \<Rightarrow> 'a rresult \<Rightarrow> 'a rresult" where
  "map_err_eyre msg = map_sum (replace_error msg) id"

definition amap_err_eyre :: "string \<Rightarrow> ('w, 'a) io \<Rightarrow> ('w, 'a) io" where
  "amap_err_eyre msg m s = map_option (apfst (map_err_eyre msg)) (m s)"

text \<open>\<^verbatim>\<open>ok_or_else(|| eyre!(..))\<close>.\<close>

definition ok_or_eyre :: "string \<Rightarrow> bytes list \<Rightarrow> 'a option \<Rightarrow> 'a rresult" where
  "ok_or_eyre msg args r = (case r of None \<Rightarrow> eyre msg args | Some a \<Rightarrow> Inr a)"

text \<open>\<^verbatim>\<open>?\<close> on a library call whose error becomes a report.\<close>

definition ok_or_lib :: "string \<Rightarrow> 'a option \<Rightarrow> 'a rresult" where
  "ok_or_lib msg r = (case r of None \<Rightarrow> Inl (Source (Lib msg)) | Some a \<Rightarrow> Inr a)"

text \<open>\<^verbatim>\<open>collect::<Result<Vec<_>, _>>\<close>: the first error, or all values.\<close>

fun collect_results :: "('e + 'a) list \<Rightarrow> 'e + 'a list" where
  "collect_results [] = Inr []"
| "collect_results (Inl e # rs) = Inl e"
| "collect_results (Inr a # rs) = map_sum id ((#) a) (collect_results rs)"

lemma collect_results_map_Inr [simp]: "collect_results (map Inr as) = Inr as"
  by (induction "as") simp_all

lemma collect_results_Inr:
  "collect_results rs = Inr as \<longleftrightarrow> rs = map Inr as"
proof
  show "collect_results rs = Inr as \<Longrightarrow> rs = map Inr as"
    by (induction rs arbitrary: "as" rule: collect_results.induct) (auto simp: map_sum_def split: sum.splits)
qed simp

lemma wrap_err_simps [simp]:
  "wrap_err msg (Inr a) = Inr a"
  "wrap_err msg r = Inr a \<longleftrightarrow> r = Inr a"
  by (cases r; auto simp: wrap_err_def)+

lemma awrap_err_Inr [simp]: "awrap_err msg m s = Some (Inr a, s') \<longleftrightarrow> m s = Some (Inr a, s')"
  by (auto simp: awrap_err_def apfst_def map_prod_def)

lemma map_err_eyre_simps [simp]:
  "map_err_eyre msg (Inr a) = Inr a"
  "map_err_eyre msg r = Inr a \<longleftrightarrow> r = Inr a"
  by (cases r; auto simp: map_err_eyre_def)+

lemma amap_err_eyre_Inr [simp]: "amap_err_eyre msg m s = Some (Inr a, s') \<longleftrightarrow> m s = Some (Inr a, s')"
  by (auto simp: amap_err_eyre_def apfst_def map_prod_def)

lemma ok_or_eyre_Inr [simp]: "ok_or_eyre msg args r = Inr a \<longleftrightarrow> r = Some a"
  by (auto simp: ok_or_eyre_def split: option.split)

lemma ok_or_lib_Inr [simp]: "ok_or_lib msg r = Inr a \<longleftrightarrow> r = Some a"
  by (auto simp: ok_or_lib_def split: option.split)

text \<open>
  The response that every client returns (\<^verbatim>\<open>HttpResponse\<close> of the client, with the
  whole body in memory).
\<close>

record 'hm http_response =
  hr_version :: version
  hr_status :: u16
  hr_headers :: 'hm
  hr_body :: bytes

text \<open>
  The boxed body of a request: \<^verbatim>\<open>Full::new\<close> or \<^verbatim>\<open>Empty::new\<close> of the crate
  \<^verbatim>\<open>http_body_util\<close>.
\<close>

datatype http_body = Full bytes | Empty

end
