(* ===== verification/Http3_Body.thy ===== *)
theory Http3_Body
  imports Client_Base Stream_Buf
begin

text \<open>
  The body of an HTTP/3 message (\<^verbatim>\<open>src/client/http3/body.rs\<close>): writing through the
  bounded channel to the QUIC driver, reading the frames that the driver delivers, and
  streaming the body of a request. The two channels belong to \<^verbatim>\<open>tokio_quiche\<close>; they
  are modelled by what they answer: a list of the outcomes that the next calls meet.
\<close>

datatype outbound_frame = BodyFrame bytes bool | PeerStreamError

text \<open>
  The outcomes of \<^verbatim>\<open>poll_reserve\<close>: a slot is granted (and whether
  \<^verbatim>\<open>send_item\<close> then succeeds), the channel is closed, or there is no room yet. After
  the last one there is never room.
\<close>

datatype slot = Granted bool | SenderClosed | NoRoom

datatype inbound_event = InWait | InBody bytes bool | InDatagram

datatype h3_write_error = WroteFin | NoStreamState | NoConnectionState

record h3_body =
  h3_stream_id :: u64
  h3_wrote_fin :: bool
  h3_read_fin :: bool
  h3_slots :: "slot list"
  h3_sent :: "outbound_frame list"
  h3_recv :: "inbound_event list option"
  h3_pending_recv :: "(bytes \<times> bool) option"

definition h3_body_new :: "u64 \<Rightarrow> slot list \<Rightarrow> inbound_event list option \<Rightarrow> bool \<Rightarrow> h3_body" where
  "h3_body_new sid slots rcv fin =
     \<lparr>h3_stream_id = sid, h3_wrote_fin = False, h3_read_fin = fin, h3_slots = slots, h3_sent = [],
      h3_recv = rcv, h3_pending_recv = None\<rparr>"

subsection \<open>Writing\<close>

text \<open>\<^verbatim>\<open>slice::chunks\<close>, for a positive size.\<close>

function chunks :: "nat \<Rightarrow> bytes \<Rightarrow> bytes list" where
  "chunks n s = (if s = [] \<or> n = 0 then [] else take n s # chunks n (drop n s))"
  by auto
termination
  by (relation "measure (length \<circ> snd)") auto

declare chunks.simps [simp del]

function write_loop ::
  "bytes \<Rightarrow> bool \<Rightarrow> bytes list \<Rightarrow> nat option \<Rightarrow> h3_body \<Rightarrow> (h3_write_error + nat) poll \<times> h3_body" where
  "write_loop bf fin cs sent b =
     (case (case cs of c # cs' \<Rightarrow> Some (c, cs') | [] \<Rightarrow> if bf = [] \<and> fin then Some ([], []) else None) of
        None \<Rightarrow> (Ready (Inr (case sent of Some n \<Rightarrow> n | None \<Rightarrow> 0)), b)
      | Some (c, cs') \<Rightarrow>
          (case h3_slots b of
             Granted ok # slots \<Rightarrow>
               let n = (case sent of Some n \<Rightarrow> n | None \<Rightarrow> 0);
                   is_last = (n + length c = length bf \<and> fin);
                   b1 = b\<lparr>h3_slots := slots\<rparr>
               in if \<not> ok then (Ready (Inl NoStreamState), b1)
                  else let b2 = b1\<lparr>h3_sent := h3_sent b @ [BodyFrame c is_last], h3_wrote_fin := h3_wrote_fin b \<or> is_last\<rparr>
                  in if is_last then (Ready (Inr n), b2)
                     else write_loop bf fin cs' (Some (n + length c)) b2
           | SenderClosed # slots \<Rightarrow> (Ready (Inl NoStreamState), b\<lparr>h3_slots := slots\<rparr>)
           | NoRoom # slots \<Rightarrow>
               ((case sent of Some n \<Rightarrow> Ready (Inr n) | None \<Rightarrow> Pending), b\<lparr>h3_slots := slots\<rparr>)
           | [] \<Rightarrow> ((case sent of Some n \<Rightarrow> Ready (Inr n) | None \<Rightarrow> Pending), b)))"
  by pat_completeness auto
termination
  by (relation "measure (\<lambda>(bf, fin, cs, sent, b). length (h3_slots b))") auto

declare write_loop.simps [simp del]

definition h3_poll_write :: "nat \<Rightarrow> bytes \<Rightarrow> bool \<Rightarrow> h3_body \<Rightarrow> (h3_write_error + nat) poll \<times> h3_body" where
  "h3_poll_write MAX_BUF_SIZE bf fin b =
     (if h3_wrote_fin b then (Ready (Inl WroteFin), b)
      else write_loop bf fin (chunks MAX_BUF_SIZE bf) None b)"

definition h3_async_poll_write :: "nat \<Rightarrow> bytes \<Rightarrow> h3_body \<Rightarrow> (h3_write_error + nat) poll \<times> h3_body" where
  "h3_async_poll_write MAX_BUF_SIZE bf b = h3_poll_write MAX_BUF_SIZE bf False b"

definition h3_poll_flush :: "h3_body \<Rightarrow> (h3_write_error + unit) poll \<times> h3_body" where
  "h3_poll_flush b = (Ready (Inr ()), b)"

text \<open>
  \<^verbatim>\<open>poll_shutdown\<close> maps every outcome of the last write to success, so that its branch
  for an error is never taken.
\<close>

definition h3_poll_shutdown :: "nat \<Rightarrow> h3_body \<Rightarrow> (h3_write_error + unit) poll \<times> h3_body" where
  "h3_poll_shutdown MAX_BUF_SIZE b =
     (if h3_wrote_fin b then (Ready (Inr ()), b)
      else (case h3_poll_write MAX_BUF_SIZE [] True b of
              (Ready _, b') \<Rightarrow> (Ready (Inr ()), b')
            | (Pending, b') \<Rightarrow> (Pending, b')))"

subsection \<open>Reading\<close>

text \<open>
  \<open>read_loop did_read cap out b\<close>: the loop of \<^verbatim>\<open>poll_read\<close> with \<open>out\<close>
  already put into the caller's buffer, which has room for \<open>cap\<close> more bytes.
\<close>

function read_loop :: "bool \<Rightarrow> nat \<Rightarrow> bytes \<Rightarrow> h3_body \<Rightarrow> (bytes rresult) poll \<times> h3_body" where
  "read_loop did_read cap out b =
     (case h3_pending_recv b of
        Some (msg, fin) \<Rightarrow>
          if cap < length msg
          then (case bytes_split_to cap msg of
                  Inl e \<Rightarrow> (Ready (Inl e), b)
                | Inr (part, rest) \<Rightarrow> (Ready (Inr (out @ part)), b\<lparr>h3_pending_recv := Some (rest, fin)\<rparr>))
          else read_loop True (cap - length msg) (out @ msg)
                 (b\<lparr>h3_pending_recv := None, h3_read_fin := h3_read_fin b \<or> fin\<rparr>)
      | None \<Rightarrow>
          if h3_read_fin b then (Ready (Inr out), b)
          else (case h3_recv b of
                  None \<Rightarrow> (Ready (Inr out), b)
                | Some [] \<Rightarrow> (Ready (Inr out), b)
                | Some (InWait # evs) \<Rightarrow>
                    ((if did_read then Ready (Inr out) else Pending), b\<lparr>h3_recv := Some evs\<rparr>)
                | Some (InDatagram # evs) \<Rightarrow> (Ready (Inl (Panicked ''unreachable'')), b\<lparr>h3_recv := Some evs\<rparr>)
                | Some (InBody msg fin # evs) \<Rightarrow>
                    read_loop did_read cap out (b\<lparr>h3_recv := Some evs, h3_pending_recv := Some (msg, fin)\<rparr>)))"
  by pat_completeness auto
termination
  by (relation "measure (\<lambda>(d, cap, out, b). 2 * (case h3_recv b of None \<Rightarrow> 0 | Some evs \<Rightarrow> length evs)
       + (if h3_pending_recv b = None then 0 else 1))") auto

declare read_loop.simps [simp del]

definition h3_poll_read :: "nat \<Rightarrow> h3_body \<Rightarrow> (bytes rresult) poll \<times> h3_body" where
  "h3_poll_read cap b = read_loop False cap [] b"

subsection \<open>Streaming the body of a request\<close>

text \<open>
  The sink of \<^verbatim>\<open>send_hyper_body\<close>: the frames it accepted and, if the driver goes away,
  how many more it accepts before it is closed.
\<close>

record frame_sink =
  fs_frames :: "outbound_frame list"
  fs_room :: "nat option"

definition sink_send :: "outbound_frame \<Rightarrow> frame_sink \<Rightarrow> frame_sink option" where
  "sink_send f s =
     (case fs_room s of
        None \<Rightarrow> Some (s\<lparr>fs_frames := fs_frames s @ [f]\<rparr>)
      | Some 0 \<Rightarrow> None
      | Some (Suc n) \<Rightarrow> Some (s\<lparr>fs_frames := fs_frames s @ [f], fs_room := Some n\<rparr>))"

function send_sub_chunks :: "nat \<Rightarrow> bytes \<Rightarrow> frame_sink \<Rightarrow> frame_sink option \<times> frame_sink" where
  "send_sub_chunks MAX_BUF_SIZE ch s =
     (if ch = [] \<or> MAX_BUF_SIZE = 0 then (Some s, s)
      else let len = min (length ch) MAX_BUF_SIZE
           in case sink_send (BodyFrame (take len ch) False) s of
                None \<Rightarrow> (None, s)
              | Some s' \<Rightarrow> send_sub_chunks MAX_BUF_SIZE (drop len ch) s')"
  by auto
termination
  by (relation "measure (\<lambda>(n, ch, s). length ch)") auto

declare send_sub_chunks.simps [simp del]

fun send_hyper_body :: "nat \<Rightarrow> 'e stream \<Rightarrow> frame_sink \<Rightarrow> unit option \<times> frame_sink" where
  "send_hyper_body MAX_BUF_SIZE [] s =
     (case sink_send (BodyFrame [] True) s of None \<Rightarrow> (None, s) | Some s' \<Rightarrow> (Some (), s'))"
| "send_hyper_body MAX_BUF_SIZE (Wait # st) s = send_hyper_body MAX_BUF_SIZE st s"
| "send_hyper_body MAX_BUF_SIZE (Yield (Inr ch) # st) s =
     (case send_sub_chunks MAX_BUF_SIZE ch s of
        (None, s') \<Rightarrow> (None, s')
      | (Some s', _) \<Rightarrow> send_hyper_body MAX_BUF_SIZE st s')"
| "send_hyper_body MAX_BUF_SIZE (Yield (Inl e) # st) s =
     (case sink_send PeerStreamError s of None \<Rightarrow> (None, s) | Some s' \<Rightarrow> (None, s'))"

subsection \<open>What is written\<close>

abbreviation data_frame :: "bytes \<Rightarrow> outbound_frame" where
  "data_frame d \<equiv> BodyFrame d False"

definition pieces :: "nat \<Rightarrow> bytes list \<Rightarrow> bool" where
  "pieces m ds \<longleftrightarrow> (\<forall>d \<in> set ds. d \<noteq> [] \<and> length d \<le> m)"

lemma pieces_simps [simp]:
  "pieces m []" "pieces m (d # ds) \<longleftrightarrow> d \<noteq> [] \<and> length d \<le> m \<and> pieces m ds"
  "pieces m (ds @ ds') \<longleftrightarrow> pieces m ds \<and> pieces m ds'"
  by (auto simp: pieces_def)

lemma concat_chunks: "0 < m \<Longrightarrow> concat (chunks m s) = s \<and> pieces m (chunks m s)"
proof (induction m s rule: chunks.induct)
  case (1 m s)
  show ?case
  proof (cases "s = []")
    case False
    with 1 have "concat (chunks m (drop m s)) = drop m s \<and> pieces m (chunks m (drop m s))" by simp
    with False 1(2) show ?thesis by (subst (1 2) chunks.simps) simp
  qed (simp add: chunks.simps)
qed

lemma chunks_Nil [simp]: "chunks m [] = []"
  by (simp add: chunks.simps)

text \<open>A write without fin sends a prefix of the data and reports its length.\<close>

definition write_outcome :: "(h3_write_error + nat) poll \<Rightarrow> nat option \<Rightarrow> bytes list \<Rightarrow> bool" where
  "write_outcome p sent ds \<longleftrightarrow>
     (case p of
        Ready (Inr n) \<Rightarrow> n = (case sent of Some k \<Rightarrow> k | None \<Rightarrow> 0) + length (concat ds)
      | Ready (Inl e) \<Rightarrow> e = NoStreamState
      | Pending \<Rightarrow> sent = None \<and> ds = [])"

lemma write_outcome_step:
  "write_outcome p (Some (n + length c)) ds \<Longrightarrow> n = (case sent of Some k \<Rightarrow> k | None \<Rightarrow> 0) \<Longrightarrow> write_outcome p sent (c # ds)"
  by (auto simp: write_outcome_def split: poll.splits sum.splits)

lemma write_loop_data:
  "write_loop bf False cs sent b = (p, b') \<Longrightarrow>
   \<exists>ds rest. h3_sent b' = h3_sent b @ map data_frame ds \<and> h3_wrote_fin b' = h3_wrote_fin b
     \<and> cs = ds @ rest \<and> write_outcome p sent ds \<and> ((\<exists>e. p = Ready (Inl e)) \<longrightarrow> rest \<noteq> [])"
proof (induction cs arbitrary: sent b)
  case Nil
  then show ?case
    by (subst (asm) write_loop.simps) (auto simp: write_outcome_def)
next
  case (Cons c cs)
  show ?case
  proof (cases "\<exists>slots. h3_slots b = Granted True # slots")
    case True
    then obtain slots where slots: "h3_slots b = Granted True # slots" by blast
    let ?n = "case sent of Some n \<Rightarrow> n | None \<Rightarrow> 0"
    let ?b2 = "b\<lparr>h3_slots := slots, h3_sent := h3_sent b @ [data_frame c], h3_wrote_fin := h3_wrote_fin b\<rparr>"
    have "write_loop bf False cs (Some (?n + length c)) ?b2 = (p, b')"
      using Cons.prems by (subst (asm) write_loop.simps) (simp add: slots Let_def)
    from Cons.IH [OF this] obtain ds rest where "h3_sent b' = h3_sent ?b2 @ map data_frame ds"
      "h3_wrote_fin b' = h3_wrote_fin ?b2" "cs = ds @ rest" "write_outcome p (Some (?n + length c)) ds"
      "(\<exists>e. p = Ready (Inl e)) \<longrightarrow> rest \<noteq> []" by blast
    then show ?thesis
      using write_outcome_step [of p ?n c ds sent] by (intro exI [of _ "c # ds"] exI [of _ rest]) simp
  next
    case False
    with Cons.prems have "h3_sent b' = h3_sent b \<and> h3_wrote_fin b' = h3_wrote_fin b \<and> write_outcome p sent []"
      by (subst (asm) write_loop.simps)
        (auto simp: Let_def write_outcome_def split: list.splits slot.splits if_splits option.splits)
    then show ?thesis by (intro exI [of _ "[]"] exI [of _ "c # cs"]) simp
  qed
qed

text \<open>The final write of a shutdown sends the fin, or nothing.\<close>

lemma shutdown_write:
  assumes "h3_poll_shutdown m b = (p, b')"
  shows "(h3_wrote_fin b' = h3_wrote_fin b \<and> h3_sent b' = h3_sent b)
    \<or> (\<not> h3_wrote_fin b \<and> h3_wrote_fin b' \<and> h3_sent b' = h3_sent b @ [BodyFrame [] True])"
  using assms unfolding h3_poll_shutdown_def h3_poll_write_def
  by (subst (asm) write_loop.simps) (auto simp: Let_def split: if_splits list.splits slot.splits)

text \<open>
  \<open>h3_writes m b ws b'\<close>: a caller of the writer took it from \<open>b\<close> to \<open>b'\<close>.
  It may write, poll again and shut down in any order and go on after an error; \<open>ws\<close> are
  its completed writes, each with the answer it got.
\<close>

inductive h3_writes ::
  "nat \<Rightarrow> h3_body \<Rightarrow> (bytes \<times> (h3_write_error + nat)) list \<Rightarrow> h3_body \<Rightarrow> bool" for m b where
  start: "h3_writes m b [] b"
| wrote: "h3_writes m b ws b1 \<Longrightarrow> h3_async_poll_write m bf b1 = (Ready r, b2)
    \<Longrightarrow> h3_writes m b (ws @ [(bf, r)]) b2"
| not_yet: "h3_writes m b ws b1 \<Longrightarrow> h3_async_poll_write m bf b1 = (Pending, b2) \<Longrightarrow> h3_writes m b ws b2"
| shut: "h3_writes m b ws b1 \<Longrightarrow> h3_poll_shutdown m b1 = (p, b2) \<Longrightarrow> h3_writes m b ws b2"

text \<open>
  What a write put on the stream, by its answer: the bytes it acknowledged; nothing after
  the end; and when the stream was lost, some of the buffer from its start, but not all.
\<close>

fun accounts :: "bytes \<times> (h3_write_error + nat) \<Rightarrow> bytes \<Rightarrow> bool" where
  "accounts (bf, Inr n) d \<longleftrightarrow> n \<le> length bf \<and> d = take n bf"
| "accounts (bf, Inl WroteFin) d \<longleftrightarrow> d = []"
| "accounts (bf, Inl NoStreamState) d \<longleftrightarrow> d = take (length d) bf \<and> length d < length bf"
| "accounts (bf, Inl NoConnectionState) d \<longleftrightarrow> False"

definition acknowledged :: "(bytes \<times> (h3_write_error + nat)) list \<Rightarrow> bytes" where
  "acknowledged ws = concat (map (\<lambda>(bf, r). case r of Inr n \<Rightarrow> take n bf | Inl _ \<Rightarrow> []) ws)"

definition written :: "nat \<Rightarrow> h3_body \<Rightarrow> (bytes \<times> (h3_write_error + nat)) list \<Rightarrow> bool" where
  "written m b ws \<longleftrightarrow> (\<exists>ds parts. pieces m ds \<and> concat ds = concat parts \<and> list_all2 accounts ws parts
     \<and> h3_sent b = map data_frame ds @ (if h3_wrote_fin b then [BodyFrame [] True] else []))"

lemma writtenI:
  "pieces m ds \<Longrightarrow> concat ds = concat parts \<Longrightarrow> list_all2 accounts ws parts \<Longrightarrow>
   h3_sent b = map data_frame ds @ (if h3_wrote_fin b then [BodyFrame [] True] else []) \<Longrightarrow> written m b ws"
  unfolding written_def by blast

lemma accounts_acknowledged:
  "list_all2 accounts ws parts \<Longrightarrow> (\<forall>w \<in> set ws. snd w \<noteq> Inl NoStreamState) \<Longrightarrow> concat parts = acknowledged ws"
proof (induction rule: list_all2_induct)
  case (Cons w ws d ds)
  then show ?case by (cases "(w, d)" rule: accounts.cases) (simp_all add: acknowledged_def)
qed (simp add: acknowledged_def)

text \<open>One write adds what its answer accounts for, in frames, unless the end was written.\<close>

lemma write_adds:
  assumes "0 < m" "h3_async_poll_write m bf b = (p, b')"
  shows "\<exists>ds. h3_sent b' = h3_sent b @ map data_frame ds \<and> h3_wrote_fin b' = h3_wrote_fin b
    \<and> pieces m ds \<and> (h3_wrote_fin b \<longrightarrow> ds = [])
    \<and> (case p of Pending \<Rightarrow> ds = [] | Ready r \<Rightarrow> accounts (bf, r) (concat ds))"
proof (cases "h3_wrote_fin b")
  case True
  with assms show ?thesis
    by (auto simp: h3_async_poll_write_def h3_poll_write_def intro!: exI [of _ "[]"])
next
  case False
  then have loop: "write_loop bf False (chunks m bf) None b = (p, b')"
    using assms(2) by (simp add: h3_async_poll_write_def h3_poll_write_def)
  from write_loop_data [OF loop] obtain ds rest where
    ds: "h3_sent b' = h3_sent b @ map data_frame ds" "h3_wrote_fin b' = h3_wrote_fin b"
    "chunks m bf = ds @ rest" "write_outcome p None ds" "(\<exists>e. p = Ready (Inl e)) \<longrightarrow> rest \<noteq> []" by blast
  then have bf: "bf = concat ds @ concat rest" "pieces m ds" "pieces m rest"
    using concat_chunks [OF assms(1), of bf] by (metis concat_append, simp_all)
  moreover have "concat rest \<noteq> []" if "rest \<noteq> []" using that bf(3) by (cases rest) auto
  ultimately have "case p of Pending \<Rightarrow> ds = [] | Ready r \<Rightarrow> accounts (bf, r) (concat ds)"
    using ds(4,5) by (auto simp: write_outcome_def split: poll.splits sum.splits)
  with ds bf(2) False show ?thesis by blast
qed

lemma written_write:
  assumes "written m b ws" "0 < m" "h3_async_poll_write m bf b = (p, b')"
  shows "case p of Pending \<Rightarrow> written m b' ws | Ready r \<Rightarrow> written m b' (ws @ [(bf, r)])"
proof -
  from assms(1) obtain ds0 parts where old: "pieces m ds0" "concat ds0 = concat parts"
    "list_all2 accounts ws parts"
    "h3_sent b = map data_frame ds0 @ (if h3_wrote_fin b then [BodyFrame [] True] else [])"
    by (auto simp: written_def)
  from write_adds [OF assms(2,3)] obtain ds where
    new: "h3_sent b' = h3_sent b @ map data_frame ds" "h3_wrote_fin b' = h3_wrote_fin b" "pieces m ds"
    "h3_wrote_fin b \<longrightarrow> ds = []" "case p of Pending \<Rightarrow> ds = [] | Ready r \<Rightarrow> accounts (bf, r) (concat ds)" by blast
  show ?thesis
  proof (cases p)
    case Pending
    with old new show ?thesis by (auto intro: writtenI [of m ds0 parts])
  next
    case (Ready r)
    with new(5) have "list_all2 accounts (ws @ [(bf, r)]) (parts @ [concat ds])"
      using old(3) by (simp add: list_all2_appendI)
    then have "written m b' (ws @ [(bf, r)])"
      by (rule writtenI [of m "ds0 @ ds", rotated 2]) (use old new in auto)
    with Ready show ?thesis by simp
  qed
qed

lemma written_shutdown:
  assumes "written m b ws" "h3_poll_shutdown m b = (p, b')"
  shows "written m b' ws"
proof -
  from assms(1) obtain ds parts where old: "pieces m ds" "concat ds = concat parts" "list_all2 accounts ws parts"
    "h3_sent b = map data_frame ds @ (if h3_wrote_fin b then [BodyFrame [] True] else [])"
    by (auto simp: written_def)
  with shutdown_write [OF assms(2)] show ?thesis by (intro writtenI [OF old(1-3)]) auto
qed

text \<open>
  C29: what is on an HTTP/3 stream is accounted for by the answers the writer gave. Whatever
  the channel answers and in whatever order the caller writes, polls and shuts down, errors
  included, the data frames sent are, write by write, the bytes that the write acknowledged,
  nothing for a write after the end, and a proper prefix of the buffer for a write that
  failed because the stream was lost (the code sends chunk after chunk and drops the count
  when a later one fails); cut into non-empty frames of at most
  \<^verbatim>\<open>MAX_BUF_SIZE\<close> bytes, followed by exactly one fin once the stream is shut
  down, and nothing after it. Without such a failure they are exactly the acknowledged bytes.
\<close>

theorem h3_frames_written:
  assumes "0 < m" "h3_writes m (h3_body_new sid slots rcv rf) ws b"
  shows "\<exists>ds parts. h3_sent b = map data_frame ds @ (if h3_wrote_fin b then [BodyFrame [] True] else [])
    \<and> (\<forall>d \<in> set ds. d \<noteq> [] \<and> length d \<le> m)
    \<and> concat ds = concat parts \<and> list_all2 accounts ws parts
    \<and> ((\<forall>w \<in> set ws. snd w \<noteq> Inl NoStreamState) \<longrightarrow> concat ds = acknowledged ws)"
proof -
  from assms(2) have "written m b ws"
  proof (induction rule: h3_writes.induct)
    case start
    show ?case by (simp add: written_def h3_body_new_def)
  next
    case (wrote ws b1 bf r b2)
    then show ?case using written_write [OF _ assms(1)] by fastforce
  next
    case (not_yet ws b1 bf b2)
    then show ?case using written_write [OF _ assms(1)] by fastforce
  next
    case (shut ws b1 p b2)
    then show ?case by (blast intro: written_shutdown)
  qed
  then show ?thesis
    unfolding written_def pieces_def by (metis accounts_acknowledged)
qed

definition demo_written :: h3_body where
  "demo_written = (h3_body_new 0 [] None False)
     \<lparr>h3_wrote_fin := True, h3_sent := [BodyFrame [1, 2] False, BodyFrame [3, 4] False, BodyFrame [] True]\<rparr>"

text \<open>
  A run with a failed write: of \<open>[3, 4, 5]\<close> the first two bytes are sent before the
  channel refuses the third.
\<close>

lemma h3_failed_write_sends:
  "h3_async_poll_write 2 [3, 4, 5]
     (h3_body_new 0 [Granted True, SenderClosed, Granted True] None False\<lparr>h3_sent := [BodyFrame [1, 2] False]\<rparr>)
   = (Ready (Inl NoStreamState),
      h3_body_new 0 [Granted True] None False\<lparr>h3_sent := [BodyFrame [1, 2] False, BodyFrame [3, 4] False]\<rparr>)"
proof -
  have "chunks 2 [3, 4, 5] = [[3, 4], [5 :: byte]]" by (simp add: chunks.simps)
  then show ?thesis
    by (simp add: h3_async_poll_write_def h3_poll_write_def h3_body_new_def, (subst write_loop.simps, simp)+)
qed

theorem h3_frames_written_witness:
  "\<exists>ds parts. h3_sent demo_written = map data_frame ds @ [BodyFrame [] True]
     \<and> (\<forall>d \<in> set ds. d \<noteq> [] \<and> length d \<le> 2) \<and> concat ds = concat parts
     \<and> list_all2 accounts [([1, 2], Inr 2), ([3, 4, 5], Inl NoStreamState)] parts"
proof -
  let ?s = "[Granted True, NoRoom, Granted True, SenderClosed, Granted True]"
  let ?b0 = "h3_body_new 0 ?s None False"
  let ?b1 = "h3_body_new 0 (drop 1 ?s) None False\<lparr>h3_sent := [BodyFrame [1, 2] False]\<rparr>"
  let ?b2 = "h3_body_new 0 (drop 2 ?s) None False\<lparr>h3_sent := [BodyFrame [1, 2] False]\<rparr>"
  let ?b3 = "h3_body_new 0 [Granted True] None False\<lparr>h3_sent := [BodyFrame [1, 2] False, BodyFrame [3, 4] False]\<rparr>"
  note defs = h3_async_poll_write_def h3_poll_write_def h3_poll_shutdown_def h3_body_new_def
  have ch: "chunks 2 [1, 2] = [[1, 2 :: byte]]" "chunks 2 [3, 4, 5] = [[3, 4], [5 :: byte]]"
    by (simp_all add: chunks.simps)
  have w1: "h3_async_poll_write 2 [1, 2] ?b0 = (Ready (Inr 2), ?b1)"
    by (simp add: defs ch, (subst write_loop.simps, simp)+)
  have w2: "h3_async_poll_write 2 [3, 4, 5] ?b1 = (Pending, ?b2)"
    by (simp add: defs ch, (subst write_loop.simps, simp)+)
  have w3: "h3_async_poll_write 2 [3, 4, 5] ?b2 = (Ready (Inl NoStreamState), ?b3)"
    using h3_failed_write_sends by simp
  have w4: "h3_poll_shutdown 2 ?b3 = (Ready (Inr ()), demo_written)"
    by (simp add: defs demo_written_def, (subst write_loop.simps, simp)+)
  note r1 = h3_writes.not_yet [OF h3_writes.wrote [OF h3_writes.start w1] w2]
  note r2 = h3_writes.shut [OF h3_writes.wrote [OF r1 w3] w4]
  show ?thesis
    using h3_frames_written [OF _ r2] unfolding demo_written_def
    by (simp del: list_all2_Cons1)
qed

subsection \<open>What is read\<close>

text \<open>The content of the frames up to the fin, or up to the end of the channel.\<close>

fun frames_content :: "inbound_event list \<Rightarrow> bytes" where
  "frames_content [] = []"
| "frames_content (InWait # evs) = frames_content evs"
| "frames_content (InBody d fin # evs) = d @ (if fin then [] else frames_content evs)"
| "frames_content (InDatagram # evs) = []"

text \<open>The driver never delivers a datagram on a body or an empty frame that is not the last.\<close>

definition wf_inbound :: "inbound_event list \<Rightarrow> bool" where
  "wf_inbound evs \<longleftrightarrow> InDatagram \<notin> set evs \<and> InBody [] False \<notin> set evs"

lemma wf_inbound_simps [simp]:
  "wf_inbound []" "wf_inbound (InWait # evs) = wf_inbound evs" "\<not> wf_inbound (InDatagram # evs)"
  "wf_inbound (InBody d fin # evs) \<longleftrightarrow> (d = [] \<longrightarrow> fin) \<and> wf_inbound evs"
  by (auto simp: wf_inbound_def)

definition inbound :: "h3_body \<Rightarrow> inbound_event list" where
  "inbound b = (case h3_recv b of None \<Rightarrow> [] | Some evs \<Rightarrow> evs)"

definition to_read :: "h3_body \<Rightarrow> bytes" where
  "to_read b =
     (case h3_pending_recv b of
        Some (msg, fin) \<Rightarrow> msg @ (if fin then [] else frames_content (inbound b))
      | None \<Rightarrow> if h3_read_fin b then [] else frames_content (inbound b))"

definition wf_reader :: "h3_body \<Rightarrow> bool" where
  "wf_reader b \<longleftrightarrow> wf_inbound (inbound b)
     \<and> (case h3_pending_recv b of None \<Rightarrow> True | Some (msg, fin) \<Rightarrow> \<not> h3_read_fin b \<and> (msg = [] \<longrightarrow> fin))"

definition read_fuel :: "h3_body \<Rightarrow> nat" where
  "read_fuel b = length (inbound b) + length (to_read b)"

text \<open>
  One poll: it delivers a prefix of what is left; it is not ready only if it consumed the
  wait; with room, it delivers nothing only at the end.
\<close>

definition read_step :: "nat \<Rightarrow> bytes \<Rightarrow> bool \<Rightarrow> (bytes rresult) poll \<Rightarrow> h3_body \<Rightarrow> h3_body \<Rightarrow> bool" where
  "read_step cap out did_read p b b' \<longleftrightarrow> wf_reader b' \<and> length (inbound b') \<le> length (inbound b)
     \<and> (case p of
          Ready (Inr out') \<Rightarrow> \<exists>x. out' = out @ x \<and> to_read b = x @ to_read b'
             \<and> (x = [] \<longrightarrow> did_read \<or> cap = 0 \<or> to_read b = [])
        | Ready (Inl e) \<Rightarrow> False
        | Pending \<Rightarrow> \<not> did_read \<and> to_read b = to_read b' \<and> length (inbound b') < length (inbound b))"

lemma read_step_frame:
  assumes "read_step (cap - length msg) (out @ msg) True p b1 b'"
    and "to_read b = msg @ to_read b1" "inbound b1 = inbound b" "msg = [] \<longrightarrow> to_read b = []"
  shows "read_step cap out did_read p b b'"
proof (cases p)
  case (Ready r)
  then obtain x where x: "r = Inr (out @ msg @ x)" "to_read b1 = x @ to_read b'"
    using assms(1) by (cases r) (auto simp: read_step_def)
  then show ?thesis
    using assms Ready by (auto simp: read_step_def intro!: exI [of _ "msg @ x"])
qed (use assms in \<open>auto simp: read_step_def\<close>)

lemma read_loop_step:
  "read_loop did_read cap out b = (p, b') \<Longrightarrow> wf_reader b \<Longrightarrow> read_step cap out did_read p b b'"
proof (induction did_read cap out b arbitrary: p b' rule: read_loop.induct)
  case (1 did_read cap out b)
  note unfolded = "1.prems"(1) [unfolded read_loop.simps [of did_read cap out b]]
  show ?case
  proof (cases "h3_pending_recv b")
    case (Some m)
    obtain msg fin where m: "m = (msg, fin)" by (cases m)
    show ?thesis
    proof (cases "cap < length msg")
      case True
      then show ?thesis
        using unfolded "1.prems"(2) Some m
        by (auto simp: read_step_def wf_reader_def to_read_def inbound_def)
    next
      case False
      let ?b1 = "b\<lparr>h3_pending_recv := None, h3_read_fin := h3_read_fin b \<or> fin\<rparr>"
      have "read_loop True (cap - length msg) (out @ msg) ?b1 = (p, b')"
        using unfolded Some m False by simp
      moreover have "wf_reader ?b1" using "1.prems"(2) Some m by (simp add: wf_reader_def inbound_def)
      ultimately have "read_step (cap - length msg) (out @ msg) True p ?b1 b'"
        using "1.IH"(2) [OF Some m [symmetric] False] by blast
      then show ?thesis
        by (rule read_step_frame)
          (use "1.prems"(2) Some m in \<open>auto simp: to_read_def inbound_def wf_reader_def\<close>)
    qed
  next
    case None
    show ?thesis
    proof (cases "\<not> h3_read_fin b \<and> (\<exists>msg fin evs. h3_recv b = Some (InBody msg fin # evs))")
      case True
      then obtain msg fin evs where e: "\<not> h3_read_fin b" "h3_recv b = Some (InBody msg fin # evs)" by blast
      let ?b1 = "b\<lparr>h3_recv := Some evs, h3_pending_recv := Some (msg, fin)\<rparr>"
      have "read_loop did_read cap out ?b1 = (p, b')" using unfolded None e by simp
      moreover have "wf_reader ?b1" using "1.prems"(2) e by (auto simp: wf_reader_def inbound_def)
      ultimately have "read_step cap out did_read p ?b1 b'"
        using "1.IH"(1) [OF None e(1,2) refl refl] by blast
      moreover have "to_read ?b1 = to_read b" "length (inbound ?b1) < length (inbound b)"
        using None e by (simp_all add: to_read_def inbound_def)
      ultimately show ?thesis by (auto simp: read_step_def split: poll.splits sum.splits)
    next
      case False
      then show ?thesis
        using unfolded "1.prems"(2) None
        by (auto simp: read_step_def wf_reader_def to_read_def inbound_def
            split: if_splits option.splits list.splits inbound_event.splits)
    qed
  qed
qed

text \<open>
  Reading to the end with buffers of the given sizes, as \<^verbatim>\<open>read_to_end\<close> does: until a
  read returns no bytes. The flag tells that the end was reached.
\<close>

fun h3_read_to_end :: "nat list \<Rightarrow> h3_body \<Rightarrow> bytes rresult \<times> bool" where
  "h3_read_to_end [] b = (Inr [], False)"
| "h3_read_to_end (cap # caps) b =
     (case h3_poll_read cap b of
        (Pending, b') \<Rightarrow> h3_read_to_end caps b'
      | (Ready (Inl e), b') \<Rightarrow> (Inl e, True)
      | (Ready (Inr d), b') \<Rightarrow>
          if d = [] then (Inr [], True)
          else (case h3_read_to_end caps b' of (r, done) \<Rightarrow> (map_sum id (append d) r, done)))"

lemma h3_read_to_end_reads:
  "wf_reader b \<Longrightarrow> list_all (\<lambda>c. 0 < c) caps \<Longrightarrow> read_fuel b < length caps
   \<Longrightarrow> h3_read_to_end caps b = (Inr (to_read b), True)"
proof (induction caps arbitrary: b)
  case (Cons cap caps)
  obtain p b' where poll: "h3_poll_read cap b = (p, b')" by force
  have step: "read_step cap [] False p b b'"
    using read_loop_step [of False cap "[]" b p b'] poll Cons.prems(1) by (simp add: h3_poll_read_def)
  then have wf: "wf_reader b'" by (simp add: read_step_def)
  show ?case
  proof (cases p)
    case Pending
    with step have eq: "to_read b' = to_read b" "read_fuel b' < read_fuel b"
      by (auto simp: read_step_def read_fuel_def)
    with Cons.IH [OF wf] Cons.prems show ?thesis by (simp add: poll Pending)
  next
    case (Ready r)
    with step obtain x where x: "r = Inr x" "to_read b = x @ to_read b'" "length (inbound b') \<le> length (inbound b)"
      "x = [] \<longrightarrow> cap = 0 \<or> to_read b = []" by (cases r) (auto simp: read_step_def)
    show ?thesis
    proof (cases "x = []")
      case True
      with x Cons.prems show ?thesis by (simp add: poll Ready)
    next
      case False
      then have "0 < length x" by simp
      with x have "read_fuel b' < read_fuel b" unfolding read_fuel_def x(2) length_append by linarith
      with Cons.IH [OF wf] Cons.prems have "h3_read_to_end caps b' = (Inr (to_read b'), True)" by simp
      with False x show ?thesis by (simp add: poll Ready)
    qed
  qed
qed simp

text \<open>
  C30: a body is read as it was delivered: whatever the sizes of the frames and of the
  caller's buffers and wherever the driver makes the reader wait, reading to the end
  terminates and returns exactly the content of the frames up to the fin.
\<close>

theorem h3_body_is_read:
  assumes "wf_inbound evs" "list_all (\<lambda>c. 0 < c) caps" "length evs + length (frames_content evs) < length caps"
  shows "h3_read_to_end caps (h3_body_new sid slots (Some evs) False) = (Inr (frames_content evs), True)"
  using h3_read_to_end_reads [of "h3_body_new sid slots (Some evs) False" caps] assms
  by (simp add: wf_reader_def read_fuel_def to_read_def inbound_def h3_body_new_def)

theorem h3_body_is_read_witness:
  "h3_read_to_end (replicate 10 2) (h3_body_new 0 [] (Some [InBody [1, 2, 3] False, InWait, InBody [4] False, InBody [] True]) False)
     = (Inr [1, 2, 3, 4], True)"
  using h3_body_is_read [of "[InBody [1, 2, 3] False, InWait, InBody [4] False, InBody [] True]" "replicate 10 2" 0 "[]"]
  by (simp add: list_all_iff)

text \<open>
  The end of the channel is not told from the fin: a body whose stream is closed or reset
  after some frames is read, without an error, as if it were complete.
\<close>

lemma h3_truncation_undetected:
  assumes "wf_inbound (map (\<lambda>d. InBody d False) ds)" "list_all (\<lambda>c. 0 < c) caps"
    and "length ds + length (concat ds) < length caps"
  shows "h3_read_to_end caps (h3_body_new sid slots (Some (map (\<lambda>d. InBody d False) ds)) False) = (Inr (concat ds), True)"
proof -
  have "frames_content (map (\<lambda>d. InBody d False) ds) = concat ds" by (induction ds) simp_all
  with h3_read_to_end_reads [of "h3_body_new sid slots (Some (map (\<lambda>d. InBody d False) ds)) False" caps] assms
  show ?thesis by (simp add: wf_reader_def read_fuel_def to_read_def inbound_def h3_body_new_def)
qed

lemma h3_truncation_undetected_witness:
  "h3_read_to_end (replicate 5 2) (h3_body_new 0 [] (Some [InBody [1, 2, 3] False]) False) = (Inr [1, 2, 3], True)"
  using h3_truncation_undetected [of "[[1, 2, 3]]" "replicate 5 2" 0 "[]"] by (simp add: list_all_iff)

text \<open>An empty frame before the fin, followed by a wait, is taken for the end.\<close>

lemma empty_frame_ends_body:
  "h3_read_to_end [c] (h3_body_new sid slots (Some [InBody [] False, InWait, InBody d True]) False) = (Inr [], True)"
  by (simp add: h3_poll_read_def h3_body_new_def) (subst read_loop.simps, simp)+

subsection \<open>What is streamed\<close>

abbreviation open_sink :: "outbound_frame list \<Rightarrow> frame_sink" where
  "open_sink fs \<equiv> \<lparr>fs_frames = fs, fs_room = None\<rparr>"

lemma send_sub_chunks_open:
  "0 < m \<Longrightarrow> \<exists>ds. send_sub_chunks m ch (open_sink fs) = (Some (open_sink (fs @ map data_frame ds)), open_sink (fs @ map data_frame ds))
     \<and> concat ds = ch \<and> pieces m ds"
proof (induction m ch "open_sink fs" arbitrary: fs rule: send_sub_chunks.induct)
  case (1 m ch)
  show ?case
  proof (cases "ch = []")
    case True
    then show ?thesis by (intro exI [of _ "[]"]) (simp add: send_sub_chunks.simps)
  next
    case False
    let ?c = "take (min (length ch) m) ch" and ?rest = "drop (min (length ch) m) ch"
    have snd: "sink_send (data_frame ?c) (open_sink fs) = Some (open_sink (fs @ [data_frame ?c]))"
      by (simp add: sink_send_def)
    have c: "\<not> (ch = [] \<or> m = 0)" using False "1.prems" by simp
    from "1.hyps" [OF c refl snd "1.prems"] obtain ds where
      ds: "send_sub_chunks m ?rest (open_sink (fs @ [data_frame ?c]))
         = (Some (open_sink ((fs @ [data_frame ?c]) @ map data_frame ds)), open_sink ((fs @ [data_frame ?c]) @ map data_frame ds))"
      "concat ds = ?rest" "pieces m ds" by blast
    have "send_sub_chunks m ch (open_sink fs) = send_sub_chunks m ?rest (open_sink (fs @ [data_frame ?c]))"
      using c snd by (subst send_sub_chunks.simps) (simp add: Let_def)
    with ds c show ?thesis by (intro exI [of _ "?c # ds"]) simp
  qed
qed

lemma send_hyper_body_open:
  assumes "0 < m"
  shows "\<exists>ds. send_hyper_body m st (open_sink fs)
      = (if stream_tail st = None then Some () else None,
         open_sink (fs @ map data_frame ds @ [if stream_tail st = None then BodyFrame [] True else PeerStreamError]))
    \<and> concat ds = stream_bytes st \<and> pieces m ds"
proof (induction st arbitrary: fs rule: stream_bytes.induct)
  case (4 d st)
  obtain ds where d: "send_sub_chunks m d (open_sink fs) = (Some (open_sink (fs @ map data_frame ds)), open_sink (fs @ map data_frame ds))"
    "concat ds = d" "pieces m ds" using send_sub_chunks_open [OF assms] by blast
  from 4 [of "fs @ map data_frame ds"] obtain ds' where "send_hyper_body m st (open_sink (fs @ map data_frame ds))
      = (if stream_tail st = None then Some () else None, open_sink ((fs @ map data_frame ds) @ map data_frame ds'
           @ [if stream_tail st = None then BodyFrame [] True else PeerStreamError]))"
    "concat ds' = stream_bytes st" "pieces m ds'" by blast
  with d show ?case by (intro exI [of _ "ds @ ds'"]) simp
qed (use assms in \<open>auto simp: sink_send_def\<close>)

text \<open>
  C31: the body of an HTTP/3 request is streamed completely: while the driver takes the
  frames, they are the bytes of the body in frames of at most \<^verbatim>\<open>MAX_BUF_SIZE\<close> bytes,
  and then one fin; if the body fails, the frames so far are followed by the error frame and
  never by a fin, so that a failed upload is not taken for a complete one.
\<close>

theorem request_body_streamed:
  assumes "0 < m"
  shows "\<exists>ds. send_hyper_body m st \<lparr>fs_frames = [], fs_room = None\<rparr>
      = (if stream_tail st = None then Some () else None,
         \<lparr>fs_frames = map data_frame ds @ [if stream_tail st = None then BodyFrame [] True else PeerStreamError], fs_room = None\<rparr>)
    \<and> concat ds = stream_bytes st \<and> (\<forall>d \<in> set ds. d \<noteq> [] \<and> length d \<le> m)"
  using send_hyper_body_open [OF assms, of st "[]"] by (simp add: pieces_def)

theorem request_body_streamed_witness:
  "\<exists>ds. send_hyper_body 2 [Yield (Inr [1, 2, 3]), Wait, Yield (Inl (Source ()))] \<lparr>fs_frames = [], fs_room = None\<rparr>
      = (None, \<lparr>fs_frames = map data_frame ds @ [PeerStreamError], fs_room = None\<rparr>) \<and> concat ds = [1, 2, 3]"
  using request_body_streamed [of 2 "[Yield (Inr [1, 2, 3]), Wait, Yield (Inl (Source ()))]"] by simp blast

end
