(* ===== verification/Cli_Args.thy ===== *)
theory Cli_Args
  imports Client_Base
begin

text \<open>
  The command line of \<^verbatim>\<open>pvcli\<close> (\<^verbatim>\<open>src/args.rs\<close>): the arguments, their defaults
  and their validation, the arguments of one request and the parser of
  \<^verbatim>\<open>--resolve\<close>. The parser generated by \<^verbatim>\<open>clap\<close> is not modelled; the
  constraints between arguments that the attributes declare are \<open>clap_accepts\<close>.
\<close>

datatype http_method = Get | Post | Put | Delete | Patch | Head

primrec method_as_str :: "http_method \<Rightarrow> bytes" where
  "method_as_str Get = ascii ''GET''"
| "method_as_str Post = ascii ''POST''"
| "method_as_str Put = ascii ''PUT''"
| "method_as_str Delete = ascii ''DELETE''"
| "method_as_str Patch = ascii ''PATCH''"
| "method_as_str Head = ascii ''HEAD''"

record tls_config =
  tls_cacert :: "bytes option"
  tls_client :: "bytes option"
  tls_key :: "bytes option"

record resolve_override =
  ro_host :: bytes
  ro_port :: u16
  ro_addresses :: "socket_addr list"

record args =
  arg_url :: bytes
  arg_verbosity :: byte
  arg_silent :: bool
  arg_method :: "http_method option"
  arg_header :: "bytes list"
  arg_data :: "bytes option"
  arg_cacert :: "bytes option"
  arg_client :: "bytes option"
  arg_key :: "bytes option"
  arg_http3 :: bool
  arg_resolve :: "resolve_override list"
  arg_proxy :: "bytes option"
  arg_ohttp :: bool
  arg_proxy_http3 :: bool
  arg_gateway_path :: bytes
  arg_config_path :: bytes
  arg_proxy_header :: "bytes list"
  arg_proxy_cacert :: "bytes option"
  arg_proxy_client :: "bytes option"
  arg_proxy_key :: "bytes option"
  arg_first_hop :: "bytes option"
  arg_first_hop_header :: "bytes list"
  arg_first_hop_cacert :: "bytes option"
  arg_first_hop_client :: "bytes option"
  arg_first_hop_key :: "bytes option"
  arg_pat_issuer :: "bytes option"
  arg_pat_issuer_directory :: bytes

definition default_args :: args where
  "default_args =
     \<lparr>arg_url = [], arg_verbosity = 0, arg_silent = False, arg_method = None, arg_header = [],
      arg_data = None, arg_cacert = None, arg_client = None, arg_key = None, arg_http3 = False,
      arg_resolve = [], arg_proxy = None, arg_ohttp = False, arg_proxy_http3 = False,
      arg_gateway_path = ascii ''gateway'', arg_config_path = ascii ''ohttp-config'',
      arg_proxy_header = [], arg_proxy_cacert = None, arg_proxy_client = None, arg_proxy_key = None,
      arg_first_hop = None, arg_first_hop_header = [], arg_first_hop_cacert = None,
      arg_first_hop_client = None, arg_first_hop_key = None, arg_pat_issuer = None,
      arg_pat_issuer_directory = ascii ''/.well-known/private-token-issuer-directory''\<rparr>"

text \<open>The attributes \<^verbatim>\<open>conflicts_with\<close> and \<^verbatim>\<open>requires\<close> of the arguments without a default.\<close>

definition clap_accepts :: "args \<Rightarrow> bool" where
  "clap_accepts a \<longleftrightarrow>
     (arg_proxy a \<noteq> None \<longrightarrow> arg_cacert a = None \<and> arg_client a = None \<and> arg_key a = None)
     \<and> (arg_client a = None \<longleftrightarrow> arg_key a = None)
     \<and> \<not> (arg_http3 a \<and> arg_ohttp a)
     \<and> (arg_proxy a = None \<longrightarrow>
          \<not> arg_ohttp a \<and> \<not> arg_proxy_http3 a \<and> arg_proxy_header a = [] \<and> arg_proxy_cacert a = None
          \<and> arg_proxy_client a = None \<and> arg_proxy_key a = None \<and> arg_first_hop a = None \<and> arg_pat_issuer a = None)
     \<and> (arg_proxy_client a = None \<longleftrightarrow> arg_proxy_key a = None)
     \<and> (arg_first_hop a = None \<longrightarrow>
          arg_first_hop_header a = [] \<and> arg_first_hop_cacert a = None
          \<and> arg_first_hop_client a = None \<and> arg_first_hop_key a = None)
     \<and> (arg_first_hop_client a = None \<longleftrightarrow> arg_first_hop_key a = None)"

subsection \<open>TLS configurations\<close>

definition tls_is_empty :: "tls_config \<Rightarrow> bool" where
  "tls_is_empty c \<longleftrightarrow> tls_cacert c = None \<and> tls_client c = None \<and> tls_key c = None"

definition default_tls_config :: tls_config where
  "default_tls_config = \<lparr>tls_cacert = None, tls_client = None, tls_key = None\<rparr>"

definition proxy_tls_config :: "args \<Rightarrow> tls_config" where
  "proxy_tls_config a =
     \<lparr>tls_cacert = arg_proxy_cacert a, tls_client = arg_proxy_client a, tls_key = arg_proxy_key a\<rparr>"

definition first_hop_tls_config :: "args \<Rightarrow> tls_config" where
  "first_hop_tls_config a =
     \<lparr>tls_cacert = arg_first_hop_cacert a, tls_client = arg_first_hop_client a, tls_key = arg_first_hop_key a\<rparr>"

definition target_tls_config :: "args \<Rightarrow> tls_config" where
  "target_tls_config a = \<lparr>tls_cacert = arg_cacert a, tls_client = arg_client a, tls_key = arg_key a\<rparr>"

subsection \<open>Validation\<close>

definition args_contains :: "bytes list \<Rightarrow> bytes \<Rightarrow> bool" where
  "args_contains hs k \<longleftrightarrow>
     list_ex (\<lambda>h. contains (to_ascii_lowercase k) (to_ascii_lowercase h)) hs"

text \<open>The name and the version of the package are those of \<^verbatim>\<open>Cargo.toml\<close>.\<close>

definition user_agent_header :: bytes where
  "user_agent_header = ascii ''User-Agent:pvcli/0.1.0''"

definition default_content_type :: bytes where
  "default_content_type = ascii ''Content-Type:application/x-www-form-urlencoded''"

definition setup_args :: "args \<Rightarrow> args" where
  "setup_args a =
     (let a1 = (if args_contains (arg_header a) (ascii ''user-agent'') then a
                else a\<lparr>arg_header := arg_header a @ [user_agent_header]\<rparr>);
          m = (case arg_method a1 of Some m \<Rightarrow> m | None \<Rightarrow> if arg_data a1 = None then Get else Post);
          a2 = a1\<lparr>arg_method := Some m\<rparr>
      in if (m = Post \<or> m = Put \<or> m = Patch) \<and> \<not> args_contains (arg_header a2) (ascii ''content-type'')
         then a2\<lparr>arg_header := arg_header a2 @ [default_content_type]\<rparr> else a2)"

definition validate_basic :: "args \<Rightarrow> (string \<times> bool) list" where
  "validate_basic a =
     [(''URL is empty, must be provided'', arg_url a = []),
      (''data argument (-d, --data) provided for GET or HEAD request'',
       (arg_method a = Some Get \<or> arg_method a = Some Head) \<and> arg_data a \<noteq> None),
      (''no data argument (-d, --data) provided for POST, PUT, or PATCH request'',
       (arg_method a = Some Post \<or> arg_method a = Some Put \<or> arg_method a = Some Patch) \<and> arg_data a = None)]"

definition validate_proxy :: "args \<Rightarrow> (string \<times> bool) list" where
  "validate_proxy a =
     [(''--proxy paired with --http3 requires --proxy-http3 as we need the outer protocol to support http3 if the inner request is http3'',
       arg_http3 a \<and> arg_proxy a \<noteq> None \<and> \<not> arg_proxy_http3 a)]"

text \<open>\<^verbatim>\<open>validate\<close> changes the arguments it is called on.\<close>

definition validate :: "args \<Rightarrow> unit rresult \<times> args" where
  "validate a =
     (let a1 = setup_args a; active = filter snd (validate_basic a1 @ validate_proxy a1)
      in if active \<noteq> [] then (eyre ''Argument validation failed for CLI argument input'' [], a1)
         else (Inr (), a1))"

subsection \<open>The arguments of a request\<close>

record request_args =
  ra_method :: http_method
  ra_url :: bytes
  ra_headers :: "bytes list"
  ra_body :: "bytes option"
  ra_proxy_connect :: "bytes option"
  ra_proxy_tls_config :: "tls_config option"
  ra_proxy_header :: "bytes list"

definition default_request_args :: request_args where
  "default_request_args =
     \<lparr>ra_method = Get, ra_url = [], ra_headers = [], ra_body = None, ra_proxy_connect = None,
      ra_proxy_tls_config = None, ra_proxy_header = []\<rparr>"

definition request_args_try_from :: "args \<Rightarrow> request_args rresult" where
  "request_args_try_from a =
     (let is_connect = (arg_proxy a \<noteq> None \<and> \<not> arg_ohttp a)
      in rbind (ok_or_eyre ''No method provided for RequestArgs conversion'' [] (arg_method a)) (\<lambda>m.
         Inr \<lparr>ra_method = m, ra_url = arg_url a, ra_headers = arg_header a, ra_body = arg_data a,
              ra_proxy_connect = (if is_connect then arg_proxy a else None),
              ra_proxy_tls_config = (if is_connect then Some (proxy_tls_config a) else None),
              ra_proxy_header = (if is_connect then arg_proxy_header a else [])\<rparr>))"

subsection \<open>Resolve overrides\<close>

datatype resolve_error =
    ExpectedHostPortAddr bytes
  | InvalidPort bytes
  | NoIpAddress
  | InvalidAddress bytes

definition parse_address :: "u16 \<Rightarrow> bytes \<Rightarrow> resolve_error + socket_addr" where
  "parse_address port s =
     (let t = trim s;
          u = (case Option.bind (strip_prefix [91] t) (strip_suffix [93]) of Some u \<Rightarrow> u | None \<Rightarrow> t)
      in if u = [] then Inl NoIpAddress
         else (case parse_ip_addr u of
                 None \<Rightarrow> Inl (InvalidAddress u)
               | Some ip \<Rightarrow> Inr \<lparr>sa_ip = ip, sa_port = port\<rparr>))"

definition resolve_override_from_str :: "bytes \<Rightarrow> resolve_error + resolve_override" where
  "resolve_override_from_str s =
     (case splitn 3 colon s of
        [host, port, addrs] \<Rightarrow>
          (case parse_u16 port of
             None \<Rightarrow> Inl (InvalidPort port)
           | Some p \<Rightarrow>
               (case collect_results (map (parse_address p) (split_char comma addrs)) of
                  Inl e \<Rightarrow> Inl e
                | Inr as \<Rightarrow> Inr \<lparr>ro_host = host, ro_port = p, ro_addresses = as\<rparr>))
      | _ \<Rightarrow> Inl (ExpectedHostPortAddr s))"

text \<open>\<^verbatim>\<open>--data\<close>: a value, or a file after \<^verbatim>\<open>@\<close>; the parameter reads a file as a
  string. An error is \<^verbatim>\<open>failed to read file\<close> with the path and the reason.\<close>

definition parse_data :: "(bytes \<Rightarrow> string + bytes) \<Rightarrow> bytes \<Rightarrow> (bytes \<times> string) + bytes" where
  "parse_data read_to_string d =
     (case strip_prefix [64] d of
        Some path \<Rightarrow> map_sum (Pair path) id (read_to_string path)
      | None \<Rightarrow> Inr d)"

subsection \<open>What validation establishes\<close>

text \<open>The method that is used when none is given.\<close>

definition effective_method :: "args \<Rightarrow> http_method" where
  "effective_method a =
     (case arg_method a of Some m \<Rightarrow> m | None \<Rightarrow> if arg_data a = None then Get else Post)"

definition acceptable :: "args \<Rightarrow> bool" where
  "acceptable a \<longleftrightarrow> arg_url a \<noteq> []
     \<and> (effective_method a \<in> {Get, Head} \<longrightarrow> arg_data a = None)
     \<and> (effective_method a \<in> {Post, Put, Patch} \<longrightarrow> arg_data a \<noteq> None)
     \<and> (arg_http3 a \<and> arg_proxy a \<noteq> None \<longrightarrow> arg_proxy_http3 a)"

lemma args_contains_append [simp]:
  "args_contains (hs @ hs') k \<longleftrightarrow> args_contains hs k \<or> args_contains hs' k"
  by (simp add: args_contains_def)

lemma args_contains_defaults [simp]:
  "args_contains [user_agent_header] (ascii ''user-agent'')"
  "args_contains [default_content_type] (ascii ''content-type'')"
  by code_simp+

lemma setup_args_fields [simp]:
  "arg_method (setup_args a) = Some (effective_method a)"
  "arg_url (setup_args a) = arg_url a" "arg_data (setup_args a) = arg_data a"
  "arg_http3 (setup_args a) = arg_http3 a" "arg_proxy (setup_args a) = arg_proxy a"
  "arg_proxy_http3 (setup_args a) = arg_proxy_http3 a" "arg_ohttp (setup_args a) = arg_ohttp a"
  by (cases "arg_data a"; simp add: setup_args_def Let_def effective_method_def)+

lemma setup_args_header:
  "arg_header (setup_args a) = arg_header a
     @ (if args_contains (arg_header a) (ascii ''user-agent'') then [] else [user_agent_header])
     @ (if effective_method a \<in> {Post, Put, Patch} \<and> \<not> args_contains (arg_header a) (ascii ''content-type'')
        then [default_content_type] else [])"
proof -
  have "\<not> args_contains [user_agent_header] (ascii ''content-type'')" by code_simp
  then show ?thesis by (cases "arg_data a") (simp_all add: setup_args_def Let_def effective_method_def)
qed

lemma setup_args_other: "setup_args a = a\<lparr>arg_method := Some (effective_method a), arg_header := arg_header (setup_args a)\<rparr>"
  by (cases "arg_data a") (simp_all add: setup_args_def Let_def effective_method_def)

lemma effective_method_setup [simp]: "effective_method (setup_args a) = effective_method a"
  by (simp add: effective_method_def [of "setup_args a"])

lemma setup_args_idem: "setup_args (setup_args a) = setup_args a"
proof -
  have "arg_header (setup_args (setup_args a)) = arg_header (setup_args a)"
    unfolding setup_args_header [of "setup_args a"] by (simp add: setup_args_header [of a])
  with setup_args_other [of "setup_args a"] show ?thesis by simp
qed

lemma validate_fst: "fst (validate a) = Inr () \<longleftrightarrow> acceptable a"
  by (auto simp: validate_def Let_def validate_basic_def validate_proxy_def acceptable_def)

lemma validate_snd [simp]: "snd (validate a) = setup_args a"
  by (simp add: validate_def Let_def)

text \<open>
  C33: \<^verbatim>\<open>validate\<close> accepts exactly the arguments that have a URL, have data if and only
  if their method takes it (a DELETE may) and do not ask for HTTP/3 through a proxy connection
  that is not HTTP/3. It settles the method, only appends default headers, so that a
  \<^verbatim>\<open>User-Agent\<close> and, for POST, PUT and PATCH, a \<^verbatim>\<open>Content-Type\<close> are present,
  changes no other argument, and changes nothing when it is run again.
\<close>

theorem validate_spec:
  assumes "validate a = (r, b)"
  shows "(r = Inr () \<longleftrightarrow> acceptable a)
    \<and> b = a\<lparr>arg_method := Some (effective_method a), arg_header := arg_header b\<rparr>
    \<and> (\<exists>extra. arg_header b = arg_header a @ extra \<and> set extra \<subseteq> {user_agent_header, default_content_type})
    \<and> args_contains (arg_header b) (ascii ''user-agent'')
    \<and> (effective_method a \<in> {Post, Put, Patch} \<longrightarrow> args_contains (arg_header b) (ascii ''content-type''))
    \<and> snd (validate b) = b"
proof -
  from assms have b: "b = setup_args a" and r: "r = fst (validate a)" by (metis validate_snd snd_conv, simp)
  show ?thesis
    unfolding b r
    by (intro conjI, rule validate_fst, rule setup_args_other)
      (auto simp: setup_args_header setup_args_idem)
qed

theorem validate_spec_witness:
  "args_contains (arg_header (snd (validate (default_args\<lparr>arg_url := ascii ''https://a.b'', arg_data := Some (ascii ''x'')\<rparr>))))
     (ascii ''content-type'')"
  using validate_spec [of "default_args\<lparr>arg_url := ascii ''https://a.b'', arg_data := Some (ascii ''x'')\<rparr>", OF prod.collapse [symmetric]]
  by (simp add: effective_method_def default_args_def)

subsection \<open>What a resolve override means\<close>

text \<open>The text of an IP address, possibly in brackets.\<close>

definition address_text :: "bytes \<Rightarrow> ip_addr \<Rightarrow> bool" where
  "address_text t ip \<longleftrightarrow> (\<exists>u. parse_ip_addr u = Some ip \<and> (t = u \<or> t = 91 # u @ [93]))"

fun join :: "byte \<Rightarrow> bytes list \<Rightarrow> bytes" where
  "join c [] = []"
| "join c [t] = t"
| "join c (t # ts) = t @ c # join c ts"

lemma split_char_join:
  "ts \<noteq> [] \<Longrightarrow> \<forall>t \<in> set ts. c \<notin> set t \<Longrightarrow> split_char c (join c ts) = ts"
  by (induction c ts rule: join.induct) auto

lemma address_text_chars:
  assumes "address_text t ip"
  shows "visible t" "comma \<notin> set t"
proof -
  from assms obtain u where "parse_ip_addr u = Some ip" and t: "t = u \<or> t = 91 # u @ [93]"
    by (auto simp: address_text_def)
  then have "list_all ip_char u" by (auto dest: parse_ip_addr_chars)
  then have "\<forall>b \<in> set u. 33 \<le> unat b \<and> unat b < 127 \<and> b \<noteq> comma" by (auto simp: list_all_iff dest: ip_char_visible)
  with t show "visible t" "comma \<notin> set t" by (auto simp: visible_def list_all_iff)
qed

lemma parse_address_text:
  assumes "address_text t ip"
  shows "parse_address p t = Inr \<lparr>sa_ip = ip, sa_port = p\<rparr>"
proof -
  from assms obtain u where u: "parse_ip_addr u = Some ip" and t: "t = u \<or> t = 91 # u @ [93]"
    by (auto simp: address_text_def)
  from u have ne: "u \<noteq> []" by auto
  from parse_ip_addr_chars [OF u] have no_bracket: "91 \<notin> set u"
    using ip_char_visible [of 91] by (auto simp: list_all_iff)
  with ne have "strip_prefix [91] u = None" by (cases u) (auto simp: strip_prefix_def)
  moreover have "Option.bind (strip_prefix [91] (91 # u @ [93])) (strip_suffix [93]) = Some u"
    by (simp add: strip_prefix_def strip_suffix_def)
  ultimately show ?thesis
    using t u ne address_text_chars(1) [OF assms] by (auto simp: parse_address_def Let_def)
qed

lemma parse_address_port: "parse_address p t = Inr sa \<Longrightarrow> sa_port sa = p"
  by (auto simp: parse_address_def Let_def split: if_splits option.splits)

lemma splitn_3: "colon \<notin> set h \<Longrightarrow> colon \<notin> set p \<Longrightarrow> splitn 3 colon (h @ colon # p @ colon # r) = [h, p, r]"
  by (simp add: numeral_3_eq_3)

text \<open>
  C35: \<^verbatim>\<open>--resolve host:port:addr,addr..\<close> is read as it is written: the host, the port and
  the addresses in their order, IPv6 addresses with or without brackets, each with the port.
\<close>

theorem resolve_override_parsed:
  assumes "colon \<notin> set host" "texts \<noteq> []" "list_all2 address_text texts ips"
  shows "resolve_override_from_str (host @ colon # show_nat (unat port) @ colon # join comma texts)
    = Inr \<lparr>ro_host = host, ro_port = port, ro_addresses = map (\<lambda>ip. \<lparr>sa_ip = ip, sa_port = port\<rparr>) ips\<rparr>"
proof -
  from assms(3) have "map (parse_address port) texts = map Inr (map (\<lambda>ip. \<lparr>sa_ip = ip, sa_port = port\<rparr>) ips)"
    by (induction rule: list_all2_induct) (simp_all add: parse_address_text)
  moreover have "split_char comma (join comma texts) = texts"
    using assms(2,3) address_text_chars(2) by (metis list_all2_conv_all_nth in_set_conv_nth split_char_join)
  moreover have "colon \<notin> set (show_nat (unat port))" by (rule show_nat_notin) (simp add: is_digit_def)
  ultimately show ?thesis
    unfolding resolve_override_from_str_def using assms(1)
    by (simp add: splitn_3 del: map_map)
qed

theorem resolve_override_parsed_witness:
  "resolve_override_from_str (ascii ''a.b:'' @ show_nat (unat (443 :: u16)) @ ascii '':127.0.0.1,[10.0.0.1]'')
     = Inr \<lparr>ro_host = ascii ''a.b'', ro_port = 443, ro_addresses =
         [\<lparr>sa_ip = V4 [127, 0, 0, 1], sa_port = 443\<rparr>, \<lparr>sa_ip = V4 [10, 0, 0, 1], sa_port = 443\<rparr>]\<rparr>"
proof -
  have "parse_ip_addr (ascii ''127.0.0.1'') = Some (V4 [127, 0, 0, 1])" by code_simp
  then have "address_text (ascii ''127.0.0.1'') (V4 [127, 0, 0, 1])" unfolding address_text_def by blast
  moreover have "parse_ip_addr (ascii ''10.0.0.1'') = Some (V4 [10, 0, 0, 1])" by code_simp
  then have "address_text (91 # ascii ''10.0.0.1'' @ [93]) (V4 [10, 0, 0, 1])" unfolding address_text_def by blast
  ultimately show ?thesis
    using resolve_override_parsed [of "ascii ''a.b''" "[ascii ''127.0.0.1'', 91 # ascii ''10.0.0.1'' @ [93]]"
        "[V4 [127, 0, 0, 1], V4 [10, 0, 0, 1]]" 443]
    by (simp add: ascii_def)
qed

text \<open>An accepted override has at least one address, and all of them have its port.\<close>

lemma resolve_override_sound:
  assumes "resolve_override_from_str s = Inr ro"
  shows "ro_addresses ro \<noteq> []" "\<forall>sa \<in> set (ro_addresses ro). sa_port sa = ro_port ro"
proof -
  from assms obtain h p as0 ts where ts: "ts = split_char comma as0"
    and ro: "collect_results (map (parse_address (ro_port ro)) ts) = Inr (ro_addresses ro)"
    by (auto simp: resolve_override_from_str_def split: list.splits option.splits sum.splits)
  from ro have eq: "map (parse_address (ro_port ro)) ts = map Inr (ro_addresses ro)"
    by (simp add: collect_results_Inr)
  with ts show "ro_addresses ro \<noteq> []" by auto
  show "\<forall>sa \<in> set (ro_addresses ro). sa_port sa = ro_port ro"
  proof
    fix sa assume "sa \<in> set (ro_addresses ro)"
    then have "Inr sa \<in> set (map (parse_address (ro_port ro)) ts)" unfolding eq by simp
    then obtain t where "parse_address (ro_port ro) t = Inr sa" by auto
    then show "sa_port sa = ro_port ro" by (rule parse_address_port)
  qed
qed

end
