(* ===== verification/Client_Mod.thy ===== *)
theory Client_Mod
  imports Cli_Args
begin

text \<open>
  The shared part of the clients (\<^verbatim>\<open>src/client/mod.rs\<close>): the views of a response for
  output and logs and the redaction of headers before they are logged.
\<close>

definition body_as_string_lossy :: "'hm http_response \<Rightarrow> bytes" where
  "body_as_string_lossy r = from_utf8_lossy (hr_body r)"

definition hex_digit :: "nat \<Rightarrow> byte" where
  "hex_digit n = (if n < 10 then of_nat (48 + n) else of_nat (87 + n))"

definition hex_byte :: "byte \<Rightarrow> bytes" where
  "hex_byte b = [hex_digit (unat b div 16), hex_digit (unat b mod 16)]"

definition body_as_string_escaped :: "'hm http_response \<Rightarrow> bytes" where
  "body_as_string_escaped r =
     concat (map (\<lambda>b. if (33 \<le> unat b \<and> unat b \<le> 126) \<or> b = 32 then [b] else ascii [CHR 0x5C, CHR ''x''] @ hex_byte b)
       (hr_body r))"

text \<open>The encoder of the \<^verbatim>\<open>hex\<close> crate is a parameter.\<close>

definition body_as_hex :: "(bytes \<Rightarrow> bytes) \<Rightarrow> 'hm http_response \<Rightarrow> bytes" where
  "body_as_hex hex_encode r = hex_encode (hr_body r)"

subsection \<open>Redaction\<close>

definition authorization :: bytes where
  "authorization = ascii ''authorization''"

definition redact_headers :: "'hm http_api \<Rightarrow> 'hm \<Rightarrow> bytes \<rightharpoonup> bytes" where
  "redact_headers api headers =
     foldl (\<lambda>redacted (header_nm, header_val).
              let name = from_utf8_lossy header_nm
              in redacted(name \<mapsto> if contains authorization name then ascii ''REDACTED'' else from_utf8_lossy header_val))
       Map.empty (hm_iter api headers)"

definition redact_header_line :: "(bytes \<Rightarrow> bytes) \<Rightarrow> bytes \<Rightarrow> bytes" where
  "redact_header_line to_lowercase h =
     (case split_once [colon] h of
        Some (k, _) \<Rightarrow>
          if contains authorization (to_lowercase k) then trim k @ ascii '': REDACTED'' else h
      | None \<Rightarrow> h)"

definition redact_headers_vec :: "(bytes \<Rightarrow> bytes) \<Rightarrow> bytes list \<Rightarrow> bytes list" where
  "redact_headers_vec to_lowercase = map (redact_header_line to_lowercase)"

definition redact_args :: "(bytes \<Rightarrow> bytes) \<Rightarrow> args \<Rightarrow> args" where
  "redact_args lc a =
     a\<lparr>arg_header := redact_headers_vec lc (arg_header a),
       arg_first_hop_header := redact_headers_vec lc (arg_first_hop_header a),
       arg_proxy_header := redact_headers_vec lc (arg_proxy_header a)\<rparr>"

definition redact_request_args :: "(bytes \<Rightarrow> bytes) \<Rightarrow> request_args \<Rightarrow> request_args" where
  "redact_request_args lc a =
     a\<lparr>ra_headers := redact_headers_vec lc (ra_headers a),
       ra_proxy_header := redact_headers_vec lc (ra_proxy_header a)\<rparr>"

text \<open>\<^verbatim>\<open>log_and_execute_request\<close>: apart from its log output, the request with its error wrapped.\<close>

definition log_and_execute_request ::
  "('r \<Rightarrow> ('w, 'hm http_response) io) \<Rightarrow> 'r \<Rightarrow> ('w, 'hm http_response) io" where
  "log_and_execute_request execute_fn request =
     abind (awrap_err ''Failed to dispatch request to {}'' (execute_fn request)) aret"

subsection \<open>Redaction hides credentials\<close>

text \<open>
  Two header lines that the redaction must not tell apart: the same line, or two values of a
  header whose name contains \<^verbatim>\<open>authorization\<close>, in any case.
\<close>

definition same_up_to_secret :: "bytes \<Rightarrow> bytes \<Rightarrow> bool" where
  "same_up_to_secret h h' \<longleftrightarrow> h = h'
     \<or> (\<exists>k v v'. h = k @ colon # v \<and> h' = k @ colon # v' \<and> colon \<notin> set k
          \<and> is_ascii k \<and> contains authorization (to_ascii_lowercase (trim k)))"

lemma contains_trim:
  assumes "contains p (to_ascii_lowercase (trim k))"
  shows "contains p (to_ascii_lowercase k)"
proof -
  obtain x y where k: "k = x @ trim k @ y" using trim_inside by blast
  from assms obtain u v where "to_ascii_lowercase (trim k) = u @ p @ v" by (auto simp: contains_iff)
  then have "to_ascii_lowercase (x @ trim k @ y) = (to_ascii_lowercase x @ u) @ p @ (v @ to_ascii_lowercase y)"
    by (simp add: to_ascii_lowercase_def)
  then show ?thesis using k unfolding contains_iff by metis
qed

context unicode_case
begin

lemma redact_line_secret:
  "same_up_to_secret h h' \<Longrightarrow> redact_header_line to_lowercase h = redact_header_line to_lowercase h'"
  by (auto simp: same_up_to_secret_def redact_header_line_def lowercase_ascii dest: contains_trim)

lemma redact_vec_secret:
  "list_all2 same_up_to_secret hs hs' \<Longrightarrow> redact_headers_vec to_lowercase hs = redact_headers_vec to_lowercase hs'"
  by (induction rule: list_all2_induct) (simp_all add: redact_headers_vec_def redact_line_secret)

end

lemma redact_request_args_secret:
  assumes "unicode_case lc"
    and "list_all2 same_up_to_secret (ra_headers q) hs" "list_all2 same_up_to_secret (ra_proxy_header q) ps"
  shows "redact_request_args lc (q\<lparr>ra_headers := hs, ra_proxy_header := ps\<rparr>) = redact_request_args lc q"
  using assms(2,3) [THEN unicode_case.redact_vec_secret [OF assms(1)]] by (simp add: redact_request_args_def)

lemma redact_args_secret:
  assumes "unicode_case lc" and "list_all2 same_up_to_secret (arg_header a) hs"
    and "list_all2 same_up_to_secret (arg_first_hop_header a) fs"
    and "list_all2 same_up_to_secret (arg_proxy_header a) ps"
  shows "redact_args lc (a\<lparr>arg_header := hs, arg_first_hop_header := fs, arg_proxy_header := ps\<rparr>) = redact_args lc a"
  using assms(2-4) [THEN unicode_case.redact_vec_secret [OF assms(1)]] by (simp add: redact_args_def)

text \<open>
  Two header maps with the same names, in ASCII, and the same values of every header that is
  not an authorization header are rendered alike: of each name the last value, or
  \<^verbatim>\<open>REDACTED\<close>.
\<close>

definition public_eq :: "'hm http_api \<Rightarrow> 'hm \<Rightarrow> 'hm \<Rightarrow> bool" where
  "public_eq api h h' \<longleftrightarrow> (\<forall>n. (hm_values api h n = [] \<longleftrightarrow> hm_values api h' n = [])
     \<and> (\<not> contains authorization n \<longrightarrow> hm_values api h n = hm_values api h' n)
     \<and> (hm_values api h n \<noteq> [] \<longrightarrow> is_ascii n))"

lemma redact_headers_values:
  assumes "\<And>n. hm_values api h n \<noteq> [] \<Longrightarrow> is_ascii n"
  shows "redact_headers api h m =
    (if hm_values api h m = [] then None
     else Some (if contains authorization m then ascii ''REDACTED'' else from_utf8_lossy (last (hm_values api h m))))"
proof -
  have gen: "\<forall>x \<in> set l. is_ascii (fst x) \<Longrightarrow>
      foldl (\<lambda>r (n, v). let k = from_utf8_lossy n in
        r(k \<mapsto> if contains authorization k then ascii ''REDACTED'' else from_utf8_lossy v)) Map.empty l m
      = (let vs = map snd (filter (\<lambda>(k, v). k = m) l) in if vs = [] then None
         else Some (if contains authorization m then ascii ''REDACTED'' else from_utf8_lossy (last vs)))" for l
    by (induction l rule: rev_induct) (auto simp: Let_def split: prod.splits)
  have "is_ascii (fst x)" if "x \<in> set (hm_iter api h)" for x
  proof (rule assms)
    from that have "snd x \<in> set (hm_values api h (fst x))" by (force simp: hm_values_def)
    then show "hm_values api h (fst x) \<noteq> []" by auto
  qed
  with gen [of "hm_iter api h"] show ?thesis
    by (simp add: redact_headers_def hm_values_def Let_def)
qed

lemma redact_headers_public: "public_eq api h h' \<Longrightarrow> redact_headers api h = redact_headers api h'"
proof (rule ext)
  fix m assume eq: "public_eq api h h'"
  then have "redact_headers api h m = (if hm_values api h m = [] then None
     else Some (if contains authorization m then ascii ''REDACTED'' else from_utf8_lossy (last (hm_values api h m))))"
    by (intro redact_headers_values) (simp add: public_eq_def)
  moreover from eq have "redact_headers api h' m = (if hm_values api h' m = [] then None
     else Some (if contains authorization m then ascii ''REDACTED'' else from_utf8_lossy (last (hm_values api h' m))))"
    by (intro redact_headers_values) (simp add: public_eq_def)
  ultimately show "redact_headers api h m = redact_headers api h' m"
    using eq by (cases "contains authorization m") (simp_all add: public_eq_def)
qed

text \<open>Other headers are rendered unchanged.\<close>

lemma redact_other_lines:
  "split_once [colon] h = Some (k, v) \<Longrightarrow> \<not> contains authorization (lc k) \<Longrightarrow> redact_header_line lc h = h"
  by (simp add: redact_header_line_def)


end
