(* ===== verification/Http3_Connection.thy ===== *)
theory Http3_Connection
  imports Http3_Body Client_Mod Bhttp_Encoder
begin

text \<open>
  The HTTP/3 connection task (\<^verbatim>\<open>src/client/http3/connection.rs\<close>): it takes requests from
  the user-facing task, hands them to the QUIC driver of \<^verbatim>\<open>tokio_quiche\<close>, and sends each
  response that the driver reports back through the one-shot channel of its request. The
  driver is not part of the repository: it is the source of the events.
\<close>

type_synonym h3_header = "bytes \<times> bytes"
type_synonym settings = "(u64 \<times> u64) list"

datatype h3_event =
    ConnectionError string
  | GoAway
  | ConnectionShutdown
  | NewFlow u64 "inbound_event list" "slot list"
  | IncomingSettings settings
  | IncomingHeaders u64 "h3_header list" "slot list" "inbound_event list" bool
  | ResetStream u64
  | BodyBytesReceived u64
  | StreamClosed u64

datatype client_h3_event = Core h3_event | NewOutboundRequest u64 u64

record new_client_request =
  ncr_request_id :: u64
  ncr_headers :: "h3_header list"
  ncr_body_writer :: bool

text \<open>
  The state of the connection. \<open>'t\<close> is the sending end of the one-shot channel of a
  request; \<open>h3_delivered\<close> are the responses sent through them, \<open>h3_outbox\<close> the
  requests handed to the driver, \<open>h3_request_id\<close> the value of the process-wide
  \<^verbatim>\<open>REQUEST_ID\<close> counter and \<open>h3_bodies\<close> the bodies whose streaming was spawned.
\<close>

record ('hm, 't, 'e) h3_connection =
  h3_flow_map :: "u64 \<rightharpoonup> inbound_event list \<times> slot list"
  h3_peer_settings :: "settings option"
  h3_pending :: "u64 \<rightharpoonup> 't"
  h3_streams :: "u64 \<rightharpoonup> u64"
  h3_cancelled :: bool
  h3_request_id :: u64
  h3_outbox :: "new_client_request list"
  h3_bodies :: "(u64 \<times> 'e body) list"
  h3_delivered :: "('t \<times> ('hm, h3_body) response) list"

definition new_with_connection :: "u64 \<Rightarrow> ('hm, 't, 'e) h3_connection" where
  "new_with_connection counter =
     \<lparr>h3_flow_map = Map.empty, h3_peer_settings = None, h3_pending = Map.empty, h3_streams = Map.empty,
      h3_cancelled = False, h3_request_id = counter, h3_outbox = [], h3_bodies = [], h3_delivered = []\<rparr>"

subsection \<open>Headers\<close>

text \<open>The \<^verbatim>\<open>Protocol\<close> extension of a request is an argument.\<close>

definition hyper_request_parts_to_h3_headers ::
  "'hm http_api \<Rightarrow> bytes option \<Rightarrow> ('hm, 'b) request \<Rightarrow> h3_header list" where
  "hyper_request_parts_to_h3_headers api protocol req =
     [(ascii '':method'', rq_method req)]
     @ (case protocol of Some p \<Rightarrow> [(ascii '':protocol'', p)] | None \<Rightarrow> [])
     @ (case uri_scheme (rq_uri req) of Some s \<Rightarrow> [(ascii '':scheme'', s)] | None \<Rightarrow> [])
     @ (case uri_authority (rq_uri req) of Some a \<Rightarrow> [(ascii '':authority'', a)] | None \<Rightarrow> [])
     @ (case uri_path_and_query api (rq_uri req) of Some p \<Rightarrow> [(ascii '':path'', p)] | None \<Rightarrow> [])
     @ hm_iter api (rq_headers req)"

text \<open>
  The builder of a response: the status, \<^verbatim>\<open>200\<close> until one is set, and the headers, or
  the first error.
\<close>

definition response_builder_add :: "'hm http_api \<Rightarrow> string + (u16 \<times> 'hm) \<Rightarrow> h3_header \<Rightarrow> string + (u16 \<times> 'hm)" where
  "response_builder_add api b h =
     (case b of
        Inl e \<Rightarrow> Inl e
      | Inr (st, hm) \<Rightarrow>
          if fst h = ascii '':status''
          then (case status_from_bytes api (snd h) of None \<Rightarrow> Inl ''invalid status code'' | Some st' \<Rightarrow> Inr (st', hm))
          else (case header_name api (fst h) of
                  None \<Rightarrow> Inl ''invalid HTTP header name''
                | Some n \<Rightarrow>
                    (case header_value api (snd h) of
                       None \<Rightarrow> Inl ''failed to parse header value''
                     | Some v \<Rightarrow>
                         (case hm_append api hm n v of
                            None \<Rightarrow> Inl ''max size reached''
                          | Some hm' \<Rightarrow> Inr (st, hm')))))"

definition h3_response_to_hyper_response :: "'hm http_api \<Rightarrow> h3_header list \<Rightarrow> ('hm, unit) response rresult" where
  "h3_response_to_hyper_response api headers =
     (case foldl (response_builder_add api) (Inr (200, hm_empty api)) headers of
        Inl e \<Rightarrow> Inl (Source (Lib e))
      | Inr (st, hm) \<Rightarrow> Inr \<lparr>rs_version = HTTP_3, rs_status = st, rs_headers = hm, rs_body = ()\<rparr>)"

definition redact_h3_headers :: "h3_header list \<Rightarrow> bytes list" where
  "redact_h3_headers headers =
     map (\<lambda>(n, v). let name = from_utf8_lossy n
        in name @ ascii '': ''
           @ (if contains authorization name then ascii ''REDACTED'' else from_utf8_lossy v)) headers"

subsection \<open>Events of the driver\<close>

definition with_h3_body :: "('hm, unit) response \<Rightarrow> h3_body \<Rightarrow> ('hm, h3_body) response" where
  "with_h3_body r b = \<lparr>rs_version = rs_version r, rs_status = rs_status r, rs_headers = rs_headers r, rs_body = b\<rparr>"

definition handle_event ::
  "'hm http_api \<Rightarrow> client_h3_event \<Rightarrow> ('hm, 't, 'e) h3_connection \<Rightarrow> unit rresult \<times> ('hm, 't, 'e) h3_connection" where
  "handle_event api event c =
     (case event of
        NewOutboundRequest stream_id request_id \<Rightarrow> (Inr (), c\<lparr>h3_streams := (h3_streams c)(stream_id \<mapsto> request_id)\<rparr>)
      | Core e \<Rightarrow>
          (case e of
             ConnectionError err \<Rightarrow> (Inl (Source (Lib err)), c)
           | GoAway \<Rightarrow> (eyre ''goaway'' [], c)
           | ConnectionShutdown \<Rightarrow> (Inl (Source (Lib ''Done'')), c)
           | NewFlow flow_id rcv sndr \<Rightarrow> (Inr (), c\<lparr>h3_flow_map := (h3_flow_map c)(flow_id \<mapsto> (rcv, sndr))\<rparr>)
           | IncomingSettings s \<Rightarrow>
               (case h3_peer_settings c of
                  None \<Rightarrow> (Inr (), c\<lparr>h3_peer_settings := Some s\<rparr>)
                | Some _ \<Rightarrow> (eyre ''settings already set - received duplicate settings from peer'' [], c))
           | IncomingHeaders stream_id headers sndr rcv read_fin \<Rightarrow>
               (case h3_streams c stream_id of
                  None \<Rightarrow> (Inl (Source (Lib ''Received headers for unknown stream_id'')), c)
                | Some request_id \<Rightarrow>
                    let c1 = c\<lparr>h3_streams := (h3_streams c)(stream_id := None)\<rparr>
                    in (case h3_pending c1 request_id of
                          None \<Rightarrow> (Inr (), c1)
                        | Some tx \<Rightarrow>
                            let c2 = c1\<lparr>h3_pending := (h3_pending c1)(request_id := None)\<rparr>
                            in (case h3_response_to_hyper_response api headers of
                                  Inl e \<Rightarrow> (Inl e, c2)
                                | Inr res \<Rightarrow>
                                    (Inr (), c2\<lparr>h3_delivered := h3_delivered c2
                                       @ [(tx, with_h3_body res (h3_body_new stream_id sndr (Some rcv) read_fin))]\<rparr>))))
           | ResetStream stream_id \<Rightarrow>
               (case h3_streams c stream_id of
                  None \<Rightarrow> (Inr (), c)
                | Some request_id \<Rightarrow> (Inr (), c\<lparr>h3_pending := (h3_pending c)(request_id := None)\<rparr>))
           | BodyBytesReceived _ \<Rightarrow> (Inr (), c)
           | StreamClosed _ \<Rightarrow> (Inr (), c)))"

subsection \<open>Requests of the client\<close>

text \<open>\<open>alive\<close> tells whether the driver still takes requests.\<close>

definition handle_client_req ::
  "'hm http_api \<Rightarrow> bytes option \<Rightarrow> bool \<Rightarrow> ('hm, 'e body) request \<Rightarrow> 't
    \<Rightarrow> ('hm, 't, 'e) h3_connection \<Rightarrow> unit rresult \<times> ('hm, 't, 'e) h3_connection" where
  "handle_client_req api protocol alive req tx c =
     (let request_id = h3_request_id c;
          c1 = c\<lparr>h3_request_id := request_id + 1\<rparr>;
          is_connect = (rq_method req = ascii ''CONNECT'');
          headers = hyper_request_parts_to_h3_headers api protocol req;
          has_body = (bd_size_hint (rq_body req) \<noteq> Some 0)
      in if \<not> alive then (eyre ''unable to send new client request to IO worker'' [], c1)
         else (Inr (), c1\<lparr>h3_outbox := h3_outbox c
                   @ [\<lparr>ncr_request_id = request_id, ncr_headers = headers, ncr_body_writer = is_connect \<or> has_body\<rparr>],
                 h3_pending := (h3_pending c)(request_id \<mapsto> tx),
                 h3_bodies := h3_bodies c @ (if has_body then [(request_id, rq_body req)] else [])\<rparr>))"

subsection \<open>The connection task\<close>

text \<open>
  What a round of the \<^verbatim>\<open>select!\<close> of \<^verbatim>\<open>run\<close> can receive. Which branch is ready is
  up to the environment, so every sequence is possible; the last branch is only taken after
  the connection was cancelled. \<open>OtherConnections k\<close> is no branch of it: the counter of
  request identifiers is a \<^verbatim>\<open>static\<close> of the process, and other connections may have
  taken \<open>k\<close> identifiers from it since the last round.
\<close>

datatype ('hm, 't, 'e) run_input =
    H3Ev client_h3_event
  | H3EvClosed
  | ClientReq "bytes option" bool "('hm, 'e body) request" 't
  | ShutdownReq
  | Cancelled
  | OtherConnections nat

text \<open>A round continues (\<open>None\<close>) or returns from \<^verbatim>\<open>run\<close>.\<close>

definition run_step ::
  "'hm http_api \<Rightarrow> ('hm, 't, 'e) run_input \<Rightarrow> ('hm, 't, 'e) h3_connection
    \<Rightarrow> unit rresult option \<times> ('hm, 't, 'e) h3_connection" where
  "run_step api inp c =
     (case inp of
        H3Ev e \<Rightarrow> (case handle_event api e c of (Inl err, c') \<Rightarrow> (Some (Inl err), c') | (Inr _, c') \<Rightarrow> (None, c'))
      | H3EvClosed \<Rightarrow> (Some (Inr ()), c)
      | ClientReq protocol alive req tx \<Rightarrow>
          (case handle_client_req api protocol alive req tx c of
             (Inl err, c') \<Rightarrow> (Some (Inl err), c') | (Inr _, c') \<Rightarrow> (None, c'))
      | ShutdownReq \<Rightarrow> (None, c\<lparr>h3_cancelled := True\<rparr>)
      | Cancelled \<Rightarrow> (Some (Inr ()), c)
      | OtherConnections k \<Rightarrow> (None, c\<lparr>h3_request_id := h3_request_id c + of_nat k\<rparr>))"

text \<open>
  \<open>h3_run api c0 hist c\<close>: the task, started in \<open>c0\<close>, has received \<open>hist\<close> and
  goes on in the state \<open>c\<close>.
\<close>

inductive h3_run ::
  "'hm http_api \<Rightarrow> ('hm, 't, 'e) h3_connection \<Rightarrow> ('hm, 't, 'e) run_input list \<Rightarrow> ('hm, 't, 'e) h3_connection \<Rightarrow> bool"
  for api c0 where
  run_start: "h3_run api c0 [] c0"
| run_next: "h3_run api c0 hist c \<Longrightarrow> (inp = Cancelled \<longrightarrow> h3_cancelled c) \<Longrightarrow> run_step api inp c = (None, c')
    \<Longrightarrow> h3_run api c0 (hist @ [inp]) c'"

text \<open>
  \<^verbatim>\<open>SendRequest::send_request\<close>: an error if the connection task is gone (\<open>alive\<close> is
  whether the request could be handed to it), the response that arrives through the channel,
  or an error when the connection task dropped its end.
\<close>

definition send_request_result :: "bool \<Rightarrow> 't \<Rightarrow> ('hm, 't, 'e) h3_connection \<Rightarrow> ('hm, h3_body) response rresult" where
  "send_request_result alive tx c =
     (if \<not> alive then Inl (FromIo (IoError ConnectionAborted (Msg ''connection to h3 client driver closed'')))
      else case map_of (h3_delivered c) tx of
        Some res \<Rightarrow> Inr res
      | None \<Rightarrow> Inl (Source (Lib ''channel closed'')))"

subsection \<open>Responses reach the requests they answer\<close>

text \<open>The requests of a history with the identifiers they get, from a first identifier on.\<close>

fun assigned :: "u64 \<Rightarrow> ('hm, 't, 'e) run_input list \<Rightarrow> (u64 \<times> ('hm, 'e body) request \<times> 't) list" where
  "assigned n [] = []"
| "assigned n (ClientReq p alive req tx # h) = (n, req, tx) # assigned (n + 1) h"
| "assigned n (OtherConnections k # h) = assigned (n + of_nat k) h"
| "assigned n (_ # h) = assigned n h"

text \<open>How many identifiers a history takes from the counter, those of other connections included.\<close>

fun ids_taken :: "('hm, 't, 'e) run_input list \<Rightarrow> nat" where
  "ids_taken [] = 0"
| "ids_taken (ClientReq p alive req tx # h) = Suc (ids_taken h)"
| "ids_taken (OtherConnections k # h) = k + ids_taken h"
| "ids_taken (_ # h) = ids_taken h"

definition senders :: "('hm, 't, 'e) run_input list \<Rightarrow> 't list" where
  "senders h = map (snd \<circ> snd) (assigned 0 h)"

lemma assigned_append:
  "assigned n (h @ h') = assigned n h @ assigned (n + of_nat (ids_taken h)) h'"
  by (induction n h rule: assigned.induct) (simp_all add: algebra_simps)

lemma ids_taken_append: "ids_taken (h @ h') = ids_taken h + ids_taken h'"
  by (induction h rule: ids_taken.induct) simp_all

lemma assigned_senders: "map (snd \<circ> snd) (assigned n h) = senders h"
proof -
  have "map (snd \<circ> snd) (assigned n h) = map (snd \<circ> snd) (assigned m h)" for m
    by (induction n h arbitrary: m rule: assigned.induct) simp_all
  then show ?thesis by (simp add: senders_def)
qed

text \<open>The identifiers grow from the first one on, by less than what the history takes.\<close>

lemma assigned_offsets:
  "\<exists>ks. map fst (assigned (n + of_nat m) h) = map (\<lambda>k. n + of_nat k) ks
     \<and> sorted_wrt (<) ks \<and> set ks \<subseteq> {m..<m + ids_taken h}"
proof (induction h arbitrary: m rule: ids_taken.induct)
  case (2 p alive req tx h)
  from 2 [of "Suc m"] obtain ks where ks: "map fst (assigned (n + of_nat (Suc m)) h) = map (\<lambda>k. n + of_nat k) ks"
    "sorted_wrt (<) ks" "set ks \<subseteq> {Suc m..<Suc m + ids_taken h}" by blast
  have next_id: "n + of_nat (Suc m) = n + of_nat m + 1" by simp
  from ks show ?case by (intro exI [of _ "m # ks"]) (auto simp: subset_iff simp del: of_nat_Suc simp flip: next_id)
next
  case (3 k h)
  from 3 [of "m + k"] obtain ks where ks: "map fst (assigned (n + of_nat (m + k)) h) = map (\<lambda>k. n + of_nat k) ks"
    "sorted_wrt (<) ks" "set ks \<subseteq> {m + k..<m + k + ids_taken h}" by blast
  then show ?case by (intro exI [of _ ks]) (auto simp: subset_iff algebra_simps)
qed auto

lemma distinct_ids:
  assumes "ids_taken h \<le> 2 ^ 64"
  shows "distinct (map fst (assigned n h))"
proof -
  from assigned_offsets [of n 0 h] obtain ks where ks: "map fst (assigned n h) = map (\<lambda>k. n + of_nat k) ks"
    "sorted_wrt (<) ks" "set ks \<subseteq> {0..<ids_taken h}" by auto
  have "inj_on (\<lambda>k. n + of_nat k :: u64) (set ks)"
  proof (rule inj_onI)
    fix i j assume "i \<in> set ks" "j \<in> set ks" "n + of_nat i = n + (of_nat j :: u64)"
    moreover from this ks(3) assms have "i < 2 ^ 64" "j < 2 ^ 64" by fastforce+
    ultimately show "i = j" by (simp add: word_of_nat_eq_iff take_bit_eq_mod)
  qed
  moreover have "distinct ks" using ks(2) by (simp add: strict_sorted_iff)
  ultimately show ?thesis unfolding ks(1) by (simp add: distinct_map)
qed

definition answers ::
  "'hm http_api \<Rightarrow> u64 \<Rightarrow> ('hm, 't, 'e) run_input list \<Rightarrow> 't \<Rightarrow> ('hm, h3_body) response \<Rightarrow> bool" where
  "answers api n h tx res \<longleftrightarrow>
     (\<exists>rid req sid headers sndr rcv fin r.
        (rid, req, tx) \<in> set (assigned n h)
        \<and> H3Ev (NewOutboundRequest sid rid) \<in> set h
        \<and> H3Ev (Core (IncomingHeaders sid headers sndr rcv fin)) \<in> set h
        \<and> h3_response_to_hyper_response api headers = Inr r
        \<and> res = with_h3_body r (h3_body_new sid sndr (Some rcv) fin))"

definition conn_inv ::
  "'hm http_api \<Rightarrow> u64 \<Rightarrow> ('hm, 't, 'e) run_input list \<Rightarrow> ('hm, 't, 'e) h3_connection \<Rightarrow> bool" where
  "conn_inv api n h c \<longleftrightarrow>
     h3_request_id c = n + of_nat (ids_taken h)
     \<and> (\<forall>rid tx. h3_pending c rid = Some tx \<longrightarrow> (\<exists>req. (rid, req, tx) \<in> set (assigned n h)))
     \<and> (\<forall>sid rid. h3_streams c sid = Some rid \<longrightarrow> H3Ev (NewOutboundRequest sid rid) \<in> set h)
     \<and> (\<forall>(tx, res) \<in> set (h3_delivered c). answers api n h tx res)"

lemma answers_mono: "answers api n h tx res \<Longrightarrow> answers api n (h @ h') tx res"
  unfolding answers_def assigned_append set_append by blast

lemma conn_inv_mono:
  assumes "conn_inv api n h c" "\<And>n. assigned n [x] = []" "ids_taken [x] = 0"
  shows "conn_inv api n (h @ [x]) c"
proof -
  have "assigned n (h @ [x]) = assigned n h" using assms by (simp add: conn_inv_def assigned_append)
  with assms answers_mono [of api n h _ _ "[x]"] show ?thesis by (fastforce simp: conn_inv_def ids_taken_append)
qed

lemma conn_inv_others:
  assumes "conn_inv api n h c"
  shows "conn_inv api n (h @ [OtherConnections k]) (c\<lparr>h3_request_id := h3_request_id c + of_nat k\<rparr>)"
proof -
  have "assigned n (h @ [OtherConnections k]) = assigned n h" by (simp add: assigned_append)
  with assms answers_mono [of api n h _ _ "[OtherConnections k]"] show ?thesis
    by (fastforce simp: conn_inv_def ids_taken_append algebra_simps)
qed

text \<open>Removing what is known keeps the invariant.\<close>

lemma conn_inv_less:
  assumes "conn_inv api n h c" "h3_pending c' \<subseteq>\<^sub>m h3_pending c" "h3_streams c' \<subseteq>\<^sub>m h3_streams c"
    "h3_request_id c' = h3_request_id c" "h3_delivered c' = h3_delivered c"
  shows "conn_inv api n h c'"
  using assms unfolding conn_inv_def map_le_def by (metis domI)

lemma map_le_remove: "m(k := None) \<subseteq>\<^sub>m m"
  by (simp add: map_le_def)

lemma conn_inv_headers:
  assumes "conn_inv api n h c" "h3_streams c sid = Some rid" "h3_pending c rid = Some tx"
    and "h3_response_to_hyper_response api headers = Inr r" "h' = h @ [H3Ev (Core (IncomingHeaders sid headers sndr rcv fin))]"
  shows "answers api n h' tx (with_h3_body r (h3_body_new sid sndr (Some rcv) fin))"
proof -
  from assms(1,3) obtain req where "(rid, req, tx) \<in> set (assigned n h)" unfolding conn_inv_def by blast
  moreover have "H3Ev (NewOutboundRequest sid rid) \<in> set h" using assms(1,2) by (simp add: conn_inv_def)
  ultimately show ?thesis
    unfolding answers_def assms(5) assigned_append set_append using assms(4)
    by (intro exI [of _ rid] exI [of _ req] exI [of _ sid] exI [of _ headers] exI [of _ sndr] exI [of _ rcv]
        exI [of _ fin] exI [of _ r]) simp
qed

lemma conn_inv_event:
  assumes "conn_inv api n h c" "handle_event api e c = (Inr (), c')"
  shows "conn_inv api n (h @ [H3Ev e]) c'"
proof -
  have keep: "conn_inv api n (h @ [H3Ev e]) c" by (rule conn_inv_mono [OF assms(1)]) simp_all
  show ?thesis
  proof (cases e)
    case (NewOutboundRequest sid rid)
    with assms keep show ?thesis by (auto simp: handle_event_def conn_inv_def assigned_append ids_taken_append split: if_splits)
  next
    case (Core ev)
    show ?thesis
    proof (cases "\<exists>sid headers sndr rcv fin rid tx. ev = IncomingHeaders sid headers sndr rcv fin
        \<and> h3_streams c sid = Some rid \<and> h3_pending c rid = Some tx")
      case True
      then obtain sid headers sndr rcv fin rid tx where ev: "ev = IncomingHeaders sid headers sndr rcv fin"
        "h3_streams c sid = Some rid" "h3_pending c rid = Some tx" by blast
      let ?c2 = "c\<lparr>h3_streams := (h3_streams c)(sid := None), h3_pending := (h3_pending c)(rid := None)\<rparr>"
      obtain r where r: "h3_response_to_hyper_response api headers = Inr r"
        and c': "c' = ?c2\<lparr>h3_delivered := h3_delivered c @ [(tx, with_h3_body r (h3_body_new sid sndr (Some rcv) fin))]\<rparr>"
        using assms(2) Core ev by (auto simp: handle_event_def Let_def split: sum.splits)
      have "conn_inv api n (h @ [H3Ev e]) ?c2" by (rule conn_inv_less [OF keep]) (simp_all add: map_le_remove)
      with conn_inv_headers [OF assms(1) ev(2,3) r refl, of sndr rcv fin] show ?thesis
        unfolding c' Core ev(1) by (simp add: conn_inv_def)
    next
      case False
      with assms(2) Core have "h3_pending c' \<subseteq>\<^sub>m h3_pending c \<and> h3_streams c' \<subseteq>\<^sub>m h3_streams c
          \<and> h3_request_id c' = h3_request_id c \<and> h3_delivered c' = h3_delivered c"
        by (auto simp: handle_event_def Let_def map_le_remove split: h3_event.splits option.splits sum.splits)
      then show ?thesis by (blast intro: conn_inv_less [OF keep])
    qed
  qed
qed

lemma conn_inv_request:
  assumes "conn_inv api n h c" "handle_client_req api p alive req tx c = (Inr (), c')"
  shows "conn_inv api n (h @ [ClientReq p alive req tx]) c'"
proof -
  let ?x = "ClientReq p alive req tx"
  have eq: "assigned n (h @ [?x]) = assigned n h @ [(h3_request_id c, req, tx)]"
    using assms(1) by (simp add: assigned_append conn_inv_def)
  have fields: "h3_request_id c' = h3_request_id c + 1" "h3_pending c' = (h3_pending c)(h3_request_id c \<mapsto> tx)"
    "h3_streams c' = h3_streams c" "h3_delivered c' = h3_delivered c"
    using assms(2) by (auto simp: handle_client_req_def Let_def split: if_splits)
  have "answers api n (h @ [?x]) t res" if "(t, res) \<in> set (h3_delivered c)" for t res
    using assms(1) that answers_mono by (fastforce simp: conn_inv_def)
  with assms(1) show ?thesis unfolding conn_inv_def eq fields by (auto simp: algebra_simps ids_taken_append)
qed

lemma round_result:
  "(case p of (Inl err, c') \<Rightarrow> (Some (Inl err), c') | (Inr _, c') \<Rightarrow> (None, c')) = (None, c') \<longleftrightarrow> p = (Inr (), c')"
  by (auto split: prod.split sum.split)

lemma run_step_continues:
  "run_step api (H3Ev e) c = (None, c') \<longleftrightarrow> handle_event api e c = (Inr (), c')"
  "run_step api (ClientReq p alive req tx) c = (None, c') \<longleftrightarrow> handle_client_req api p alive req tx c = (Inr (), c')"
  "run_step api ShutdownReq c = (None, c') \<longleftrightarrow> c' = c\<lparr>h3_cancelled := True\<rparr>"
  "run_step api (OtherConnections k) c = (None, c') \<longleftrightarrow> c' = c\<lparr>h3_request_id := h3_request_id c + of_nat k\<rparr>"
  "run_step api H3EvClosed c \<noteq> (None, c')" "run_step api Cancelled c \<noteq> (None, c')"
  unfolding run_step_def run_input.case round_result by auto

lemma h3_run_inv:
  assumes "h3_run api (new_with_connection n) h c"
  shows "conn_inv api n h c"
  using assms
proof (induction rule: h3_run.induct)
  case run_start
  show ?case by (simp add: conn_inv_def new_with_connection_def)
next
  case (run_next hist c inp c')
  show ?case
  proof (cases inp)
    case (H3Ev e)
    with run_next.hyps run_next.IH show ?thesis by (simp add: run_step_continues conn_inv_event)
  next
    case (ClientReq p alive req tx)
    with run_next.hyps run_next.IH show ?thesis by (simp add: run_step_continues conn_inv_request)
  next
    case ShutdownReq
    with run_next.hyps have c': "c' = c\<lparr>h3_cancelled := True\<rparr>" by (simp add: run_step_continues)
    have "conn_inv api n (hist @ [inp]) c" using run_next.IH ShutdownReq by (simp add: conn_inv_mono)
    then show ?thesis unfolding c' by (rule conn_inv_less) simp_all
  next
    case (OtherConnections k)
    with run_next.hyps run_next.IH show ?thesis by (simp add: run_step_continues conn_inv_others)
  qed (use run_next.hyps in \<open>simp_all add: run_step_continues\<close>)
qed

text \<open>At most one response per request: a sender is pending or was used, never both.\<close>

definition one_shot :: "(u64 \<rightharpoonup> 't) \<Rightarrow> 't list \<Rightarrow> 't set \<Rightarrow> bool" where
  "one_shot pending used txs \<longleftrightarrow> distinct used \<and> set used \<inter> ran pending = {}
     \<and> (\<forall>k k'. pending k \<noteq> None \<longrightarrow> pending k = pending k' \<longrightarrow> k = k') \<and> ran pending \<union> set used \<subseteq> txs"

lemma one_shot_remove: "one_shot m used txs \<Longrightarrow> one_shot (m(k := None)) used txs"
  by (auto simp: one_shot_def ran_def split: if_splits)

lemma one_shot_use:
  assumes "one_shot m used txs" "m k = Some tx"
  shows "one_shot (m(k := None)) (used @ [tx]) txs"
proof -
  have "tx \<in> ran m" using assms(2) by (auto simp: ran_def)
  moreover have "tx \<notin> ran (m(k := None))"
    using assms by (auto simp: one_shot_def ran_def)
  moreover have "tx \<notin> set used" "tx \<in> txs" using assms(1) calculation(1) unfolding one_shot_def by blast+
  ultimately show ?thesis
    using one_shot_remove [OF assms(1), of k] unfolding one_shot_def set_append by (intro conjI) (simp, simp, blast, simp)
qed

lemma one_shot_add:
  assumes "one_shot m used txs" "tx \<notin> txs"
  shows "one_shot (m(k \<mapsto> tx)) used (insert tx txs)"
proof -
  have "m j \<noteq> Some tx" for j using assms by (auto simp: one_shot_def ran_def)
  moreover have "ran (m(k \<mapsto> tx)) \<subseteq> insert tx (ran m)" by (auto simp: ran_def)
  ultimately show ?thesis using assms unfolding one_shot_def
    by (intro conjI) (blast, blast, metis fun_upd_apply, blast)
qed

definition sender_inv :: "('hm, 't, 'e) run_input list \<Rightarrow> ('hm, 't, 'e) h3_connection \<Rightarrow> bool" where
  "sender_inv h c \<longleftrightarrow> one_shot (h3_pending c) (map fst (h3_delivered c)) (set (senders h))"

lemma senders_snoc [simp]:
  "senders (h @ [H3Ev e]) = senders h" "senders (h @ [ShutdownReq]) = senders h"
  "senders (h @ [ClientReq p alive req tx]) = senders h @ [tx]" "senders (h @ [OtherConnections k]) = senders h"
  by (simp_all add: senders_def assigned_append)

lemma sender_inv_event:
  assumes "sender_inv h c" "handle_event api e c = (Inr (), c')"
  shows "sender_inv (h @ [H3Ev e]) c'"
proof (cases "\<exists>sid headers sndr rcv fin rid tx. e = Core (IncomingHeaders sid headers sndr rcv fin)
    \<and> h3_streams c sid = Some rid \<and> h3_pending c rid = Some tx")
  case True
  then obtain sid headers sndr rcv fin rid tx where e: "e = Core (IncomingHeaders sid headers sndr rcv fin)"
    "h3_streams c sid = Some rid" "h3_pending c rid = Some tx" by blast
  then obtain res where c': "h3_pending c' = (h3_pending c)(rid := None)" "h3_delivered c' = h3_delivered c @ [(tx, res)]"
    using assms(2) by (auto simp: handle_event_def Let_def split: sum.splits)
  with assms(1) e(3) show ?thesis by (simp add: sender_inv_def one_shot_use)
next
  case False
  with assms(2) have "(h3_pending c' = h3_pending c \<or> (\<exists>k. h3_pending c' = (h3_pending c)(k := None)))
      \<and> h3_delivered c' = h3_delivered c"
    by (cases e) (auto simp: handle_event_def Let_def split: h3_event.splits option.splits sum.splits)
  with assms(1) show ?thesis by (auto simp: sender_inv_def one_shot_remove)
qed

lemma sender_inv_request:
  assumes "sender_inv h c" "handle_client_req api p alive req tx c = (Inr (), c')" "tx \<notin> set (senders h)"
  shows "sender_inv (h @ [ClientReq p alive req tx]) c'"
proof -
  have c': "h3_pending c' = (h3_pending c)(h3_request_id c \<mapsto> tx)" "h3_delivered c' = h3_delivered c"
    using assms(2) by (auto simp: handle_client_req_def Let_def split: if_splits)
  with assms(1,3) show ?thesis by (simp add: sender_inv_def one_shot_add)
qed

lemma h3_run_senders:
  assumes "h3_run api (new_with_connection n) h c" "distinct (senders h)"
  shows "sender_inv h c"
  using assms
proof (induction rule: h3_run.induct)
  case run_start
  show ?case by (simp add: sender_inv_def one_shot_def new_with_connection_def)
next
  case (run_next hist c inp c')
  then show ?case
  proof (cases inp)
    case (H3Ev e)
    with run_next show ?thesis by (simp add: run_step_continues sender_inv_event)
  next
    case (ClientReq p alive req tx)
    with run_next show ?thesis by (simp add: run_step_continues sender_inv_request)
  next
    case ShutdownReq
    with run_next show ?thesis by (auto simp: run_step_continues sender_inv_def)
  next
    case (OtherConnections k)
    with run_next show ?thesis by (auto simp: run_step_continues sender_inv_def)
  qed (use run_next.hyps in \<open>simp_all add: run_step_continues\<close>)
qed

text \<open>
  C28: on a multiplexed connection every response reaches the request it answers. In every
  interleaving of requests, driver events and requests of other connections that take
  identifiers from the same counter, a response delivered to a caller was built from
  headers that arrived on a stream that the driver had opened for the identifier of that
  caller's request; identifiers are unique as long as the process takes at most
  \<open>2\<^sup>6\<^sup>4\<close> of them, and no caller gets two responses.
\<close>

theorem h3_responses_matched:
  assumes "h3_run api (new_with_connection n) h c" "distinct (senders h)" "ids_taken h \<le> 2 ^ 64"
  shows "(\<forall>(tx, res) \<in> set (h3_delivered c). answers api n h tx res)
    \<and> distinct (map fst (h3_delivered c)) \<and> distinct (map fst (assigned n h))"
  using h3_run_inv [OF assms(1)] h3_run_senders [OF assms(1,2)] distinct_ids [OF assms(3), of n]
  by (simp add: conn_inv_def sender_inv_def one_shot_def)

definition demo_h3_request :: "((bytes \<times> bytes) list, unit body) request" where
  "demo_h3_request =
     \<lparr>rq_method = ascii ''GET'', rq_uri = \<lparr>uri_scheme = Some (ascii ''https''), uri_authority = Some (ascii ''a.b''),
        uri_path = ascii ''/'', uri_query = None\<rparr>, rq_version = HTTP_11, rq_headers = [],
      rq_body = \<lparr>bd_size_hint = Some 0, bd_data = []\<rparr>\<rparr>"

definition demo_history :: "((bytes \<times> bytes) list, nat, unit) run_input list" where
  "demo_history =
     [OtherConnections 3, ClientReq None True demo_h3_request 7, H3Ev (NewOutboundRequest 4 3),
      H3Ev (Core (IncomingHeaders 4 [] [] [] True))]"

theorem h3_responses_matched_witness:
  "\<exists>c. h3_run alist_http (new_with_connection 0) demo_history c \<and> map fst (h3_delivered c) = [7]
     \<and> (\<forall>(tx, res) \<in> set (h3_delivered c). answers alist_http 0 demo_history tx res)"
proof -
  let ?c0 = "new_with_connection 0 :: ((bytes \<times> bytes) list, nat, unit) h3_connection"
  let ?c1 = "snd (run_step alist_http (demo_history ! 0) ?c0)"
  let ?c2 = "snd (run_step alist_http (demo_history ! 1) ?c1)"
  let ?c3 = "snd (run_step alist_http (demo_history ! 2) ?c2)"
  let ?c4 = "snd (run_step alist_http (demo_history ! 3) ?c3)"
  note eval = run_step_def handle_event_def handle_client_req_def new_with_connection_def demo_history_def
    demo_h3_request_def h3_response_to_hyper_response_def Let_def
  have r1: "h3_run alist_http ?c0 ([] @ [demo_history ! 0]) ?c1"
    by (rule run_next [OF run_start]) (simp_all add: eval)
  have r2: "h3_run alist_http ?c0 (([] @ [demo_history ! 0]) @ [demo_history ! 1]) ?c2"
    by (rule run_next [OF r1]) (simp_all add: eval)
  have r3: "h3_run alist_http ?c0 ((([] @ [demo_history ! 0]) @ [demo_history ! 1]) @ [demo_history ! 2]) ?c3"
    by (rule run_next [OF r2]) (simp_all add: eval)
  have r4: "h3_run alist_http ?c0 (((([] @ [demo_history ! 0]) @ [demo_history ! 1]) @ [demo_history ! 2]) @ [demo_history ! 3]) ?c4"
    by (rule run_next [OF r3]) (simp_all add: eval)
  then have run: "h3_run alist_http ?c0 demo_history ?c4" by (simp add: demo_history_def eval_nat_numeral)
  have "senders demo_history = [7]" "ids_taken demo_history = 4" by (simp_all add: senders_def demo_history_def)
  with h3_responses_matched [OF run] have "\<forall>(tx, res) \<in> set (h3_delivered ?c4). answers alist_http 0 demo_history tx res"
    by simp
  moreover have "map fst (h3_delivered ?c4) = [7]" by (simp add: eval)
  ultimately show ?thesis using run by (intro exI [of _ ?c4] conjI)
qed

text \<open>
  A GOAWAY ends the task, and with it every request that still waits for its response.
\<close>

lemma goaway_ends_run: "fst (run_step api (H3Ev (Core GoAway)) c) = Some (eyre ''goaway'' [])"
  by (simp add: run_step_def handle_event_def)

text \<open>A reset stream stays in the table of streams.\<close>

lemma reset_keeps_stream:
  "handle_event api (Core (ResetStream sid)) c = (Inr (), c') \<Longrightarrow> h3_streams c' = h3_streams c"
  by (auto simp: handle_event_def split: option.splits)

text \<open>A response without \<^verbatim>\<open>:status\<close> is taken for a success.\<close>

lemma missing_status_is_ok:
  "h3_response_to_hyper_response api [] = Inr \<lparr>rs_version = HTTP_3, rs_status = 200, rs_headers = hm_empty api, rs_body = ()\<rparr>"
  by (simp add: h3_response_to_hyper_response_def)

end
