(* ===== verification/Client_Request.thy ===== *)
theory Client_Request
  imports Client_Mod
begin

text \<open>
  Building a request from its arguments (\<^verbatim>\<open>src/client/request.rs\<close>), shared by the HTTP/2,
  the HTTP/3 and the Oblivious HTTP client. The builder of the \<^verbatim>\<open>http\<close> crate keeps the
  first error it meets until \<^verbatim>\<open>body\<close> is called.
\<close>

record 'hm builder_parts =
  bp_method :: bytes
  bp_uri :: uri
  bp_headers :: 'hm

type_synonym 'hm builder = "string + 'hm builder_parts"

definition builder_start :: "'hm http_api \<Rightarrow> bytes \<Rightarrow> uri \<Rightarrow> 'hm builder" where
  "builder_start api m u =
     (case method_from api m of
        None \<Rightarrow> Inl ''invalid HTTP method''
      | Some m \<Rightarrow> Inr \<lparr>bp_method = m, bp_uri = u, bp_headers = hm_empty api\<rparr>)"

definition builder_header :: "'hm http_api \<Rightarrow> 'hm builder \<Rightarrow> bytes \<Rightarrow> bytes \<Rightarrow> 'hm builder" where
  "builder_header api b n v =
     (case b of
        Inl e \<Rightarrow> Inl e
      | Inr p \<Rightarrow>
          (case hm_append api (bp_headers p) n v of
             None \<Rightarrow> Inl ''max size reached''
           | Some h \<Rightarrow> Inr (p\<lparr>bp_headers := h\<rparr>)))"

fun consume_headers :: "'hm http_api \<Rightarrow> 'hm builder \<Rightarrow> bytes list \<Rightarrow> 'hm builder rresult" where
  "consume_headers api b [] = Inr b"
| "consume_headers api b (h # hs) =
     (case split_once [colon] h of
        Some (k, v) \<Rightarrow>
          rbind (wrap_err ''bad header name: {}'' (ok_or_lib ''invalid header name'' (header_name api (trim k)))) (\<lambda>n.
          rbind (wrap_err ''bad header value'' (ok_or_lib ''invalid header value'' (header_value_from_str api (trim v)))) (\<lambda>w.
          consume_headers api (builder_header api b n w) hs))
      | None \<Rightarrow> consume_headers api b hs)"

definition default_port :: "uri \<Rightarrow> u16" where
  "default_port u = (if uri_scheme u = Some (ascii ''https'') then 443 else 80)"

definition build_request ::
  "'hm http_api \<Rightarrow> bytes \<Rightarrow> bytes \<Rightarrow> bytes list \<Rightarrow> bytes option \<Rightarrow> ('hm, http_body) request rresult" where
  "build_request api m url headers b =
     rbind (ok_or_lib ''invalid uri'' (uri_parse api url)) (\<lambda>u.
     rbind (ok_or_eyre ''Target URL must include host'' [] (uri_host api u)) (\<lambda>host.
     let port = (case uri_port_u16 api u of Some p \<Rightarrow> p | None \<Rightarrow> default_port u)
     in if uri_scheme u = None then eyre ''URL must include scheme (http:// or https://)'' []
     else
     rbind (if m = ascii ''CONNECT''
            then ok_or_lib ''invalid uri'' (uri_parse api (host @ colon # show_nat (unat port)))
            else Inr u) (\<lambda>u'.
     rbind (wrap_err ''Failed to consume headers'' (consume_headers api (builder_start api m u') headers)) (\<lambda>builder.
     wrap_err ''Failed to build request''
       (case builder of
          Inl e \<Rightarrow> Inl (Source (Lib e))
        | Inr p \<Rightarrow>
            Inr \<lparr>rq_method = bp_method p, rq_uri = bp_uri p, rq_version = default_version,
                 rq_headers = bp_headers p,
                 rq_body = (case b of Some d \<Rightarrow> Full d | None \<Rightarrow> Empty)\<rparr>)))))"

definition build_request_wrapper :: "'hm http_api \<Rightarrow> request_args \<Rightarrow> ('hm, http_body) request rresult" where
  "build_request_wrapper api a =
     (let build = \<lambda>m. build_request api m (ra_url a) (ra_headers a)
      in case ra_method a of
           Get \<Rightarrow> build (ascii ''GET'') None
         | Post \<Rightarrow> rbind (ok_or_eyre ''POST request requires a body'' [] (ra_body a)) (\<lambda>d. build (ascii ''POST'') (Some d))
         | Put \<Rightarrow> rbind (ok_or_eyre ''PUT request requires a body'' [] (ra_body a)) (\<lambda>d. build (ascii ''PUT'') (Some d))
         | Patch \<Rightarrow> rbind (ok_or_eyre ''PATCH request requires a body'' [] (ra_body a)) (\<lambda>d. build (ascii ''PATCH'') (Some d))
         | Delete \<Rightarrow> build (ascii ''DELETE'') (ra_body a)
         | Head \<Rightarrow> build (ascii ''HEAD'') None)"

subsection \<open>What building a request logs\<close>








subsection \<open>What a built request is\<close>

text \<open>
  The header fields that lines denote: lines without a colon are skipped, a name or value
  that the \<^verbatim>\<open>http\<close> crate refuses has no field.
\<close>

definition line_field :: "'hm http_api \<Rightarrow> bytes \<Rightarrow> (bytes \<times> bytes) option" where
  "line_field api h =
     Option.bind (split_once [colon] h) (\<lambda>(k, v).
       Option.bind (header_name api (trim k)) (\<lambda>n. map_option (Pair n) (header_value_from_str api (trim v))))"

definition lines_fields :: "'hm http_api \<Rightarrow> bytes list \<Rightarrow> (bytes \<times> bytes) list" where
  "lines_fields api hs = List.map_filter (line_field api) hs"

definition good_line :: "'hm http_api \<Rightarrow> bytes \<Rightarrow> bool" where
  "good_line api h \<longleftrightarrow> split_once [colon] h = None \<or> line_field api h \<noteq> None"

lemma lines_fields_Nil [simp]: "lines_fields api [] = []"
  by (simp add: lines_fields_def map_filter_simps)

lemma lines_fields_Cons:
  "lines_fields api (h # hs) = (case line_field api h of None \<Rightarrow> [] | Some f \<Rightarrow> [f]) @ lines_fields api hs"
  by (simp add: lines_fields_def map_filter_simps split: option.split)

context http_crate
begin

lemma consume_headers_good:
  assumes "list_all (good_line api) hs" "length (hm_iter api (bp_headers p)) + length hs \<le> hm_capacity api"
  shows "\<exists>h. consume_headers api (Inr p) hs = Inr (Inr (p\<lparr>bp_headers := h\<rparr>))
    \<and> (\<forall>n. hm_values api h n = hm_values api (bp_headers p) n @ map snd (filter (\<lambda>(m, v). m = n) (lines_fields api hs)))"
  using assms
proof (induction hs arbitrary: p)
  case (Cons l hs)
  show ?case
  proof (cases "line_field api l")
    case None
    then have "split_once [colon] l = None" using Cons.prems by (simp add: good_line_def)
    with None Cons.IH [of p] Cons.prems show ?thesis by (simp add: lines_fields_Cons)
  next
    case (Some f)
    then obtain k v n w where l: "split_once [colon] l = Some (k, v)" "header_name api (trim k) = Some n"
      "header_value_from_str api (trim v) = Some w" "f = (n, w)"
      by (auto simp: line_field_def split: Option.bind_splits)
    have "length (hm_iter api (bp_headers p)) < hm_capacity api" using Cons.prems by simp
    then obtain h where h: "hm_append api (bp_headers p) n w = Some h" using append_room by blast
    have "length (hm_iter api h) + length hs \<le> hm_capacity api"
      using Cons.prems length_iter_append [OF h] by simp
    with Cons.IH [of "p\<lparr>bp_headers := h\<rparr>"] Cons.prems show ?thesis
      by (auto simp: l h Some builder_header_def ok_or_lib_def rbind_def lines_fields_Cons values_append [OF h])
  qed
next
  case (Nil p)
  show ?case by (rule exI [of _ "bp_headers p"]) simp
qed

lemma build_request_good:
  assumes "uri_parse api url = Some u" "uri_host api u \<noteq> None" "uri_scheme u \<noteq> None"
    and "list_all (good_line api) hs" "length hs \<le> hm_capacity api"
    and "m \<noteq> ascii ''CONNECT''" "method_from api m = Some m"
  shows "\<exists>h. build_request api m url hs b
      = Inr \<lparr>rq_method = m, rq_uri = u, rq_version = default_version, rq_headers = h,
          rq_body = (case b of Some d \<Rightarrow> Full d | None \<Rightarrow> Empty)\<rparr>
    \<and> (\<forall>n. hm_values api h n = map snd (filter (\<lambda>(k, v). k = n) (lines_fields api hs)))"
proof -
  let ?p = "\<lparr>bp_method = m, bp_uri = u, bp_headers = hm_empty api\<rparr>"
  obtain host where host: "uri_host api u = Some host" using assms(2) by blast
  have start: "builder_start api m u = Inr ?p" using assms(7) by (simp add: builder_start_def)
  obtain h where "consume_headers api (Inr ?p) hs = Inr (Inr (?p\<lparr>bp_headers := h\<rparr>))"
    "\<forall>n. hm_values api h n = map snd (filter (\<lambda>(k, v). k = n) (lines_fields api hs))"
    using consume_headers_good [of hs ?p] assms(4,5) by (auto simp: iter_empty)
  then show ?thesis
    using assms(1,3,6) host start by (auto simp: build_request_def rbind_def ok_or_lib_def ok_or_eyre_def Let_def)
qed

end

text \<open>Whether a method takes the data it is given.\<close>

definition method_body :: "http_method \<Rightarrow> bytes option \<Rightarrow> http_body option" where
  "method_body m d =
     (if m \<in> {Get, Head} then Some Empty
      else case d of Some d \<Rightarrow> Some (Full d) | None \<Rightarrow> if m = Delete then Some Empty else None)"

context http_crate
begin

lemma build_request_wrapper_good:
  assumes "uri_parse api (ra_url a) = Some u" "uri_host api u \<noteq> None" "uri_scheme u \<noteq> None"
    and "list_all (good_line api) (ra_headers a)" "length (ra_headers a) \<le> hm_capacity api"
    and "method_body (ra_method a) (ra_body a) = Some d"
  shows "\<exists>h. build_request_wrapper api a
      = Inr \<lparr>rq_method = method_as_str (ra_method a), rq_uri = u, rq_version = default_version,
             rq_headers = h, rq_body = d\<rparr>
    \<and> (\<forall>n. hm_values api h n = map snd (filter (\<lambda>(k, v). k = n) (lines_fields api (ra_headers a))))"
proof -
  let ?m = "method_as_str (ra_method a)"
  have m: "?m \<noteq> ascii ''CONNECT''" "method_from api ?m = Some ?m"
    by (cases "ra_method a"; simp add: ascii_def method_standard)+
  have eq: "build_request_wrapper api a = build_request api ?m (ra_url a) (ra_headers a) (case d of Full d \<Rightarrow> Some d | Empty \<Rightarrow> None)"
    using assms(6)
    by (cases "ra_method a"; cases "ra_body a")
      (auto simp: build_request_wrapper_def Let_def method_body_def ok_or_eyre_def rbind_def)
  show ?thesis
    unfolding eq using build_request_good [OF assms(1-5) m, of "case d of Full d \<Rightarrow> Some d | Empty \<Rightarrow> None"]
    by (cases d) auto
qed

end

subsection \<open>What the log does not show\<close>



lemma demo_request_uri:
  "uri_parse alist_http (ascii ''https://a.b/c'') = Some \<lparr>uri_scheme = Some (ascii ''https''),
     uri_authority = Some (ascii ''a.b''), uri_path = ascii ''/c'', uri_query = None\<rparr>"
  by (simp add: alist_http_def split_uri_def split_query_def ascii_def visible_byte_def lower_byte_def starts_with_def)


text \<open>
  C25: arguments that pass validation become the request they describe. If the URL is absolute
  and every header line is well formed (or has no colon and is skipped), the request is built:
  its method and its URI are those of the arguments, its body is the data that the method
  takes, and each header has exactly the values of its lines, in order. In particular the
  check for a missing body never fires.
\<close>

theorem validated_request_built:
  assumes "http_crate api" "validate a = (Inr (), b)"
    and "uri_parse api (arg_url a) = Some u" "uri_host api u \<noteq> None" "uri_scheme u \<noteq> None"
    and "list_all (good_line api) (arg_header b)" "length (arg_header b) \<le> hm_capacity api"
  shows "\<exists>ra req. request_args_try_from b = Inr ra \<and> build_request_wrapper api ra = Inr req
    \<and> rq_method req = method_as_str (effective_method a) \<and> rq_uri req = u
    \<and> rq_body req = (case arg_data a of Some d \<Rightarrow> Full d | None \<Rightarrow> Empty)
    \<and> (\<forall>n. hm_values api (rq_headers req) n = map snd (filter (\<lambda>(k, v). k = n) (lines_fields api (arg_header b))))"
proof -
  have b: "b = setup_args a" and ok: "acceptable a"
    using assms(2) validate_fst [of a] validate_snd [of a] by (metis snd_conv, metis fst_conv)
  obtain ra where ra: "request_args_try_from b = Inr ra" "ra_method ra = effective_method a" "ra_url ra = arg_url a"
      "ra_headers ra = arg_header b" "ra_body ra = arg_data a"
    by (simp add: request_args_try_from_def b Let_def rbind_def ok_or_eyre_def)
  have "method_body (effective_method a) (arg_data a) = Some (case arg_data a of Some d \<Rightarrow> Full d | None \<Rightarrow> Empty)"
    using ok by (cases "effective_method a"; cases "arg_data a") (auto simp: method_body_def acceptable_def)
  with http_crate.build_request_wrapper_good [OF assms(1), of ra u] assms(3-7) ra show ?thesis by auto
qed

theorem validated_request_built_witness:
  "\<exists>ra req. request_args_try_from (snd (validate (default_args\<lparr>arg_url := ascii ''https://a.b/c''\<rparr>))) = Inr ra
     \<and> build_request_wrapper alist_http ra = Inr req \<and> rq_method req = ascii ''GET'' \<and> rq_body req = Empty"
proof -
  let ?a = "default_args\<lparr>arg_url := ascii ''https://a.b/c''\<rparr>"
  have "acceptable ?a" by (simp add: acceptable_def effective_method_def default_args_def)
  then have "fst (validate ?a) = Inr ()" by (simp only: validate_fst)
  then have ok: "validate ?a = (Inr (), snd (validate ?a))" by (metis prod.collapse)
  have hdr: "arg_header (snd (validate ?a)) = [user_agent_header]"
    by (simp add: setup_args_header effective_method_def default_args_def args_contains_def)
  have uri: "uri_parse alist_http (arg_url ?a) = Some \<lparr>uri_scheme = Some (ascii ''https''), uri_authority = Some (ascii ''a.b''),
      uri_path = ascii ''/c'', uri_query = None\<rparr>"
    using demo_request_uri by simp
  have "split_once [colon] user_agent_header = Some (ascii ''User-Agent'', ascii ''pvcli/0.1.0'')"
    "visible (ascii ''User-Agent'')" "visible (ascii ''pvcli/0.1.0'')" "list_all token_byte (ascii ''User-Agent'')"
    "list_all (\<lambda>b. visible_byte b \<and> unat b < 128) (ascii ''pvcli/0.1.0'')"
    by code_simp+
  then have "good_line alist_http user_agent_header"
    by (simp add: good_line_def line_field_def alist_http_def)
  then show ?thesis
    using validated_request_built [OF alist.http_crate_axioms ok uri] unfolding hdr
    by (auto simp: alist_http_def effective_method_def default_args_def)
qed

end
