(* ===== verification/Client_Resolver.thy ===== *)
theory Client_Resolver
  imports Client_Mod
begin

text \<open>
  Name resolution with overrides (\<^verbatim>\<open>src/client/resolver.rs\<close>). The lookup of the system
  and the accessors of the \<^verbatim>\<open>url\<close> crate are parameters.
\<close>

record resolver =
  resolve_overrides :: "bytes \<times> u16 \<rightharpoonup> socket_addr list"

definition resolver_new :: "(bytes \<times> u16 \<rightharpoonup> socket_addr list) \<Rightarrow> resolver" where
  "resolver_new overrides = \<lparr>resolve_overrides = overrides\<rparr>"

definition default_resolver :: resolver where
  "default_resolver = \<lparr>resolve_overrides = Map.empty\<rparr>"

type_synonym 'w lookup = "bytes \<Rightarrow> u16 \<Rightarrow> ('w, socket_addr list) io"

definition resolve :: "'w lookup \<Rightarrow> resolver \<Rightarrow> bytes \<Rightarrow> u16 \<Rightarrow> ('w, socket_addr list) io" where
  "resolve lookup_host r host port =
     (case resolve_overrides r (host, port) of
        Some addresses \<Rightarrow> aret addresses
      | None \<Rightarrow>
          (case resolve_overrides r (ascii ''*'', port) of
             Some addresses \<Rightarrow> aret addresses
           | None \<Rightarrow> lookup_host host port))"

record 'u url_api =
  url_parse :: "bytes \<Rightarrow> 'u option"
  url_host_str :: "'u \<Rightarrow> bytes option"
  url_port_or_known_default :: "'u \<Rightarrow> u16 option"
  url_join :: "'u \<Rightarrow> bytes \<Rightarrow> 'u option"
  url_into_string :: "'u \<Rightarrow> bytes"

definition resolve_url :: "'w lookup \<Rightarrow> 'u url_api \<Rightarrow> resolver \<Rightarrow> 'u \<Rightarrow> ('w, socket_addr list) io" where
  "resolve_url lookup_host uapi r u =
     abind (alift (ok_or_eyre ''No host name in the URL'' [] (url_host_str uapi u))) (\<lambda>host.
       resolve lookup_host r host (case url_port_or_known_default uapi u of Some p \<Rightarrow> p | None \<Rightarrow> 443))"

text \<open>The resolver of the command line: the overrides collected into a map, later ones replacing earlier ones.\<close>

definition resolver_of_args :: "args \<Rightarrow> resolver" where
  "resolver_of_args a =
     resolver_new (foldl (\<lambda>m r. m((ro_host r, ro_port r) \<mapsto> ro_addresses r)) Map.empty (arg_resolve a))"

subsection \<open>Precedence\<close>

text \<open>The last override given for a host and a port.\<close>

definition override_for :: "resolve_override list \<Rightarrow> bytes \<Rightarrow> u16 \<Rightarrow> socket_addr list option" where
  "override_for rs host port =
     map_option ro_addresses (find (\<lambda>r. ro_host r = host \<and> ro_port r = port) (rev rs))"

lemma overrides_collected:
  "foldl (\<lambda>m r. m((ro_host r, ro_port r) \<mapsto> ro_addresses r)) Map.empty rs (host, port) = override_for rs host port"
  by (induction rs rule: rev_induct) (auto simp: override_for_def)

text \<open>
  C34: the overrides of the command line decide the addresses: the last override for exactly
  this host and port, else the last wildcard override for the port, wherever it stands on
  the command line; only without either is the name looked up. With an override the outside
  world is not touched.
\<close>

theorem resolve_precedence:
  "resolve lookup_host (resolver_of_args a) host port w =
     (case override_for (arg_resolve a) host port of
        Some addresses \<Rightarrow> Some (Inr addresses, w)
      | None \<Rightarrow>
          (case override_for (arg_resolve a) (ascii ''*'') port of
             Some addresses \<Rightarrow> Some (Inr addresses, w)
           | None \<Rightarrow> lookup_host host port w))"
  by (simp add: resolve_def resolver_of_args_def resolver_new_def overrides_collected aret_def split: option.split)

text \<open>The default resolver always asks the system.\<close>

lemma resolve_default [simp]: "resolve lookup_host default_resolver = lookup_host"
  by (simp add: fun_eq_iff resolve_def default_resolver_def)

end
