(* ===== verification/Client_Cert.thy ===== *)
theory Client_Cert
  imports Client_Mod
begin

text \<open>
  The TLS settings of a connection (\<^verbatim>\<open>src/client/cert.rs\<close>). The calls of
  \<^verbatim>\<open>boring\<close>, the native certificates and the file system are the parameter
  \<open>ssl_api\<close>; a builder is what was set on it, and every call that can fail has its
  outcome there.
\<close>

datatype trust_store = Unset | CustomStore "bytes list" | SystemStore "bytes list"

record ssl_builder =
  ssl_verify_peer :: bool
  ssl_trust :: trust_store
  ssl_certificate :: "bytes option"
  ssl_private_key :: "bytes option"
  ssl_alpn :: "bytes option"

record ssl_api =
  context_builder_ok :: bool
  connector_builder_ok :: bool
  alpn_protos_ok :: "bytes \<Rightarrow> bool"
  configure_ok :: "ssl_builder \<Rightarrow> bool"
  fs_read :: "bytes \<Rightarrow> bytes option"
  x509_from_pem :: "bytes \<Rightarrow> bytes option"
  x509_from_der :: "bytes \<Rightarrow> bytes option"
  store_builder_new :: "bytes list option"
  store_add_cert :: "bytes list \<Rightarrow> bytes \<Rightarrow> bytes list option"
  verify_cert_store_ok :: "bytes list \<Rightarrow> bool"
  default_verify_paths :: "bytes list option"
  native_certs :: "bytes list"
  certificate_file_ok :: "bytes \<Rightarrow> bool"
  private_key_file_ok :: "bytes \<Rightarrow> bool"

definition ssl_builder_new :: ssl_builder where
  "ssl_builder_new = \<lparr>ssl_verify_peer = False, ssl_trust = Unset, ssl_certificate = None, ssl_private_key = None, ssl_alpn = None\<rparr>"

text \<open>Certificates that do not parse or that the store refuses are skipped.\<close>

definition load_native_certs :: "ssl_api \<Rightarrow> bytes list \<Rightarrow> bytes list" where
  "load_native_certs sapi store =
     foldl (\<lambda>st cert. case store_add_cert sapi st cert of None \<Rightarrow> st | Some st' \<Rightarrow> st')
       store (List.map_filter (x509_from_der sapi) (native_certs sapi))"

definition build_trust :: "ssl_api \<Rightarrow> bytes option \<Rightarrow> ssl_builder \<Rightarrow> ssl_builder rresult" where
  "build_trust sapi cacert_path b =
     (case cacert_path of
        Some path \<Rightarrow>
          rbind (ok_or_lib ''ErrorStack'' (store_builder_new sapi)) (\<lambda>store_builder.
          rbind (wrap_err ''Failed to read proxy CA cert'' (ok_or_lib ''io error'' (fs_read sapi path))) (\<lambda>pem.
          rbind (wrap_err ''Failed to deserialize to PEM-encoded X509 structure'' (ok_or_lib ''ErrorStack'' (x509_from_pem sapi pem))) (\<lambda>ca.
          rbind (wrap_err ''Failed to add CA cert to store'' (ok_or_lib ''ErrorStack'' (store_add_cert sapi store_builder ca))) (\<lambda>store.
          if verify_cert_store_ok sapi store then Inr (b\<lparr>ssl_trust := CustomStore store\<rparr>)
          else wrap_err ''Failed to set custom cert store'' (Inl (Source (Lib ''ErrorStack'')))))))
      | None \<Rightarrow>
          rbind (ok_or_lib ''ErrorStack'' (default_verify_paths sapi)) (\<lambda>store.
          Inr (b\<lparr>ssl_trust := SystemStore (load_native_certs sapi store)\<rparr>)))"

definition build_ssl_context_builder ::
  "ssl_api \<Rightarrow> ssl_builder \<Rightarrow> bytes option \<Rightarrow> bytes option \<Rightarrow> bytes option \<Rightarrow> ssl_builder rresult" where
  "build_ssl_context_builder sapi b cacert_path client_path key_path =
     rbind (build_trust sapi cacert_path (b\<lparr>ssl_verify_peer := True\<rparr>)) (\<lambda>b1.
       case (client_path, key_path) of
         (Some client, Some k) \<Rightarrow>
           if \<not> certificate_file_ok sapi client then Inl (Source (Lib ''ErrorStack''))
           else if \<not> private_key_file_ok sapi k then Inl (Source (Lib ''ErrorStack''))
           else Inr (b1\<lparr>ssl_certificate := Some client, ssl_private_key := Some k\<rparr>)
       | (None, None) \<Rightarrow> Inr b1
       | _ \<Rightarrow> eyre ''Both client certificate and key must be provided for mTLS'' [])"

text \<open>The hook of a QUIC connection: no builder when one cannot be built.\<close>

definition create_custom_ssl_context_builder :: "ssl_api \<Rightarrow> tls_config \<Rightarrow> ssl_builder option" where
  "create_custom_ssl_context_builder sapi cfg =
     (if \<not> context_builder_ok sapi then None
      else case build_ssl_context_builder sapi ssl_builder_new (tls_cacert cfg) (tls_client cfg) (tls_key cfg) of
        Inr b \<Rightarrow> Some b | Inl _ \<Rightarrow> None)"

declare rbind_eq_Inr_iff [simp]

lemma build_trust_verifies: "build_trust sapi ca b = Inr b' \<Longrightarrow> ssl_verify_peer b' = ssl_verify_peer b
    \<and> ssl_certificate b' = ssl_certificate b \<and> ssl_private_key b' = ssl_private_key b \<and> ssl_alpn b' = ssl_alpn b
    \<and> (case ca of None \<Rightarrow> \<exists>st. ssl_trust b' = SystemStore st
       | Some path \<Rightarrow> \<exists>st pem cert. store_builder_new sapi = Some st \<and> fs_read sapi path = Some pem
           \<and> x509_from_pem sapi pem = Some cert \<and> (\<exists>st'. store_add_cert sapi st cert = Some st' \<and> ssl_trust b' = CustomStore st'))"
  by (auto simp: build_trust_def split: option.splits if_splits)

text \<open>
  What a built context enforces: the certificate of the peer is always verified, against the
  given CA alone if there is one; a client certificate is used only together with its key.
\<close>

definition enforces :: "ssl_api \<Rightarrow> tls_config \<Rightarrow> ssl_builder \<Rightarrow> bool" where
  "enforces sapi cfg b \<longleftrightarrow> ssl_verify_peer b
     \<and> (case tls_cacert cfg of None \<Rightarrow> \<exists>st. ssl_trust b = SystemStore st
        | Some path \<Rightarrow> \<exists>st pem cert. store_builder_new sapi = Some st \<and> fs_read sapi path = Some pem
           \<and> x509_from_pem sapi pem = Some cert \<and> (\<exists>st'. store_add_cert sapi st cert = Some st' \<and> ssl_trust b = CustomStore st'))
     \<and> ssl_certificate b = tls_client cfg \<and> ssl_private_key b = tls_key cfg
     \<and> (tls_client cfg = None \<longleftrightarrow> tls_key cfg = None)"

lemma build_ssl_enforces:
  assumes "build_ssl_context_builder sapi b (tls_cacert cfg) (tls_client cfg) (tls_key cfg) = Inr b'"
    and "ssl_certificate b = None" "ssl_private_key b = None"
  shows "enforces sapi cfg b' \<and> ssl_alpn b' = ssl_alpn b"
proof -
  from assms(1) obtain b1 where b1: "build_trust sapi (tls_cacert cfg) (b\<lparr>ssl_verify_peer := True\<rparr>) = Inr b1"
    and b': "(case (tls_client cfg, tls_key cfg) of
         (Some client, Some k) \<Rightarrow>
           if \<not> certificate_file_ok sapi client then Inl (Source (Lib ''ErrorStack''))
           else if \<not> private_key_file_ok sapi k then Inl (Source (Lib ''ErrorStack''))
           else Inr (b1\<lparr>ssl_certificate := Some client, ssl_private_key := Some k\<rparr>)
       | (None, None) \<Rightarrow> Inr b1
       | _ \<Rightarrow> eyre ''Both client certificate and key must be provided for mTLS'' []) = Inr b'"
    unfolding build_ssl_context_builder_def by auto
  from build_trust_verifies [OF b1] b' assms(2,3) show ?thesis
    unfolding enforces_def by (auto split: option.splits if_splits)
qed

end
