(* ===== verification/Http2_Client.thy ===== *)
theory Http2_Client
  imports Client_Request Client_Resolver Client_Cert
begin

text \<open>
  The HTTP/2 client (\<^verbatim>\<open>src/client/http2.rs\<close>), which falls back to HTTP/1.1 and can
  tunnel through a CONNECT proxy. Sockets, TLS sessions, the connections of
  \<^verbatim>\<open>hyper\<close> and the timer are the parameter \<open>net_api\<close>: a byte stream is a value of
  \<open>'c\<close>, the body of a response one of \<open>'b\<close>.
\<close>

datatype 'c http_sender = H1 'c | H2 'c

text \<open>\<^verbatim>\<open>tokio::time::timeout\<close>: the operation in time, or \<^const>\<open>None\<close>.\<close>

type_synonym ('w, 'a) timed = "'w \<Rightarrow> ('a rresult option \<times> 'w) option"

definition timeout_or :: "string \<Rightarrow> ('a rresult \<Rightarrow> 'a rresult) \<Rightarrow> ('w, 'a) timed \<Rightarrow> ('w, 'a) io" where
  "timeout_or msg f m w =
     map_option (\<lambda>(r, w'). (case r of None \<Rightarrow> eyre msg [] | Some x \<Rightarrow> f x, w')) (m w)"

record ('w, 'c, 'b, 'hm) net_api =
  lookup_host :: "'w lookup"
  tcp_connect :: "socket_addr list \<Rightarrow> ('w, 'c) timed"
  tls_connect :: "ssl_builder \<Rightarrow> bytes \<Rightarrow> 'c \<Rightarrow> ('w, 'c \<times> bytes option) io"
  h1_conn_handshake :: "'c \<Rightarrow> ('w, 'c) io"
  h2_conn_handshake :: "'c \<Rightarrow> ('w, 'c) io"
  h1_send_request :: "'c \<Rightarrow> ('hm, http_body) request \<Rightarrow> ('w, ('hm, 'b) response) io"
  h2_send_request :: "'c \<Rightarrow> ('hm, http_body) request \<Rightarrow> ('w, ('hm, 'b) response) io"
  body_collect :: "'b \<Rightarrow> ('w, bytes) io"
  upgrade_on :: "('hm, 'b) response \<Rightarrow> ('w, 'c) timed"

subsection \<open>Sending over a connection\<close>

text \<open>
  The request as HTTP/1.1 sends it: a \<^verbatim>\<open>Host\<close> header, taken from the authority unless
  there is one, and the origin form of the URI.
\<close>

definition h1_host :: "'hm http_api \<Rightarrow> ('hm, http_body) request \<Rightarrow> ('hm, http_body) request rresult" where
  "h1_host api req =
     (if hm_get api (rq_headers req) HOST \<noteq> None then Inr req
      else
        rbind (ok_or_eyre ''Request URI must include authority (host)'' [] (uri_authority (rq_uri req))) (\<lambda>host.
        rbind (ok_or_eyre ''Invalid host header: {e}'' [] (header_value_from_str api host)) (\<lambda>v.
        rbind (hm_insert_or_panic api (rq_headers req) HOST v) (\<lambda>h.
        Inr (req\<lparr>rq_headers := h\<rparr>)))))"

definition h1_origin_form :: "'hm http_api \<Rightarrow> ('hm, http_body) request \<Rightarrow> ('hm, http_body) request rresult" where
  "h1_origin_form api req =
     (case uri_path_and_query api (rq_uri req) of
        None \<Rightarrow> Inr req
      | Some pq \<Rightarrow> rbind (ok_or_lib ''invalid uri'' (uri_parse api pq)) (\<lambda>u. Inr (req\<lparr>rq_uri := u\<rparr>)))"

definition sender_execute_request ::
  "'hm http_api \<Rightarrow> ('w, 'c, 'b, 'hm) net_api \<Rightarrow> 'c http_sender \<Rightarrow> ('hm, http_body) request
    \<Rightarrow> ('w, ('hm, 'b) response) io" where
  "sender_execute_request api net sender req =
     (case sender of
        H1 s \<Rightarrow>
          abind (alift (h1_host api req)) (\<lambda>req1.
          abind (alift (h1_origin_form api req1)) (\<lambda>req2.
          amap_err_eyre ''{e}'' (h1_send_request net s req2)))
      | H2 s \<Rightarrow> amap_err_eyre ''{e}'' (h2_send_request net s req))"

definition http2_execute_request ::
  "'hm http_api \<Rightarrow> ('w, 'c, 'b, 'hm) net_api \<Rightarrow> 'c http_sender \<Rightarrow> ('hm, http_body) request
    \<Rightarrow> ('w, 'hm http_response) io" where
  "http2_execute_request api net sender req =
     abind (amap_err_eyre ''{e}'' (sender_execute_request api net sender req)) (\<lambda>res.
     abind (awrap_err ''Failed to read response body'' (body_collect net (rs_body res))) (\<lambda>d.
     aret \<lparr>hr_version = rs_version res, hr_status = rs_status res, hr_headers = rs_headers res, hr_body = d\<rparr>))"

subsection \<open>Establishing a connection\<close>

definition url_parts :: "'hm http_api \<Rightarrow> bytes \<Rightarrow> (bytes \<times> bytes \<times> u16) rresult" where
  "url_parts api peer =
     rbind (wrap_err ''Failed to parse peer URL'' (ok_or_lib ''invalid uri'' (uri_parse api peer))) (\<lambda>u.
     rbind (ok_or_eyre ''Peer URL must include host'' [] (uri_host api u)) (\<lambda>host.
     rbind (ok_or_eyre ''Peer URL must include scheme (http or https)'' [] (uri_scheme u)) (\<lambda>scheme.
     Inr (scheme, host, case uri_port_u16 api u of Some p \<Rightarrow> p | None \<Rightarrow> default_port u))))"

definition ssl_config_from_tls_config :: "ssl_api \<Rightarrow> tls_config \<Rightarrow> ssl_builder rresult" where
  "ssl_config_from_tls_config sapi cfg =
     (let protos = 2 # ascii ''h2'' @ 8 # ascii ''http/1.1''
      in if \<not> connector_builder_ok sapi then Inl (Source (Lib ''ErrorStack''))
         else if \<not> alpn_protos_ok sapi protos then Inl (Source (Lib ''ErrorStack''))
         else wrap_err ''Failed to build boringSSL context''
                (build_ssl_context_builder sapi (ssl_builder_new\<lparr>ssl_alpn := Some protos\<rparr>)
                   (tls_cacert cfg) (tls_client cfg) (tls_key cfg)))"

definition http2_handshake :: "('w, 'c, 'b, 'hm) net_api \<Rightarrow> 'c \<Rightarrow> ('w, 'c http_sender) io" where
  "http2_handshake net c =
     abind (awrap_err ''HTTP/2 handshake with {}:{} failed'' (h2_conn_handshake net c)) (\<lambda>s. aret (H2 s))"

definition http1_handshake :: "('w, 'c, 'b, 'hm) net_api \<Rightarrow> 'c \<Rightarrow> ('w, 'c http_sender) io" where
  "http1_handshake net c =
     abind (awrap_err ''HTTP/1.1 handshake with {}:{} failed'' (h1_conn_handshake net c)) (\<lambda>s. aret (H1 s))"

definition tls_handshake ::
  "('w, 'c, 'b, 'hm) net_api \<Rightarrow> ssl_api \<Rightarrow> bytes \<Rightarrow> bytes \<Rightarrow> 'c \<Rightarrow> tls_config \<Rightarrow> ('w, 'c http_sender \<times> bytes) io" where
  "tls_handshake net sapi peer host tcp_stream cfg =
     (if starts_with (ascii ''https://'') peer
      then
        abind (alift (ssl_config_from_tls_config sapi cfg)) (\<lambda>ssl_connector.
        abind (alift (if configure_ok sapi ssl_connector then Inr () else Inl (Source (Lib ''ErrorStack'')))) (\<lambda>_.
        abind (amap_err_eyre ''TLS handshake failed: {e}'' (tls_connect net ssl_connector host tcp_stream)) (\<lambda>(connection, alpn).
          if alpn = Some (ascii ''h2'')
          then abind (awrap_err ''Failed http/2 handshake'' (http2_handshake net connection)) (\<lambda>s. aret (s, ascii ''h2''))
          else abind (awrap_err ''Failed http/1.1 handshake'' (http1_handshake net connection)) (\<lambda>s. aret (s, ascii ''http/1.1'')))))
      else
        abind (awrap_err ''Failed http/1.1 handshake'' (http1_handshake net tcp_stream)) (\<lambda>s. aret (s, ascii ''http/1.1'')))"

definition tcp_connection :: "('w, 'c, 'b, 'hm) net_api \<Rightarrow> socket_addr list \<Rightarrow> ('w, 'c) io" where
  "tcp_connection net peer_addresses =
     timeout_or ''TCP connection to {peer_addresses:?} timed out after {REQUEST_TIMEOUT_SECONDS}s''
       (wrap_err ''Failed to connect to any of the candidate addresses: {peer_addresses:?}'')
       (tcp_connect net peer_addresses)"

text \<open>In the message of a refused tunnel the number of the status stands for its display.\<close>

definition http2_connect ::
  "'hm http_api \<Rightarrow> ('w, 'c, 'b, 'hm) net_api \<Rightarrow> 'c http_sender \<Rightarrow> bytes \<Rightarrow> bytes list \<Rightarrow> ('w, 'c) io" where
  "http2_connect api net sender target headers =
     abind (alift (build_request api (ascii ''CONNECT'') target headers None)) (\<lambda>req.
     abind (sender_execute_request api net sender req) (\<lambda>res.
       if rs_status res \<noteq> 200
       then alift (eyre ''CONNECT to {} failed with status: {}'' [target, show_nat (unat (rs_status res))])
       else timeout_or ''CONNECT upgrade to {} timed out after {}s''
              (map_err_eyre ''Failed to upgrade CONNECT connection to {}: {e}'') (upgrade_on net res)))"

definition establish_sender ::
  "'hm http_api \<Rightarrow> ('w, 'c, 'b, 'hm) net_api \<Rightarrow> ssl_api \<Rightarrow> resolver \<Rightarrow> request_args \<Rightarrow> tls_config
    \<Rightarrow> ('w, 'c http_sender) io" where
  "establish_sender api net sapi r a target_cfg =
     (let request_url = (case ra_proxy_connect a of Some p \<Rightarrow> p | None \<Rightarrow> ra_url a);
          cfg = (case ra_proxy_tls_config a of Some t \<Rightarrow> t | None \<Rightarrow> target_cfg)
      in abind (alift (url_parts api request_url)) (\<lambda>(scheme, host, port).
         abind (resolve (lookup_host net) r host port) (\<lambda>addresses.
         if addresses = [] then alift (eyre ''No addresses to connect to'' [])
         else
         abind (tcp_connection net addresses) (\<lambda>tcp_stream.
         abind (awrap_err ''Failed to create HTTP/2 client for proxy connection''
                  (tls_handshake net sapi request_url host tcp_stream cfg)) (\<lambda>(sender, alpn).
         if ra_proxy_connect a \<noteq> None
         then
           abind (alift (url_parts api (ra_url a))) (\<lambda>(_, host2, port2).
           abind (awrap_err ''Failed to establish CONNECT tunnel to target through proxy''
                    (http2_connect api net sender (ra_url a) (ra_proxy_header a))) (\<lambda>tunnel.
           abind (awrap_err ''Failed to handshake target connection through proxy''
                    (tls_handshake net sapi (ra_url a) host2 tunnel target_cfg)) (\<lambda>(sender2, alpn2).
           aret sender2)))
         else aret sender)))))"

record http2_client =
  h2c_resolver :: resolver

definition http2_client_new :: "resolver \<Rightarrow> http2_client" where
  "http2_client_new r = \<lparr>h2c_resolver = r\<rparr>"

definition http2_send_request ::
  "'hm http_api \<Rightarrow> ('w, 'c, 'b, 'hm) net_api \<Rightarrow> ssl_api \<Rightarrow> http2_client \<Rightarrow> request_args \<Rightarrow> tls_config
    \<Rightarrow> ('w, 'hm http_response) io" where
  "http2_send_request api net sapi cl a cfg =
     abind (awrap_err ''Failed to establish connection and get sender for HTTP/2 request''
              (establish_sender api net sapi (h2c_resolver cl) a cfg)) (\<lambda>sender.
     abind (alift (wrap_err ''Failed to create request'' (build_request_wrapper api a))) (\<lambda>req.
     awrap_err ''Failed to execute HTTP/2 request''
       (log_and_execute_request (http2_execute_request api net sender) req)))"

subsection \<open>TLS\<close>

lemma abind_eq_Inr:
  "abind m f s = Some (Inr x, s') \<longleftrightarrow> (\<exists>a s1. m s = Some (Inr a, s1) \<and> f a s1 = Some (Inr x, s'))"
  by (auto simp: abind_def split: Option.bind_splits sum.splits)

lemma alift_eq_Inr [simp]: "alift r s = Some (Inr a, s') \<longleftrightarrow> r = Inr a \<and> s' = s"
  by (auto simp: alift_def)

lemma ssl_config_enforces:
  "ssl_config_from_tls_config sapi cfg = Inr ssl \<Longrightarrow> enforces sapi cfg ssl"
  unfolding ssl_config_from_tls_config_def Let_def
  by (auto simp: ssl_builder_new_def dest!: build_ssl_enforces split: if_splits)

text \<open>
  C26: a connection for a URL that starts with \<^verbatim>\<open>https://\<close> is never used before TLS is
  established: when the handshake yields a sender, a TLS session with the host was set up
  first, with settings that verify the peer's certificate (against the given CA alone, if
  there is one) and carry the client certificate and key exactly if both are given.
\<close>

theorem https_requires_tls:
  assumes "starts_with (ascii ''https://'') peer"
    and "tls_handshake net sapi peer host c cfg w = Some (Inr (sender, alpn), w')"
  shows "\<exists>ssl conn proto w1. enforces sapi cfg ssl \<and> tls_connect net ssl host c w = Some (Inr (conn, proto), w1)
    \<and> (proto = Some (ascii ''h2'') \<and> (\<exists>s. h2_conn_handshake net conn w1 = Some (Inr s, w') \<and> sender = H2 s)
       \<or> proto \<noteq> Some (ascii ''h2'') \<and> (\<exists>s. h1_conn_handshake net conn w1 = Some (Inr s, w') \<and> sender = H1 s))"
proof -
  from assms obtain ssl conn proto w1 where
    ssl: "ssl_config_from_tls_config sapi cfg = Inr ssl" "tls_connect net ssl host c w = Some (Inr (conn, proto), w1)"
    and rest: "(if proto = Some (ascii ''h2'')
          then abind (awrap_err ''Failed http/2 handshake'' (http2_handshake net conn)) (\<lambda>s. aret (s, ascii ''h2''))
          else abind (awrap_err ''Failed http/1.1 handshake'' (http1_handshake net conn)) (\<lambda>s. aret (s, ascii ''http/1.1''))) w1
      = Some (Inr (sender, alpn), w')"
    unfolding tls_handshake_def by (auto simp: abind_eq_Inr)
  from rest have "proto = Some (ascii ''h2'') \<and> (\<exists>s. h2_conn_handshake net conn w1 = Some (Inr s, w') \<and> sender = H2 s)
       \<or> proto \<noteq> Some (ascii ''h2'') \<and> (\<exists>s. h1_conn_handshake net conn w1 = Some (Inr s, w') \<and> sender = H1 s)"
    by (auto simp: abind_eq_Inr http2_handshake_def http1_handshake_def aret_def split: if_splits)
  with ssl ssl_config_enforces show ?thesis by blast
qed

text \<open>A witness: a network whose TLS library negotiates HTTP/2.\<close>

definition demo_net :: "(unit, nat, bytes, (bytes \<times> bytes) list) net_api" where
  "demo_net =
     \<lparr>lookup_host = (\<lambda>_ _. aret []), tcp_connect = (\<lambda>_ w. Some (Some (Inr 1), w)),
      tls_connect = (\<lambda>_ _ c. aret (c + 1, Some (ascii ''h2''))), h1_conn_handshake = aret, h2_conn_handshake = aret,
      h1_send_request = (\<lambda>_ _. aret \<lparr>rs_version = HTTP_11, rs_status = 200, rs_headers = [], rs_body = []\<rparr>),
      h2_send_request = (\<lambda>_ _. aret \<lparr>rs_version = HTTP_2, rs_status = 200, rs_headers = [], rs_body = []\<rparr>),
      body_collect = aret, upgrade_on = (\<lambda>_ w. Some (Some (Inr 1), w))\<rparr>"

definition demo_ssl :: ssl_api where
  "demo_ssl =
     \<lparr>context_builder_ok = True, connector_builder_ok = True, alpn_protos_ok = (\<lambda>_. True), configure_ok = (\<lambda>_. True),
      fs_read = Some, x509_from_pem = Some, x509_from_der = Some, store_builder_new = Some [],
      store_add_cert = (\<lambda>st c. Some (st @ [c])), verify_cert_store_ok = (\<lambda>_. True),
      default_verify_paths = Some [], native_certs = [], certificate_file_ok = (\<lambda>_. True),
      private_key_file_ok = (\<lambda>_. True)\<rparr>"

theorem https_requires_tls_witness:
  "\<exists>ssl conn proto w1. enforces demo_ssl default_tls_config ssl
     \<and> tls_connect demo_net ssl (ascii ''a.b'') 1 () = Some (Inr (conn, proto), w1)"
proof -
  have "tls_handshake demo_net demo_ssl (ascii ''https://'' @ ascii ''a.b'') (ascii ''a.b'') 1 default_tls_config ()
      = Some (Inr (H2 2, ascii ''h2''), ())"
    by (simp add: tls_handshake_def ssl_config_from_tls_config_def build_ssl_context_builder_def build_trust_def
        demo_ssl_def demo_net_def default_tls_config_def ssl_builder_new_def http2_handshake_def load_native_certs_def
        ok_or_lib_def rbind_def abind_def alift_def aret_def awrap_err_def amap_err_eyre_def map_filter_simps)
  from https_requires_tls [OF starts_with_append this] show ?thesis by blast
qed

text \<open>
  Only the lower-case prefix \<^verbatim>\<open>https://\<close> of the URL's text selects TLS. A URL with the
  scheme in another case is parsed to the same scheme and to port 443, but the connection is
  plain HTTP/1.1: the TLS library is never called.
\<close>

lemma other_case_is_sent_in_clear:
  assumes "uri_parse api (ra_url a) = Some u" "uri_scheme u = Some (ascii ''https'')"
    and "uri_host api u = Some h" "uri_port_u16 api u = None"
    and "\<not> starts_with (ascii ''https://'') (ra_url a)" "ra_proxy_connect a = None"
  shows "url_parts api (ra_url a) = Inr (ascii ''https'', h, 443)
    \<and> establish_sender api (net\<lparr>tls_connect := t\<rparr>) sapi r a cfg = establish_sender api net sapi r a cfg"
proof -
  have "url_parts api (ra_url a) = Inr (ascii ''https'', h, 443)"
    using assms(1-4) by (simp add: url_parts_def default_port_def rbind_def ok_or_lib_def ok_or_eyre_def)
  moreover have "tls_handshake (net\<lparr>tls_connect := t\<rparr>) sapi (ra_url a) = tls_handshake net sapi (ra_url a)"
    using assms(5) by (simp add: fun_eq_iff tls_handshake_def http1_handshake_def)
  moreover have "tcp_connection (net\<lparr>tls_connect := t\<rparr>) = tcp_connection net"
    by (simp add: fun_eq_iff tcp_connection_def)
  ultimately show ?thesis using assms(6) by (simp add: establish_sender_def Let_def cong: if_cong)
qed

lemma other_case_is_sent_in_clear_witness:
  "url_parts alist_http (ascii ''HTTPS://a.b/'') = Inr (ascii ''https'', ascii ''a.b'', 443)"
  by (simp add: url_parts_def default_port_def rbind_def ok_or_lib_def ok_or_eyre_def alist_http_def split_uri_def
      split_query_def ascii_def visible_byte_def lower_byte_def starts_with_def)

subsection \<open>What a proxy hides\<close>

lemma lookup_independent:
  "tls_handshake (net\<lparr>lookup_host := l\<rparr>) = tls_handshake net"
  "tcp_connection (net\<lparr>lookup_host := l\<rparr>) = tcp_connection net"
  "http2_connect api (net\<lparr>lookup_host := l\<rparr>) = http2_connect api net"
  by (simp_all add: fun_eq_iff tls_handshake_def http1_handshake_def http2_handshake_def tcp_connection_def
      http2_connect_def sender_execute_request_def cong: if_cong http_sender.case_cong)

text \<open>
  C27: through a CONNECT proxy the name of the target is never looked up: the connection does
  not depend on what the resolver of the system answers for any name but the proxy's.
\<close>

theorem proxy_hides_target_name:
  assumes "ra_proxy_connect a = Some proxy" "url_parts api proxy = Inr (scheme, host, port)"
    and "l host port = l' host port"
  shows "establish_sender api (net\<lparr>lookup_host := l\<rparr>) sapi r a cfg
    = establish_sender api (net\<lparr>lookup_host := l'\<rparr>) sapi r a cfg"
proof -
  have "resolve l r host port = resolve l' r host port" using assms(3) by (simp add: resolve_def split: option.split)
  moreover have "abind (alift (Inr (scheme, host, port))) f = f (scheme, host, port)" for f :: "_ \<Rightarrow> ('a, 'b http_sender) io"
    by (simp add: fun_eq_iff abind_def alift_def)
  ultimately show ?thesis
    using assms(1,2) by (simp add: establish_sender_def Let_def lookup_independent cong: if_cong)
qed

text \<open>A target behind a proxy with an address, and a resolver that never answers for the target.\<close>

definition demo_addr :: socket_addr where
  "demo_addr = \<lparr>sa_ip = V4 [127, 0, 0, 1], sa_port = 443\<rparr>"

theorem proxy_hides_target_name_witness:
  "establish_sender alist_http (demo_net\<lparr>lookup_host := \<lambda>_ _. aret [demo_addr]\<rparr>) demo_ssl default_resolver
     (default_request_args\<lparr>ra_url := ascii ''https://c.d/'', ra_proxy_connect := Some (ascii ''HTTPS://a.b/'')\<rparr>) default_tls_config
   = establish_sender alist_http (demo_net\<lparr>lookup_host := \<lambda>h p. if h = ascii ''a.b'' then aret [demo_addr] else (\<lambda>w. None)\<rparr>) demo_ssl default_resolver
     (default_request_args\<lparr>ra_url := ascii ''https://c.d/'', ra_proxy_connect := Some (ascii ''HTTPS://a.b/'')\<rparr>) default_tls_config"
  by (rule proxy_hides_target_name [OF _ other_case_is_sent_in_clear_witness]) simp_all

subsection \<open>Requests over HTTP/1.1\<close>

text \<open>
  C36: a request sent over HTTP/1.1 names its host and has the origin form: exactly the
  \<^verbatim>\<open>Host\<close> values that the user gave, or else the authority of the URI; all other headers,
  the method and the body are unchanged, and the URI is the path and query alone.
\<close>

theorem h1_request_form:
  assumes "http_crate api" "h1_host api req = Inr req1" "h1_origin_form api req1 = Inr req2"
  shows "rq_method req2 = rq_method req \<and> rq_body req2 = rq_body req
    \<and> (\<forall>n. n \<noteq> HOST \<longrightarrow> hm_values api (rq_headers req2) n = hm_values api (rq_headers req) n)
    \<and> (if hm_values api (rq_headers req) HOST \<noteq> []
       then hm_values api (rq_headers req2) HOST = hm_values api (rq_headers req) HOST
       else \<exists>a. uri_authority (rq_uri req) = Some a \<and> hm_values api (rq_headers req2) HOST = [a])
    \<and> (case uri_path_and_query api (rq_uri req) of
         None \<Rightarrow> rq_uri req2 = rq_uri req | Some pq \<Rightarrow> uri_parse api pq = Some (rq_uri req2))"
proof -
  note get = http_crate.get_first [OF assms(1)]
  note ins = http_crate.insert_values [OF assms(1)]
  have one: "rq_method req1 = rq_method req \<and> rq_body req1 = rq_body req \<and> rq_uri req1 = rq_uri req
    \<and> (\<forall>n. n \<noteq> HOST \<longrightarrow> hm_values api (rq_headers req1) n = hm_values api (rq_headers req) n)
    \<and> (if hm_values api (rq_headers req) HOST \<noteq> []
       then hm_values api (rq_headers req1) HOST = hm_values api (rq_headers req) HOST
       else \<exists>a. uri_authority (rq_uri req) = Some a \<and> hm_values api (rq_headers req1) HOST = [a])"
  proof (cases "hm_values api (rq_headers req) HOST")
    case Nil
    with assms(2) obtain a v h where "uri_authority (rq_uri req) = Some a" "header_value_from_str api a = Some v"
      "hm_insert api (rq_headers req) HOST v = Some h" "req1 = req\<lparr>rq_headers := h\<rparr>"
      by (auto simp: h1_host_def get hm_insert_or_panic_def split: option.splits)
    moreover from this have "v = a" using http_crate.header_value_from_str_same [OF assms(1)] by blast
    ultimately show ?thesis using Nil by (simp add: ins)
  next
    case (Cons v vs)
    with assms(2) show ?thesis by (simp add: h1_host_def get)
  qed
  from assms(3) have "rq_method req2 = rq_method req1 \<and> rq_body req2 = rq_body req1 \<and> rq_headers req2 = rq_headers req1
    \<and> (case uri_path_and_query api (rq_uri req1) of
         None \<Rightarrow> rq_uri req2 = rq_uri req1 | Some pq \<Rightarrow> uri_parse api pq = Some (rq_uri req2))"
    by (auto simp: h1_origin_form_def split: option.splits)
  with one show ?thesis by (auto split: option.splits)
qed

theorem h1_request_form_witness:
  "\<exists>req1. h1_host alist_http \<lparr>rq_method = ascii ''GET'', rq_uri = split_uri (ascii ''https://a.b/c''), rq_version = HTTP_11,
       rq_headers = [], rq_body = Empty\<rparr> = Inr req1 \<and> hm_values alist_http (rq_headers req1) HOST = [ascii ''a.b'']"
proof -
  let ?r = "\<lparr>rq_method = ascii ''GET'', rq_uri = split_uri (ascii ''https://a.b/c''), rq_version = HTTP_11,
       rq_headers = [], rq_body = Empty\<rparr> :: ((bytes \<times> bytes) list, http_body) request"
  have u: "split_uri (ascii ''https://a.b/c'') = \<lparr>uri_scheme = Some (ascii ''https''), uri_authority = Some (ascii ''a.b''),
      uri_path = ascii ''/c'', uri_query = None\<rparr>"
    by (simp add: split_uri_def split_query_def ascii_def lower_byte_def starts_with_def)
  have vis: "list_all (\<lambda>b. visible_byte b \<and> unat b < 128) (ascii ''a.b'')" "list_all visible_byte (ascii ''/c'')"
    by (simp_all add: ascii_def visible_byte_def)
  have h: "h1_host alist_http ?r = Inr (?r\<lparr>rq_headers := [(HOST, ascii ''a.b'')]\<rparr>)"
    by (simp add: h1_host_def u alist_http_def hm_insert_or_panic_def ok_or_eyre_def rbind_def vis)
  obtain req2 where o: "h1_origin_form alist_http (?r\<lparr>rq_headers := [(HOST, ascii ''a.b'')]\<rparr>) = Inr req2"
    by (simp add: h1_origin_form_def u alist_http_def ok_or_lib_def rbind_def vis)
  from h1_request_form [OF alist.http_crate_axioms h o] h show ?thesis by (simp add: hm_values_def alist_http_def)
qed

end
