(* ===== verification/Http3_Client.thy ===== *)
theory Http3_Client
  imports Client_Request Client_Resolver Client_Cert Http3_Connection
begin

text \<open>
  The HTTP/3 client (\<^verbatim>\<open>src/client/http3/mod.rs\<close>): settings, TLS hook, name resolution,
  the UDP socket and the QUIC connection, one request per connection. Sockets and the QUIC
  stack are the parameter \<open>quic_api\<close>; \<open>quic_send_request\<close> is the user-facing end of
  the connection task, whose other end is the theory \<^verbatim>\<open>Http3_Connection\<close>.
\<close>

record quic_settings =
  qs_verify_peer :: bool
  qs_handshake_timeout :: "nat option"

record http3_client =
  h3c_quic_settings :: quic_settings
  h3c_resolver :: resolver

definition REQUEST_TIMEOUT_SECONDS :: nat where
  "REQUEST_TIMEOUT_SECONDS = 10"

definition http3_client_new :: "resolver \<Rightarrow> http3_client" where
  "http3_client_new r =
     \<lparr>h3c_quic_settings = \<lparr>qs_verify_peer = True, qs_handshake_timeout = Some REQUEST_TIMEOUT_SECONDS\<rparr>, h3c_resolver = r\<rparr>"

text \<open>The dummy certificate paths and the hook, present exactly if there is something to configure.\<close>

record connection_params =
  cp_settings :: quic_settings
  cp_dummy_tls :: bool
  cp_hook :: "tls_config option"

definition configure_tls :: "tls_config \<Rightarrow> bool \<times> tls_config option" where
  "configure_tls cfg =
     (if \<not> tls_is_empty cfg
      then (True, Some \<lparr>tls_cacert = tls_cacert cfg, tls_client = tls_client cfg, tls_key = tls_key cfg\<rparr>)
      else (False, None))"

record ('w, 's, 'q, 'hm) quic_api =
  quic_lookup_host :: "'w lookup"
  udp_bind :: "bytes \<Rightarrow> ('w, 's) io"
  udp_connect :: "'s \<Rightarrow> socket_addr \<Rightarrow> ('w, unit) io"
  quic_socket_from :: "'s \<Rightarrow> ('w, 's) io"
  quic_connect :: "'s \<Rightarrow> bytes option \<Rightarrow> connection_params \<Rightarrow> ('w, 'q) io"
  quic_send_request :: "'q \<Rightarrow> ('hm, http_body) request \<Rightarrow> ('w, ('hm, h3_body) response) io"
  quic_shutdown :: "'q \<Rightarrow> ('w, unit) io"

definition bind_addr :: "socket_addr \<Rightarrow> bytes" where
  "bind_addr a = (case sa_ip a of V4 _ \<Rightarrow> ascii ''0.0.0.0:0'' | V6 _ \<Rightarrow> ascii ''[::]:0'')"

definition start_connection ::
  "('w, 's, 'q, 'hm) quic_api \<Rightarrow> 'u url_api \<Rightarrow> http3_client \<Rightarrow> 'u \<Rightarrow> connection_params \<Rightarrow> ('w, 'q) io" where
  "start_connection qapi uapi cl url params =
     abind (awrap_err ''Failed to resolve peer address for {url}''
              (resolve_url (quic_lookup_host qapi) uapi (h3c_resolver cl) url)) (\<lambda>addresses.
     abind (alift (ok_or_eyre ''Resolved {url} to zero addresses'' [] (case addresses of [] \<Rightarrow> None | a # _ \<Rightarrow> Some a))) (\<lambda>peer_addr.
     abind (awrap_err ''Failed to bind UDP socket to {}'' (udp_bind qapi (bind_addr peer_addr))) (\<lambda>sock.
     abind (awrap_err ''Failed to connect UDP socket {} to peer address {}'' (udp_connect qapi sock peer_addr)) (\<lambda>_.
     abind (quic_socket_from qapi sock) (\<lambda>qsock.
     amap_err_eyre ''Failed to connect with QUIC. Are you missing certificates? {e}''
       (quic_connect qapi qsock (url_host_str uapi url) params))))))"

definition new_connection ::
  "('w, 's, 'q, 'hm) quic_api \<Rightarrow> 'u url_api \<Rightarrow> http3_client \<Rightarrow> bytes \<Rightarrow> tls_config \<Rightarrow> ('w, 'q) io" where
  "new_connection qapi uapi cl peer cfg =
     (case configure_tls cfg of (dummy_tls, hook) \<Rightarrow>
        abind (alift (ok_or_lib ''invalid url'' (url_parse uapi peer))) (\<lambda>peer_url.
        awrap_err ''Http3Client failed to start connection to {}''
          (start_connection qapi uapi cl peer_url
             \<lparr>cp_settings = h3c_quic_settings cl, cp_dummy_tls = dummy_tls, cp_hook = hook\<rparr>)))"

text \<open>
  \<^verbatim>\<open>execute\<close>: the body is read to its end with buffers of the given sizes (the growing
  vector of \<^verbatim>\<open>read_to_end\<close>); not reaching the end is not returning. The connection is
  dropped on every path, which sends the shutdown and ignores whether it arrives.
\<close>

definition then_drop :: "('w, unit) io \<Rightarrow> ('w, 'a) io \<Rightarrow> ('w, 'a) io" where
  "then_drop drp m w =
     Option.bind (m w) (\<lambda>(r, w1). map_option (\<lambda>(_, w2). (r, w2)) (drp w1))"

definition http3_execute ::
  "('w, 's, 'q, 'hm) quic_api \<Rightarrow> nat list \<Rightarrow> 'q \<Rightarrow> ('hm, http_body) request \<Rightarrow> ('w, 'hm http_response) io" where
  "http3_execute qapi caps connection req =
     then_drop (quic_shutdown qapi connection)
     (abind (amap_err_eyre ''{e}'' (quic_send_request qapi connection req)) (\<lambda>res.
     abind (case h3_read_to_end caps (rs_body res) of
              (r, True) \<Rightarrow> alift (wrap_err ''Failed to read H3Body'' r)
            | (_, False) \<Rightarrow> (\<lambda>_. None)) (\<lambda>d.
     aret \<lparr>hr_version = rs_version res, hr_status = rs_status res, hr_headers = rs_headers res, hr_body = d\<rparr>)))"

text \<open>A request that cannot be built drops the connection that was made for it.\<close>

definition http3_send_request ::
  "'hm http_api \<Rightarrow> ('w, 's, 'q, 'hm) quic_api \<Rightarrow> 'u url_api \<Rightarrow> nat list \<Rightarrow> http3_client \<Rightarrow> request_args \<Rightarrow> tls_config
    \<Rightarrow> ('w, 'hm http_response) io" where
  "http3_send_request api qapi uapi caps cl a cfg =
     abind (awrap_err ''Failed to establish HTTP/3 connection'' (new_connection qapi uapi cl (ra_url a) cfg)) (\<lambda>connection.
     case wrap_err ''Failed to create request'' (build_request_wrapper api a) of
       Inl e \<Rightarrow> then_drop (quic_shutdown qapi connection) (alift (Inl e))
     | Inr req \<Rightarrow>
         awrap_err ''Failed to execute HTTP/3 request''
           (log_and_execute_request (http3_execute qapi caps connection) req))"

subsection \<open>Properties of the client\<close>

text \<open>Every connection verifies its peer and gives up a handshake after the timeout.\<close>

lemma http3_verifies_peer:
  "qs_verify_peer (h3c_quic_settings (http3_client_new r)) \<and> qs_handshake_timeout (h3c_quic_settings (http3_client_new r)) = Some 10"
  by (simp add: http3_client_new_def REQUEST_TIMEOUT_SECONDS_def)

text \<open>The hook carries the whole configuration, or there is nothing to carry.\<close>

lemma configure_tls_hook:
  "snd (configure_tls cfg) = (if cfg = default_tls_config then None else Some cfg)"
  by (cases cfg) (auto simp: configure_tls_def tls_is_empty_def default_tls_config_def)

text \<open>The body of a response is the content of the frames that the driver delivers on its stream.\<close>

lemma http3_execute_body:
  assumes "quic_send_request qapi q req w = Some (Inr res, w1)" "quic_shutdown qapi q w1 = Some (x, w2)"
    and "rs_body res = h3_body_new sid slots (Some evs) False" "wf_inbound evs"
    and "list_all (\<lambda>c. 0 < c) caps" "length evs + length (frames_content evs) < length caps"
  shows "http3_execute qapi caps q req w = Some (Inr \<lparr>hr_version = rs_version res, hr_status = rs_status res,
    hr_headers = rs_headers res, hr_body = frames_content evs\<rparr>, w2)"
proof -
  have "h3_read_to_end caps (rs_body res) = (Inr (frames_content evs), True)"
    using h3_read_to_end_reads [of "rs_body res" caps] assms(3-6)
    by (simp add: wf_reader_def read_fuel_def to_read_def inbound_def h3_body_new_def)
  with assms(1,2) show ?thesis
    by (simp add: http3_execute_def then_drop_def abind_def amap_err_eyre_def alift_def aret_def)
qed

end
