(* ===== verification/Ohttp_Client.thy ===== *)
theory Ohttp_Client
  imports Http2_Client Http3_Client Bhttp_Roundtrip Hpke_Server
begin

text \<open>
  The Oblivious HTTP client (\<^verbatim>\<open>src/client/ohttp.rs\<close>): it fetches the key configuration of
  the gateway, encodes the request as binary HTTP, encapsulates it for the first key, sends
  it through the relay or the gateway, and decapsulates and decodes the response. The
  transport below it is a \<open>TransportClientKind\<close> (\<^verbatim>\<open>src/client/mod.rs\<close>). The definitions
  take the sending of a request as an argument, so that they can be composed with the
  HTTP/2 and HTTP/3 clients and with a gateway.
\<close>

definition MESSAGE_BHTTP_REQUEST :: bytes where
  "MESSAGE_BHTTP_REQUEST = ascii ''message/bhttp request''"

definition MESSAGE_BHTTP_RESPONSE :: bytes where
  "MESSAGE_BHTTP_RESPONSE = ascii ''message/bhttp response''"

datatype transport_client_kind = TransportHttp2 http2_client | TransportHttp3 http3_client

type_synonym ('w, 'hm) sending = "request_args \<Rightarrow> tls_config \<Rightarrow> ('w, 'hm http_response) io"

definition transport_send_request ::
  "(http2_client \<Rightarrow> ('w, 'hm) sending) \<Rightarrow> (http3_client \<Rightarrow> ('w, 'hm) sending) \<Rightarrow> transport_client_kind \<Rightarrow> ('w, 'hm) sending" where
  "transport_send_request send2 send3 k req cfg =
     (case k of
        TransportHttp2 c \<Rightarrow> awrap_err ''HTTP/2 Client failed to send request'' (send2 c req cfg)
      | TransportHttp3 c \<Rightarrow> awrap_err ''HTTP/3 Client failed to send request'' (send3 c req cfg))"

record ohttp_client =
  oc_proxy_http_client :: transport_client_kind
  oc_proxy_headers :: "bytes list"
  oc_proxy_config_url :: bytes
  oc_proxy_gateway_url :: bytes
  oc_proxy_tls_config :: tls_config
  oc_first_hop_url :: "bytes option"
  oc_first_hop_headers :: "bytes list"
  oc_first_hop_tls_config :: tls_config

definition ohttp_client_new ::
  "bool \<Rightarrow> bytes option \<Rightarrow> bytes \<Rightarrow> bytes \<Rightarrow> bytes list \<Rightarrow> tls_config \<Rightarrow> bytes option \<Rightarrow> bytes list \<Rightarrow> tls_config
    \<Rightarrow> resolver \<Rightarrow> ohttp_client rresult" where
  "ohttp_client_new proxy_http3 proxy_url gateway_path config_path proxy_headers proxy_cfg first_hop_url
       first_hop_headers first_hop_cfg r =
     rbind (ok_or_eyre ''No proxy url (--proxy, -x) provided for ohttp'' [] proxy_url) (\<lambda>purl.
       let p = trim_end_matches slash purl;
           g = trim_start_matches slash gateway_path;
           c = trim_start_matches slash config_path
       in Inr \<lparr>oc_proxy_http_client =
                 (if proxy_http3 then TransportHttp3 (http3_client_new r) else TransportHttp2 (http2_client_new r)),
               oc_proxy_headers = proxy_headers,
               oc_proxy_config_url = p @ slash # c,
               oc_proxy_gateway_url = p @ slash # g,
               oc_proxy_tls_config = proxy_cfg,
               oc_first_hop_url = first_hop_url,
               oc_first_hop_headers = first_hop_headers,
               oc_first_hop_tls_config = first_hop_cfg\<rparr>)"

subsection \<open>Collecting streams\<close>

text \<open>\<^verbatim>\<open>try_collect\<close> and \<^verbatim>\<open>concat\<close>, or \<^verbatim>\<open>collect().to_bytes()\<close>.\<close>

definition collect_stream :: "'e stream \<Rightarrow> (bytes, 'e) result" where
  "collect_stream st = (case stream_tail st of None \<Rightarrow> Inr (stream_bytes st) | Some e \<Rightarrow> Inl e)"

text \<open>
  The body of a built request as a body of \<^verbatim>\<open>http_body\<close>: the parameter \<open>body_of\<close>
  stands for \<^verbatim>\<open>Full\<close> and \<^verbatim>\<open>Empty\<close> of \<^verbatim>\<open>http_body_util\<close>.
\<close>

locale body_util =
  fixes body_of :: "http_body \<Rightarrow> 'e body"
  assumes full_data: "bd_data (body_of (Full d)) = (if d = [] then [] else [Yield (Inr d)])"
    and empty_data: "bd_data (body_of Empty) = []"

text \<open>
  A body of that crate: the data in one piece, and its exact length as the size hint.
\<close>

definition util_body :: "http_body \<Rightarrow> 'e body" where
  "util_body b =
     (case b of
        Full d \<Rightarrow> \<lparr>bd_size_hint = Some (of_nat (length d)), bd_data = (if d = [] then [] else [Yield (Inr d)])\<rparr>
      | Empty \<Rightarrow> \<lparr>bd_size_hint = Some 0, bd_data = []\<rparr>)"

interpretation util: body_util util_body
  by unfold_locales (simp_all add: util_body_def)

definition with_body :: "('hm, 'a) request \<Rightarrow> 'b \<Rightarrow> ('hm, 'b) request" where
  "with_body req b = \<lparr>rq_method = rq_method req, rq_uri = rq_uri req, rq_version = rq_version req,
     rq_headers = rq_headers req, rq_body = b\<rparr>"

subsection \<open>The steps of an exchange\<close>

definition ohttp_fetch_proxy_key ::
  "octets_api \<Rightarrow> 'c hpke_api \<Rightarrow> (bytes \<Rightarrow> bytes) \<Rightarrow> ('w, 'hm) sending \<Rightarrow> ohttp_client
    \<Rightarrow> ('w, encap_config \<times> 'hm http_response) io" where
  "ohttp_fetch_proxy_key oct hp hex_encode send oc =
     abind (awrap_err ''Failed to send request to proxy gateway {}''
              (send (default_request_args\<lparr>ra_method := Get, ra_url := oc_proxy_config_url oc,
                       ra_headers := oc_proxy_headers oc, ra_body := None\<rparr>) (oc_proxy_tls_config oc))) (\<lambda>response.
       if hr_status response \<noteq> 200
       then alift (Inl (Source (UnexpectedStatus (hr_status response)
              ''Fetching OHTTP gateway key at {} returned error {}, use -vvv to debug raw response body''
              [oc_proxy_config_url oc, body_as_string_escaped response])))
       else
       abind (awrap_err ''Failed to decode client config''
                (aopt (map_option fst (decode_config oct hp (stream_buf_from (hr_body response)))))) (\<lambda>client_config.
       abind (alift (first_encap_config client_config)) (\<lambda>encap_config.
       aret (encap_config, response\<lparr>hr_status := 200, hr_body := hex_encode (hr_body response)\<rparr>))))"

definition ohttp_send_outer_request ::
  "('w, 'hm) sending \<Rightarrow> ohttp_client \<Rightarrow> bytes \<Rightarrow> ('w, 'hm http_response) io" where
  "ohttp_send_outer_request send oc encrypted_request =
     (let content_type = ascii ''Content-Type: message/ohttp-req'';
          (outer_request, cfg) =
            (case oc_first_hop_url oc of
               Some first_hop \<Rightarrow>
                 (default_request_args\<lparr>ra_method := Post, ra_url := first_hop,
                    ra_headers := oc_first_hop_headers oc @ [content_type], ra_body := Some encrypted_request\<rparr>,
                  oc_first_hop_tls_config oc)
             | None \<Rightarrow>
                 (default_request_args\<lparr>ra_method := Post, ra_url := oc_proxy_gateway_url oc,
                    ra_headers := oc_proxy_headers oc @ [content_type], ra_body := Some encrypted_request\<rparr>,
                  oc_proxy_tls_config oc))
      in awrap_err ''Failed to execute outer OHTTP request'' (send outer_request cfg))"

definition hpke_to_report :: "'a hresult \<Rightarrow> 'a rresult" where
  "hpke_to_report r =
     (case r of
        Inl (Panicked p) \<Rightarrow> Inl (Panicked p)
      | Inl _ \<Rightarrow> Inl (Source (PvcliHpkeError ''{:?}''))
      | Inr a \<Rightarrow> Inr a)"

definition ohttp_encrypt ::
  "octets_api \<Rightarrow> 'c hpke_api \<Rightarrow> 'hm http_api \<Rightarrow> (http_body \<Rightarrow> report body) \<Rightarrow> bytes \<Rightarrow> request_args \<Rightarrow> encap_config
    \<Rightarrow> (bytes \<times> response_receiving_context) rresult" where
  "ohttp_encrypt oct hp api body_of rng a ec =
     rbind (wrap_err ''Failed to set up request encapsulation, use -vvv to debug raw bytes''
              (hpke_to_report (setup_request_encapsulation oct hp rng ec MESSAGE_BHTTP_REQUEST MESSAGE_BHTTP_RESPONSE)))
       (\<lambda>(rqs, rrc).
     rbind (wrap_err ''Failed to create inner request'' (build_request_wrapper api a)) (\<lambda>inner_request.
     rbind (wrap_err ''Failed to encode inner request''
              (encode_request oct api (with_body inner_request (body_of (rq_body inner_request))))) (\<lambda>bhttp_encoded.
     rbind (wrap_err ''Failed to collect BHTTP encoded request bytes''
              (collect_stream (message_events oct bhttp_encoded))) (\<lambda>bhttp_bytes.
     rbind (request_encapsulate_non_chunked_content oct hp rqs (stream_buf_from bhttp_bytes)) (\<lambda>encapsulated_stream.
     rbind (wrap_err ''Failed to collect encrypted request bytes''
              (collect_stream (encap_events oct (request_seal hp) encapsulated_stream))) (\<lambda>encrypted_request.
     Inr (encrypted_request, rrc)))))))"

definition ohttp_decrypt ::
  "octets_api \<Rightarrow> 'c hpke_api \<Rightarrow> 'hm http_api \<Rightarrow> 'hm http_response \<Rightarrow> response_receiving_context
    \<Rightarrow> ('w, 'hm http_response) io" where
  "ohttp_decrypt oct hp api response rrc =
     (if hr_status response \<noteq> 200
      then alift (Inl (Source (UnexpectedStatus (hr_status response)
             (if hr_status response = 526
              then ''OHTTP Gateway returned error, try disabling WARP or use a different wifi network and try again: {}''
              else if hr_status response = 403
              then ''OHTTP Gateway returned error, check if the endpoint is a relay with a path: {}''
              else ''OHTTP Gateway returned error: {}'')
             [body_as_string_escaped response])))
      else
      abind (awrap_err ''Failed to decapsulate response. This may indicate the relay forwarded to a different gateway than specified by -x''
               (aopt (map_option fst (response_decapsulate_non_chunked_content hp rrc (stream_buf_from (hr_body response)))))) (\<lambda>bhttp.
      abind (awrap_err ''Failed to decode BHTTP response''
               (aopt (map_option (\<lambda>(r, sb). map_sum id (\<lambda>x. (x, sb)) r) (decode_response oct api (stream_buf_from bhttp))))) (\<lambda>(decoded, sb).
      abind (alift (collect_stream (body_events oct \<lparr>body_kind = rs_body decoded, body_buf = sb\<rparr>))) (\<lambda>d.
      aret \<lparr>hr_version = rs_version decoded, hr_status = rs_status decoded, hr_headers = rs_headers decoded, hr_body = d\<rparr>))))"

definition ohttp_send_request ::
  "octets_api \<Rightarrow> 'c hpke_api \<Rightarrow> 'hm http_api \<Rightarrow> (http_body \<Rightarrow> report body) \<Rightarrow> (bytes \<Rightarrow> bytes) \<Rightarrow> bytes
    \<Rightarrow> ('w, 'hm) sending \<Rightarrow> ohttp_client \<Rightarrow> request_args \<Rightarrow> ('w, 'hm http_response) io" where
  "ohttp_send_request oct hp api body_of hex_encode rng send oc a =
     abind (awrap_err ''Failed to fetch OHTTP proxy key'' (ohttp_fetch_proxy_key oct hp hex_encode send oc)) (\<lambda>(encap_config, key_response).
     abind (awrap_err ''Failed to encrypt inner request'' (alift (ohttp_encrypt oct hp api body_of rng a encap_config))) (\<lambda>(d, rrc).
     abind (awrap_err ''Failed to send outer request'' (ohttp_send_outer_request send oc d)) (\<lambda>response.
     awrap_err ''Failed to decrypt response'' (ohttp_decrypt oct hp api response rrc))))"

end
