(* ===== verification/Gateway_Worker.thy ===== *)
theory Gateway_Worker
  imports Bhttp_Roundtrip Hpke_Server Client_Base
begin

text \<open>
  The gateway worker (\<^verbatim>\<open>crates/ohttp-gateway-worker/src/lib.rs\<close>): it publishes its key
  configuration and answers encapsulated requests by fetching from the origin. The platform
  of the worker is a parameter: \<open>request_to_wasm\<close> turns a request into a request of the
  Fetch API (a value of \<open>'j\<close>) and \<open>worker_fetch\<close> performs it. The errors of the
  worker are reports.
\<close>

definition GATEWAY_BHTTP_REQUEST :: bytes where "GATEWAY_BHTTP_REQUEST = ascii ''message/bhttp request''"
definition GATEWAY_BHTTP_RESPONSE :: bytes where "GATEWAY_BHTTP_RESPONSE = ascii ''message/bhttp response''"
definition MESSAGE_BHTTP_CHUNKED_REQUEST :: bytes where
  "MESSAGE_BHTTP_CHUNKED_REQUEST = ascii ''message/bhttp chunked request''"
definition MESSAGE_BHTTP_CHUNKED_RESPONSE :: bytes where
  "MESSAGE_BHTTP_CHUNKED_RESPONSE = ascii ''message/bhttp chunked response''"

definition CONTENT_TYPE :: bytes where
  "CONTENT_TYPE = ascii ''content-type''"

datatype gateway_req_kind = OhttpReq | OhttpChunkedReq

definition gateway_from_req :: "'hm http_api \<Rightarrow> ('hm, 'b) request \<Rightarrow> gateway_req_kind option" where
  "gateway_from_req api req =
     (if rq_method req \<noteq> ascii ''POST'' then None
      else Option.bind (hm_get api (rq_headers req) CONTENT_TYPE) (\<lambda>content_type.
        if content_type = ascii ''message/ohttp-req'' then Some OhttpReq
        else if content_type = ascii ''message/ohttp-chunked-req'' then Some OhttpChunkedReq
        else None))"

primrec response_content_type :: "gateway_req_kind \<Rightarrow> bytes" where
  "response_content_type OhttpReq = ascii ''message/ohttp-res''"
| "response_content_type OhttpChunkedReq = ascii ''message/ohttp-chunked-res''"

subsection \<open>The inner request\<close>

definition extract_receiving_hpke_context ::
  "octets_api \<Rightarrow> 'c hpke_api \<Rightarrow> server_config \<Rightarrow> gateway_req_kind
    \<Rightarrow> (report stream_buf, 'c request_receiving_context \<times> response_sending_context, report) async" where
  "extract_receiving_hpke_context oct hp hpke_config req_kind =
     (case req_kind of
        OhttpReq \<Rightarrow> decode_request_header oct hp hpke_config GATEWAY_BHTTP_REQUEST GATEWAY_BHTTP_RESPONSE
      | OhttpChunkedReq \<Rightarrow>
          decode_request_header oct hp hpke_config MESSAGE_BHTTP_CHUNKED_REQUEST MESSAGE_BHTTP_CHUNKED_RESPONSE)"

text \<open>
  The request that is handed to \<^verbatim>\<open>request_to_wasm\<close>: a GET or HEAD request loses its
  body. The body of a decoded request is the stream of its frames.
\<close>

definition to_wasm ::
  "octets_api \<Rightarrow> (('hm, report stream) request \<Rightarrow> 'j rresult) \<Rightarrow> ('hm, decoded_body_kind) request \<Rightarrow> report stream_buf
    \<Rightarrow> 'j rresult" where
  "to_wasm oct request_to_wasm req sb =
     (let parts = \<lambda>b. \<lparr>rq_method = rq_method req, rq_uri = rq_uri req, rq_version = rq_version req,
                       rq_headers = rq_headers req, rq_body = b\<rparr>
      in if rq_method req = ascii ''GET'' \<or> rq_method req = ascii ''HEAD''
         then request_to_wasm (parts [])
         else request_to_wasm (parts (body_events oct \<lparr>body_kind = rq_body req, body_buf = sb\<rparr>)))"

text \<open>
  \<^verbatim>\<open>InfallibleType\<close>: whatever error the decoding of an opened request ends with becomes
  \<^verbatim>\<open>worker::Error::Infallible\<close>.
\<close>

definition infallible :: "'a rresult \<Rightarrow> 'a rresult" where
  "infallible r =
     (case r of Inl (Panicked p) \<Rightarrow> Inl (Panicked p) | Inl _ \<Rightarrow> Inl (Source (Lib ''Infallible'')) | Inr a \<Rightarrow> Inr a)"

definition convert_hpke_bhttp_stream_into_request ::
  "octets_api \<Rightarrow> 'c hpke_api \<Rightarrow> 'hm http_api \<Rightarrow> (('hm, report stream) request \<Rightarrow> 'j rresult)
    \<Rightarrow> 'c request_receiving_context \<Rightarrow> gateway_req_kind \<Rightarrow> report stream_buf \<Rightarrow> 'j rresult option" where
  "convert_hpke_bhttp_stream_into_request oct hp api request_to_wasm rrq req_kind sb =
     (case req_kind of
        OhttpReq \<Rightarrow>
          Option.bind (request_decapsulate_non_chunked_content hp rrq sb) (\<lambda>(r, _).
            case r of
              Inl e \<Rightarrow> Some (Inl e)
            | Inr bhttp_req_bytes \<Rightarrow>
                map_option (\<lambda>(r, sb'). rbind (infallible r) (\<lambda>req. to_wasm oct request_to_wasm req sb'))
                  (decode_request oct api (stream_buf_from bhttp_req_bytes)))
      | OhttpChunkedReq \<Rightarrow>
          map_option (\<lambda>(r, sb'). rbind r (\<lambda>req. to_wasm oct request_to_wasm req sb'))
            (decode_request oct api
              (new_stream_buf (decap_events oct (request_open hp (rrq_aead rrq)) (request_decapsulate_chunked_content rrq sb)))))"

definition get_inner_oblivious_gateway_request ::
  "octets_api \<Rightarrow> 'c hpke_api \<Rightarrow> 'hm http_api \<Rightarrow> (('hm, report stream) request \<Rightarrow> 'j rresult)
    \<Rightarrow> report stream \<Rightarrow> gateway_req_kind \<Rightarrow> server_config \<Rightarrow> ('j \<times> response_sending_context) rresult option" where
  "get_inner_oblivious_gateway_request oct hp api request_to_wasm req_body req_kind hpke_config =
     Option.bind (extract_receiving_hpke_context oct hp hpke_config req_kind (new_stream_buf req_body)) (\<lambda>(r, sb).
       case r of
         Inl e \<Rightarrow> Some (Inl e)
       | Inr (rrq, rsc) \<Rightarrow>
           map_option (\<lambda>r. rbind r (\<lambda>inner_req. Inr (inner_req, rsc)))
             (convert_hpke_bhttp_stream_into_request oct hp api request_to_wasm rrq req_kind sb))"

subsection \<open>The response\<close>

text \<open>Of the response of the origin only the body is kept.\<close>

definition fetch_with_request ::
  "('j \<Rightarrow> ('w, ('hm, report body option) response) io) \<Rightarrow> 'j \<Rightarrow> ('w, report body) io" where
  "fetch_with_request worker_fetch req =
     abind (worker_fetch req) (\<lambda>edge_response. alift (ok_or_lib ''BodyUsed'' (rs_body edge_response)))"

text \<open>\<^verbatim>\<open>http::Response::new\<close>.\<close>

definition http_response_new :: "'hm http_api \<Rightarrow> 'b \<Rightarrow> ('hm, 'b) response" where
  "http_response_new api b = \<lparr>rs_version = default_version, rs_status = 200, rs_headers = hm_empty api, rs_body = b\<rparr>"

record gateway_req_ext =
  gre_req_kind :: gateway_req_kind
  gre_response_sending_context :: response_sending_context

definition wrap_inner_oblivious_gateway_response ::
  "octets_api \<Rightarrow> 'c hpke_api \<Rightarrow> 'hm http_api \<Rightarrow> (nat \<Rightarrow> bytes) \<Rightarrow> ('hm, report body) response \<Rightarrow> gateway_req_ext
    \<Rightarrow> ('hm, report stream) response rresult" where
  "wrap_inner_oblivious_gateway_response oct hp api random inner_res req_ext =
     rbind (encode_response oct api inner_res) (\<lambda>binary_encoded_res.
       let encoded_res_stream = new_stream_buf (message_events oct binary_encoded_res)
       in rbind (case gre_req_kind req_ext of
                   OhttpReq \<Rightarrow> response_encapsulate_non_chunked_content hp random (gre_response_sending_context req_ext) encoded_res_stream
                 | OhttpChunkedReq \<Rightarrow> response_encapsulate_chunked_content hp random (gre_response_sending_context req_ext) encoded_res_stream)
            (\<lambda>encapsulated. Inr (http_response_new api (encap_events oct (context_seal hp) encapsulated))))"

definition gateway_seed :: bytes where
  "gateway_seed = ascii ''abcdefghijklmnopqrstuvwxyz012345''"

text \<open>The result of \<^verbatim>\<open>add_key_config\<close> is unwrapped.\<close>

definition get_hpke_config :: "'c hpke_api \<Rightarrow> server_config rresult" where
  "get_hpke_config hp =
     (case add_key_config (derive_key_pair hp X25519HkdfSha256 gateway_seed) [(HkdfSha256, AesGcm128)] default_server_config of
        (Inl _, _) \<Rightarrow> Inl (Panicked ''called `Result::unwrap()` on an `Err` value'')
      | (Inr _, server_config) \<Rightarrow> Inr server_config)"

definition gateway_fetch ::
  "octets_api \<Rightarrow> 'c hpke_api \<Rightarrow> 'hm http_api \<Rightarrow> (nat \<Rightarrow> bytes) \<Rightarrow> (('hm, report stream) request \<Rightarrow> 'j rresult)
    \<Rightarrow> ('j \<Rightarrow> ('w, ('hm, report body option) response) io) \<Rightarrow> ('hm, report stream) request
    \<Rightarrow> ('w, ('hm, report stream) response) io" where
  "gateway_fetch oct hp api random request_to_wasm worker_fetch req =
     abind (alift (get_hpke_config hp)) (\<lambda>server_config.
         if uri_path (rq_uri req) = ascii ''/gateway''
         then
           abind (alift (ok_or_eyre ''not a gateway request'' [] (gateway_from_req api req))) (\<lambda>kind.
           abind (aopt (get_inner_oblivious_gateway_request oct hp api request_to_wasm (rq_body req) kind server_config))
             (\<lambda>(web_request, sending_context).
           abind (fetch_with_request worker_fetch web_request) (\<lambda>unencapsulated_response.
           abind (alift (wrap_inner_oblivious_gateway_response oct hp api random (http_response_new api unencapsulated_response)
                    \<lparr>gre_req_kind = kind, gre_response_sending_context = sending_context\<rparr>)) (\<lambda>encapsulated_response.
           abind (alift (hm_insert_or_panic api (rs_headers encapsulated_response) CONTENT_TYPE (response_content_type kind))) (\<lambda>h.
           aret (encapsulated_response\<lparr>rs_status := 200, rs_headers := h\<rparr>))))))
         else if uri_path (rq_uri req) = ascii ''/ohttp-config''
         then
           abind (alift (ok_or_lib ''invalid header'' (hm_insert api (hm_empty api) CONTENT_TYPE (ascii ''application/ohttp-keys'')))) (\<lambda>h.
           abind (alift (encode_config oct hp server_config)) (\<lambda>d.
           aret \<lparr>rs_version = default_version, rs_status = 200, rs_headers = h, rs_body = [Yield (Inr d)]\<rparr>))
         else aret (http_response_new api []))"

subsection \<open>The error of a malformed request\<close>

text \<open>
  Decoding an opened request can fail: one whose framing indicator is not that of a request is
  answered with the error that is called infallible.
\<close>

lemma malformed_request_infallible:
  assumes "request_decapsulate_non_chunked_content hp rrq sb = Some (Inr d, sb1)"
    and "decode_request oct api (stream_buf_from d :: report stream_buf) = Some (Inl (FromIo e), sb2)"
  shows "convert_hpke_bhttp_stream_into_request oct hp api request_to_wasm rrq OhttpReq sb
    = Some (Inl (Source (Lib ''Infallible'')))"
  using assms by (simp add: convert_hpke_bhttp_stream_into_request_def infallible_def)

end
