(* ===== verification/Ohttp_Exchange.thy ===== *)
theory Ohttp_Exchange
  imports Ohttp_Client Gateway_Worker
begin

text \<open>
  The Oblivious HTTP client and the gateway worker together. \<open>ideal_transport\<close> is a
  network that delivers requests and responses unchanged: it builds the request of the
  transport client, lets a handler answer it and collects the response. The body of a
  request arrives as some stream of its bytes. The theorem of this theory follows one
  request from the arguments of the client to the origin and the response back.
\<close>

definition ideal_transport ::
  "'hm http_api \<Rightarrow> (bytes \<Rightarrow> report stream) \<Rightarrow> (('hm, report stream) request \<Rightarrow> ('w, ('hm, report stream) response) io)
    \<Rightarrow> ('w, 'hm) sending" where
  "ideal_transport api arrive handler a cfg =
     abind (alift (build_request_wrapper api a)) (\<lambda>req.
     abind (handler (with_body req (arrive (case rq_body req of Full d \<Rightarrow> d | Empty \<Rightarrow> [])))) (\<lambda>res.
     abind (alift (collect_stream (rs_body res))) (\<lambda>d.
     aret \<lparr>hr_version = rs_version res, hr_status = rs_status res, hr_headers = rs_headers res, hr_body = d\<rparr>)))"

text \<open>A stream of the bytes of a body, within the limit of the receiving buffer.\<close>

definition arrives :: "(bytes \<Rightarrow> report stream) \<Rightarrow> bool" where
  "arrives arrive \<longleftrightarrow> (\<forall>bs. stream_bytes (arrive bs) = bs \<and> stream_tail (arrive bs) = None \<and> no_empty_chunks (arrive bs))"

text \<open>
  The ciphers accept messages of up to \<open>n\<close> bytes: a fresh HPKE context seals one, and so
  does the AEAD.
\<close>

definition ciphers_accept :: "'c hpke_api \<Rightarrow> nat \<Rightarrow> bool" where
  "ciphers_accept hp n \<longleftrightarrow>
     (\<forall>k d a pk info rng enc c pt. setup_sender hp k d a pk info rng = Inr (enc, c) \<longrightarrow> length pt \<le> n
        \<longrightarrow> (\<exists>ct tag c'. ctx_seal hp c pt [] = (Inr (ct, tag), c')))
     \<and> (\<forall>a key nonce aad pt. length pt \<le> n \<longrightarrow> aead_encrypt hp a key nonce aad pt \<noteq> None)"

text \<open>What the origin has to see of a request: everything, but no body of a GET or HEAD.\<close>

definition seen_as :: "'hm http_api \<Rightarrow> ('hm, 'e body) request \<Rightarrow> ('hm, report stream) request \<Rightarrow> bool" where
  "seen_as api req r \<longleftrightarrow> rq_method r = rq_method req \<and> rq_uri r = rq_uri req
     \<and> same_headers api (rq_headers r) (rq_headers req)
     \<and> stream_bytes (rq_body r) = (if rq_method req = ascii ''GET'' \<or> rq_method req = ascii ''HEAD'' then []
                                    else stream_bytes (bd_data (rq_body req)))
     \<and> stream_tail (rq_body r) = None"

text \<open>A URL of the gateway: absolute, with the path that the worker dispatches on.\<close>

definition gateway_url :: "'hm http_api \<Rightarrow> bytes \<Rightarrow> bytes \<Rightarrow> bool" where
  "gateway_url api url path \<longleftrightarrow>
     (\<exists>u. uri_parse api url = Some u \<and> uri_host api u \<noteq> None \<and> uri_scheme u \<noteq> None \<and> uri_path u = path)"

text \<open>A client that talks to the gateway itself, with headers that leave the content type to the client.\<close>

definition gateway_client :: "'hm http_api \<Rightarrow> ohttp_client \<Rightarrow> bool" where
  "gateway_client api oc \<longleftrightarrow> oc_first_hop_url oc = None
     \<and> gateway_url api (oc_proxy_config_url oc) (ascii ''/ohttp-config'')
     \<and> gateway_url api (oc_proxy_gateway_url oc) (ascii ''/gateway'')
     \<and> list_all (good_line api) (oc_proxy_headers oc) \<and> length (oc_proxy_headers oc) < hm_capacity api
     \<and> CONTENT_TYPE \<notin> fst ` set (lines_fields api (oc_proxy_headers oc))"

lemma collect_stream_Inr [simp]: "collect_stream st = Inr d \<longleftrightarrow> stream_tail st = None \<and> d = stream_bytes st"
  by (auto simp: collect_stream_def split: option.splits)

lemma content_tail: "stream_tail (content_events oct kind st) = stream_tail st"
  by (induction oct kind st rule: content_events.induct) (simp_all split: encoded_message_kind.splits)

locale exchange = ohttp oct hp paired + http_crate api
  for oct :: octets_api and hp :: "'c hpke_api" and paired :: "aead_id \<Rightarrow> 'c \<Rightarrow> 'c \<Rightarrow> bool" and api :: "'hm http_api"

sublocale exchange \<subseteq> bhttp oct api ..

context exchange
begin

subsection \<open>The key configuration\<close>

lemma get_hpke_config_total:
  "\<exists>sc. get_hpke_config hp = Inr sc \<and> wf_server_config hp sc \<and> sc_key_configs sc \<noteq> []"
proof -
  let ?kp = "derive_key_pair hp X25519HkdfSha256 gateway_seed"
  let ?r = "add_key_config ?kp [(HkdfSha256, AesGcm128)] default_server_config"
  have kp: "wf_key_pair hp ?kp" by (rule wf_derive_key_pair)
  then have "length (pk_bytes (kp_public_key ?kp)) < 2 ^ 10"
    using public_key_size_small [of "pk_kem_id (kp_public_key ?kp)"] sk_to_pk_size
    by (auto simp: wf_key_pair_def)
  then have "fst ?r = Inr () \<and> sc_key_configs (snd ?r) \<noteq> []"
    by (simp add: add_key_config_def default_server_config_def Let_def key_config_encoded_len_def)
  moreover have "wf_server_config hp (snd ?r)" by (intro wf_add_key_config wf_default_server_config kp)
  ultimately show ?thesis by (auto simp: get_hpke_config_def split: prod.splits)
qed

text \<open>The configuration that the gateway publishes is decoded to a configuration it offers.\<close>

lemma published_config:
  assumes "get_hpke_config hp = Inr sc" "encode_config oct hp sc = (Inr bs :: bytes rresult)"
  shows "\<exists>cc sb ec. decode_config oct hp (stream_buf_from bs :: report stream_buf) = Some (Inr cc, sb)
    \<and> first_encap_config cc = (Inr ec :: encap_config rresult) \<and> offered sc ec"
proof -
  from get_hpke_config_total assms(1) have sc: "wf_server_config hp sc" "sc_key_configs sc \<noteq> []" by auto
  from decode_encoded_config [OF sc, of "stream_buf_from bs"] assms(2)
  obtain sb where dec: "decode_config oct hp (stream_buf_from bs :: report stream_buf)
      = Some (Inr \<lparr>cc_key_configs = map public_config (sc_key_configs sc)\<rparr>, sb)"
    by (auto simp: encode_config_bytes)
  have "\<exists>ec. first_encap_config \<lparr>cc_key_configs = map public_config (sc_key_configs sc)\<rparr> = (Inr ec :: encap_config rresult)"
    using decode_config_usable [OF dec] by (auto simp: first_encap_config_def split: list.splits)
  then obtain ec where
    ec: "first_encap_config \<lparr>cc_key_configs = map public_config (sc_key_configs sc)\<rparr> = (Inr ec :: encap_config rresult)" by blast
  with first_config_offered [OF ec] dec show ?thesis by auto
qed

subsection \<open>The request\<close>

lemma encrypted_request:
  assumes "ciphers_accept hp n"
    and "setup_request_encapsulation oct hp rng ec MESSAGE_BHTTP_REQUEST MESSAGE_BHTTP_RESPONSE = Inr (rqs, rrc)"
    and "build_request_wrapper api a = Inr req" "req0 = with_body req (body_of (rq_body req))"
    and "valid_request oct api req0" "stream_fits oct (bd_data (rq_body req0))" "stream_tail (bd_data (rq_body req0)) = None"
    and "encode_request oct api req0 = Inr m" "length (stream_bytes (message_events oct m)) \<le> n"
  shows "stream_tail (message_events oct m) = None"
    and "\<exists>en ct tag s'. request_seal hp (rqs_sealer rqs) (stream_bytes (message_events oct m)) [] = (Inr (ct, tag), s')
      \<and> request_encapsulate_non_chunked_content oct hp rqs (stream_buf_from (stream_bytes (message_events oct m)) :: report stream_buf) = Inr en
      \<and> stream_tail (encap_events oct (request_seal hp) en) = None
      \<and> ohttp_encrypt oct hp api body_of rng a ec = Inr (stream_bytes (encap_events oct (request_seal hp) en), rrc)"
proof -
  let ?sb = "stream_buf_from (stream_bytes (message_events oct m)) :: report stream_buf"
  let ?en = "encap_non_chunked (rqs_sealer rqs) (header_bytes oct hp (rqs_encap_header rqs) @ rqs_encapped_key rqs) ?sb"
  from encode_valid_request [OF assms(5,6)] assms(8)
  have ev: "message_events oct m = Yield (Inr (request_head_bytes oct api req0 (the (uri_scheme (rq_uri req0)))))
      # content_events oct EncodedIndeterminateLength (bd_data (rq_body req0))" by (metis sum.inject(2))
  show tail: "stream_tail (message_events oct m) = None"
    unfolding ev using assms(7) by (simp add: content_tail)
  from setup_request_encapsulation_cases [OF assms(2)] obtain enc c where
    "setup_sender hp (pk_kem_id (ec_public_key ec)) (ec_kdf_id ec) (ec_aead_id ec) (pk_bytes (ec_public_key ec))
       (info_bytes oct hp (config_header ec) MESSAGE_BHTTP_REQUEST) rng = Inr (enc, c)" "rqs_sealer rqs = c"
    by (metis request_sending_context.select_convs(1))
  with assms(1,9) obtain ct tag c' where "ctx_seal hp (rqs_sealer rqs) (stream_bytes (message_events oct m)) [] = (Inr (ct, tag), c')"
    unfolding ciphers_accept_def by blast
  then have seal: "request_seal hp (rqs_sealer rqs) (avail ?sb) [] = (Inr (ct, tag), c')" by (simp add: request_seal_def)
  have en: "request_encapsulate_non_chunked_content oct hp rqs ?sb = Inr ?en"
    unfolding request_encapsulate_non_chunked_content_def encode_initial_chunk_bytes by (simp add: rbind_def)
  have en_tail: "stream_tail (encap_events oct (request_seal hp) ?en) = None"
    by (rule encap_events_non_chunked(2) [where seal = "request_seal hp", OF _ seal]) simp
  have "ohttp_encrypt oct hp api body_of rng a ec = Inr (stream_bytes (encap_events oct (request_seal hp) ?en), rrc)"
    using assms(2,3,8) tail en en_tail
    by (simp add: ohttp_encrypt_def hpke_to_report_def assms(4) [symmetric] rbind_def collect_stream_def)
  with seal en en_tail
  show "\<exists>en ct tag s'. request_seal hp (rqs_sealer rqs) (stream_bytes (message_events oct m)) [] = (Inr (ct, tag), s')
      \<and> request_encapsulate_non_chunked_content oct hp rqs ?sb = Inr en
      \<and> stream_tail (encap_events oct (request_seal hp) en) = None
      \<and> ohttp_encrypt oct hp api body_of rng a ec = Inr (stream_bytes (encap_events oct (request_seal hp) en), rrc)" by auto
qed

text \<open>The encapsulated request is its content with a header, the encapsulated key and a tag.\<close>

lemma encrypted_length:
  assumes sc: "wf_server_config hp sc" "offered sc ec"
    and set: "setup_request_encapsulation oct hp rng ec rq rs = Inr (rqs, rrc)"
    and en: "request_seal hp (rqs_sealer rqs) pt [] = (Inr (ct, tag), s')"
      "request_encapsulate_non_chunked_content oct hp rqs (stream_buf_from pt :: report stream_buf) = Inr en"
  shows "length (stream_bytes (encap_events oct (request_seal hp) en))
    = header_encoded_len + encapped_key_size hp (pk_kem_id (ec_public_key ec)) + length pt + tag_size hp (ec_aead_id ec)"
proof -
  let ?kp = "offered_pair sc ec"
  from set obtain enc s where s: "setup_sender hp (pk_kem_id (ec_public_key ec)) (ec_kdf_id ec) (ec_aead_id ec)
      (pk_bytes (ec_public_key ec)) (info_bytes oct hp (config_header ec) rq) rng = Inr (enc, s)"
    "rqs_sealer rqs = s" "rqs_encapped_key rqs = enc"
    by (rule setup_request_encapsulation_cases) auto
  have "sk_to_pk hp (pk_kem_id (ec_public_key ec)) (kp_private_key ?kp) = Inr (pk_bytes (ec_public_key ec))"
    using offered_key_pair [OF sc] by (simp add: wf_key_pair_def)
  with setup_pair [OF s(1)] obtain r where enc: "length enc = encapped_key_size hp (pk_kem_id (ec_public_key ec))"
    and pair: "paired (ec_aead_id ec) s r" by blast
  have "ctx_seal hp s pt [] = (Inr (ct, tag), s')" using en(1) s(2) by (auto simp: request_seal_def map_sum_def split: prod.splits sum.splits)
  from seal_open [OF pair this] have len: "length ct = length pt" "length tag = tag_size hp (ec_aead_id ec)" by auto
  have en': "en = encap_non_chunked (rqs_sealer rqs) (header_bytes oct hp (rqs_encap_header rqs) @ rqs_encapped_key rqs)
      (stream_buf_from pt :: report stream_buf)"
    using en(2) by (simp add: request_encapsulate_non_chunked_content_def encode_initial_chunk_bytes)
  have "stream_bytes (encap_events oct (request_seal hp) en)
      = (header_bytes oct hp (rqs_encap_header rqs) @ rqs_encapped_key rqs) @ ct @ tag"
    unfolding en' by (rule encap_events_non_chunked(1) [where seal = "request_seal hp"]) (simp_all add: en(1))
  then show ?thesis by (simp add: length_header_bytes enc len s(3))
qed

subsection \<open>The gateway\<close>

lemma gateway_inner_request:
  assumes sc: "wf_server_config hp sc" "offered sc ec"
    and set: "setup_request_encapsulation oct hp rng ec MESSAGE_BHTTP_REQUEST MESSAGE_BHTTP_RESPONSE = Inr (rqs, rrc)"
    and m: "valid_request oct api req0" "stream_fits oct (bd_data (rq_body req0))" "stream_tail (bd_data (rq_body req0)) = None"
      "encode_request oct api req0 = Inr m" "stream_tail (message_events oct m) = None"
    and en: "request_seal hp (rqs_sealer rqs) (stream_bytes (message_events oct m)) [] = (Inr (ct, tag), s')"
      "request_encapsulate_non_chunked_content oct hp rqs (stream_buf_from (stream_bytes (message_events oct m)) :: report stream_buf) = Inr en"
      "stream_tail (encap_events oct (request_seal hp) en) = None"
    and st: "stream_bytes st = stream_bytes (encap_events oct (request_seal hp) en)" "stream_tail st = None"
      "no_empty_chunks st" "length (stream_bytes st) \<le> default_max_buf_size"
  shows "\<exists>r. seen_as api (req0 :: ('hm, report body) request) r
    \<and> get_inner_oblivious_gateway_request oct hp api rtw st OhttpReq sc
        = Some (rbind (rtw r) (\<lambda>j. Inr (j, \<lparr>rsc_inner = rrc_inner rrc\<rparr>)))"
proof -
  let ?b = "stream_bytes (message_events oct m)"
  have sb: "wf_buf (new_stream_buf st)" "avail (new_stream_buf st) = stream_bytes (encap_events oct (request_seal hp) en)"
    "tail (new_stream_buf st) = stream_tail (encap_events oct (request_seal hp) en)"
    using st en(3) by (simp_all add: wf_buf_def avail_def tail_def new_stream_buf_def)
  obtain rrq sb' sb'' where dec: "decode_request_header oct hp sc MESSAGE_BHTTP_REQUEST MESSAGE_BHTTP_RESPONSE (new_stream_buf st)
      = Some (Inr (rrq, \<lparr>rsc_inner = rrc_inner rrc\<rparr>), sb')"
    "request_decapsulate_non_chunked_content hp rrq sb' = Some (Inr ?b, sb'')"
    using request_non_chunked_round_trip [OF sc set _ _ en(2) sb] en(1) by auto
  obtain req' sb3 where req': "decode_request oct api (stream_buf_from ?b) = Some (Inr req', sb3)"
    "rq_method req' = rq_method req0" "rq_uri req' = rq_uri req0" "same_headers api (rq_headers req') (rq_headers req0)"
    "stream_bytes (body_events oct \<lparr>body_kind = rq_body req', body_buf = sb3\<rparr>) = stream_bytes (bd_data (rq_body req0))"
    "stream_tail (body_events oct \<lparr>body_kind = rq_body req', body_buf = sb3\<rparr>) = stream_tail (bd_data (rq_body req0))"
    using decode_encoded_request [OF m(1,2,4), of "stream_buf_from ?b"] m(5) by auto
  let ?r = "\<lparr>rq_method = rq_method req', rq_uri = rq_uri req', rq_version = rq_version req', rq_headers = rq_headers req',
     rq_body = (if rq_method req0 = ascii ''GET'' \<or> rq_method req0 = ascii ''HEAD'' then []
       else body_events oct \<lparr>body_kind = rq_body req', body_buf = sb3\<rparr>)\<rparr>"
  have "to_wasm oct rtw req' sb3 = rtw ?r" using req'(2) by (simp add: to_wasm_def Let_def)
  then have "convert_hpke_bhttp_stream_into_request oct hp api rtw rrq OhttpReq sb' = Some (rtw ?r)"
    by (simp add: convert_hpke_bhttp_stream_into_request_def infallible_def dec(2) req'(1) rbind_def)
  then have "get_inner_oblivious_gateway_request oct hp api rtw st OhttpReq sc
      = Some (rbind (rtw ?r) (\<lambda>j. Inr (j, \<lparr>rsc_inner = rrc_inner rrc\<rparr>)))"
    using dec(1)
    by (simp add: get_inner_oblivious_gateway_request_def extract_receiving_hpke_context_def GATEWAY_BHTTP_REQUEST_def
        GATEWAY_BHTTP_RESPONSE_def MESSAGE_BHTTP_REQUEST_def MESSAGE_BHTTP_RESPONSE_def)
  moreover have "seen_as api req0 ?r" using req' m(3) by (simp add: seen_as_def)
  ultimately show ?thesis by blast
qed

subsection \<open>The response\<close>

lemma valid_new_response: "valid_response oct api (http_response_new api b)"
  by (simp add: valid_response_def http_response_new_def valid_fields_def iter_empty fields_fit_def
      fits_def field_lines_bytes_def status_from_u16_spec is_informational_spec)

lemma response_comes_back:
  assumes "ciphers_accept hp n" "rsc_inner rsc = rrc_inner rrc" "\<And>k. length (random k) = k"
    and b: "stream_fits oct (bd_data b)" "honest_hint b" "stream_tail (bd_data b) = None"
    and enc: "encode_response oct api (http_response_new api b) = Inr m" "length (stream_bytes (message_events oct m)) \<le> n"
  shows "\<exists>st. wrap_inner_oblivious_gateway_response oct hp api random (http_response_new api b)
        \<lparr>gre_req_kind = OhttpReq, gre_response_sending_context = rsc\<rparr> = Inr (http_response_new api st)
    \<and> stream_tail st = None
    \<and> (\<forall>v h (w :: 'w). \<exists>v' h'. ohttp_decrypt oct hp api \<lparr>hr_version = v, hr_status = 200, hr_headers = h, hr_body = stream_bytes st\<rparr> rrc w
        = Some (Inr \<lparr>hr_version = v', hr_status = 200, hr_headers = h', hr_body = stream_bytes (bd_data b)\<rparr>, w)
      \<and> same_headers api h' (hm_empty api))"
proof -
  let ?res = "http_response_new api b" and ?evs = "message_events oct m"
  let ?content = "new_stream_buf ?evs"
  have body: "rs_body ?res = b" by (simp add: http_response_new_def)
  have "?evs = (case bd_size_hint b of
        None \<Rightarrow> Yield (Inr (indeterminate_response_head_bytes oct api ?res)) # content_events oct EncodedIndeterminateLength (bd_data b)
      | Some n \<Rightarrow> Yield (Inr (known_response_head_bytes oct api ?res n)) # content_events oct EncodedKnownLength (bd_data b))"
  proof (rule encode_valid_response [OF valid_new_response, of b])
    show "stream_fits oct (bd_data (rs_body ?res))" "honest_hint (rs_body ?res)" using b by (simp_all add: body)
  qed (use enc(1) in \<open>simp add: body split: option.split\<close>)
  then have tl: "stream_tail ?evs = None" using b(3) by (simp add: content_tail split: option.splits)
  have content: "tail ?content = None" "avail ?content = stream_bytes ?evs"
    using tl by (simp_all add: tail_def avail_def new_stream_buf_def)
  define nonce where "nonce = random (length (rc_response_secret (rsc_inner rsc)))"
  define ac where "ac = response_aead hp (rsc_inner rsc) nonce"
  have ac: "derive_aead_state hp random rsc = Inr (nonce, ac)"
    by (simp add: derive_aead_state_total nonce_def ac_def)
  have "Suc (be_value (counter (chunk_nonce ac))) < 256 ^ nonce_size hp (ac_aead_id ac)"
    using one_less_power [of "256 :: nat", OF _ nonce_size_pos [of "rc_aead_id (rsc_inner rsc)"]] by (simp add: ac_def)
  then obtain ac' where sealed: "context_seal hp ac (avail ?content) [] =
      ((case aead_encrypt hp (ac_aead_id ac) (ac_aead_key ac) (nonce_at (initial (chunk_nonce ac)) (be_value (counter (chunk_nonce ac)))) []
          (avail ?content) of None \<Rightarrow> Inl (Source SealError) | Some r \<Rightarrow> Inr r), ac')"
    using context_seal_result [of ac] wf_response_aead unfolding ac_def by metis
  have "length (avail ?content) \<le> n" using enc(2) content(2) by simp
  with assms(1) obtain ct tag where "aead_encrypt hp (ac_aead_id ac) (ac_aead_key ac)
      (nonce_at (initial (chunk_nonce ac)) (be_value (counter (chunk_nonce ac)))) [] (avail ?content) = Some (ct, tag)"
    unfolding ciphers_accept_def by (metis not_None_eq surj_pair)
  with sealed have seal: "context_seal hp ac (avail ?content) [] = (Inr (ct, tag), ac')" by simp
  let ?en = "encap_non_chunked ac nonce ?content"
  let ?st = "encap_events oct (context_seal hp) ?en"
  have en: "response_encapsulate_non_chunked_content hp random rsc ?content = Inr ?en"
    by (simp add: response_encapsulate_non_chunked_content_def ac)
  have tail: "stream_tail ?st = None"
    by (rule encap_events_non_chunked(2) [where seal = "context_seal hp", OF content(1) seal])
  have wrapped: "wrap_inner_oblivious_gateway_response oct hp api random ?res
      \<lparr>gre_req_kind = OhttpReq, gre_response_sending_context = rsc\<rparr> = Inr (http_response_new api ?st)"
    by (simp add: wrap_inner_oblivious_gateway_response_def enc(1) en)
  obtain sb1 where open1: "response_decapsulate_non_chunked_content hp rrc (stream_buf_from (stream_bytes ?st) :: report stream_buf)
      = Some (Inr (avail ?content), sb1)"
    using response_non_chunked_round_trip [OF assms(2,3) ac content(1) seal en, of "stream_buf_from (stream_bytes ?st) :: report stream_buf"] tail by auto
  obtain res' sb2 where dec: "decode_response oct api (stream_buf_from (stream_bytes ?evs) :: report stream_buf) = Some (Inr res', sb2)"
    "rs_status res' = 200" "same_headers api (rs_headers res') (hm_empty api)"
    "stream_bytes (body_events oct \<lparr>body_kind = rs_body res', body_buf = sb2\<rparr>) = stream_bytes (bd_data b)"
    "stream_tail (body_events oct \<lparr>body_kind = rs_body res', body_buf = sb2\<rparr>) = None"
    using decode_encoded_response [OF valid_new_response _ _ enc(1), of "stream_buf_from (stream_bytes ?evs) :: report stream_buf"] tl b
    by (auto simp: body http_response_new_def)
  have "ohttp_decrypt oct hp api \<lparr>hr_version = v, hr_status = 200, hr_headers = h, hr_body = stream_bytes ?st\<rparr> rrc w
      = Some (Inr \<lparr>hr_version = rs_version res', hr_status = 200, hr_headers = rs_headers res', hr_body = stream_bytes (bd_data b)\<rparr>, w)"
    for v h and w :: 'w
    by (simp add: ohttp_decrypt_def open1 content(2) dec abind_def awrap_err_def aopt_def collect_stream_def)
  with wrapped tail dec(3) show ?thesis by blast
qed

subsection \<open>The requests of the client\<close>

text \<open>What the configured URLs and headers of the gateway have to be.\<close>

lemma content_type_line:
  "line_field api (ascii ''Content-Type: message/ohttp-req'') = Some (CONTENT_TYPE, ascii ''message/ohttp-req'')"
proof -
  have "split_once [colon] (ascii ''Content-Type: message/ohttp-req'') = Some (ascii ''Content-Type'', ascii '' message/ohttp-req'')"
    "trim (ascii ''Content-Type'') = ascii ''Content-Type''" "trim (ascii '' message/ohttp-req'') = ascii ''message/ohttp-req''"
    "to_ascii_lowercase (ascii ''Content-Type'') = CONTENT_TYPE" "list_all token_byte (ascii ''Content-Type'')"
    "list_all (\<lambda>b. 32 \<le> unat b \<and> unat b < 127) (ascii ''message/ohttp-req'')"
    by code_simp+
  then show ?thesis by (simp add: line_field_def header_name_token header_value_visible)
qed

lemma config_request:
  assumes "gateway_url api url (ascii ''/ohttp-config'')" "list_all (good_line api) hs" "length hs < hm_capacity api"
    and "get_hpke_config hp = Inr sc" "encode_config oct hp sc = (Inr d :: bytes rresult)"
  shows "\<exists>v h. ideal_transport api arrive (gateway_fetch oct hp api random rtw fetch)
      (default_request_args\<lparr>ra_method := Get, ra_url := url, ra_headers := hs, ra_body := None\<rparr>) cfg w
    = Some (Inr \<lparr>hr_version = v, hr_status = 200, hr_headers = h, hr_body = d\<rparr>, w)"
proof -
  let ?a = "default_request_args\<lparr>ra_method := Get, ra_url := url, ra_headers := hs, ra_body := None\<rparr>"
  from assms(1) obtain u where u: "uri_parse api (ra_url ?a) = Some u" "uri_host api u \<noteq> None" "uri_scheme u \<noteq> None"
    "uri_path u = ascii ''/ohttp-config''" by (auto simp: gateway_url_def)
  then obtain h where built: "build_request_wrapper api ?a = Inr \<lparr>rq_method = ascii ''GET'', rq_uri = u, rq_version = default_version,
      rq_headers = h, rq_body = Empty\<rparr>"
    using build_request_wrapper_good [OF u(1-3), of Empty] assms(2,3) by (auto simp: method_body_def default_request_args_def)
  obtain h' where "hm_insert api (hm_empty api) CONTENT_TYPE (ascii ''application/ohttp-keys'') = Some h'"
    using insert_room [of "hm_empty api"] assms(3) by (auto simp: iter_empty)
  then have "gateway_fetch oct hp api random rtw fetch (with_body \<lparr>rq_method = ascii ''GET'', rq_uri = u, rq_version = default_version,
      rq_headers = h, rq_body = Empty\<rparr> bd) w
      = Some (Inr \<lparr>rs_version = default_version, rs_status = 200, rs_headers = h', rs_body = [Yield (Inr d)]\<rparr>, w)" for bd w
    using u(4) assms(4,5) by (simp add: gateway_fetch_def with_body_def abind_def ok_or_lib_def ascii_def)
  then show ?thesis
    by (simp add: ideal_transport_def built abind_def collect_stream_def)
qed

lemma lines_fields_append: "lines_fields api (hs @ hs') = lines_fields api hs @ lines_fields api hs'"
  by (simp add: lines_fields_def map_filter_def)

lemma outer_request:
  assumes oc: "gateway_client api oc" and sc: "get_hpke_config hp = Inr sc"
    and inner: "get_inner_oblivious_gateway_request oct hp api rtw (arrive d) OhttpReq sc = Some (Inr (j, rsc))"
    and res: "fetch j w = Some (Inr res, w')" "rs_body res = Some b"
    and wrapped: "wrap_inner_oblivious_gateway_response oct hp api random (http_response_new api b)
        \<lparr>gre_req_kind = OhttpReq, gre_response_sending_context = rsc\<rparr> = Inr (http_response_new api st)" "stream_tail st = None"
  shows "\<exists>v h. ohttp_send_outer_request (ideal_transport api arrive (gateway_fetch oct hp api random rtw fetch)) oc d w
    = Some (Inr \<lparr>hr_version = v, hr_status = 200, hr_headers = h, hr_body = stream_bytes st\<rparr>, w')"
proof -
  let ?a = "default_request_args\<lparr>ra_method := Post, ra_url := oc_proxy_gateway_url oc,
      ra_headers := oc_proxy_headers oc @ [ascii ''Content-Type: message/ohttp-req''], ra_body := Some d\<rparr>"
  from oc obtain u where u: "uri_parse api (ra_url ?a) = Some u" "uri_host api u \<noteq> None" "uri_scheme u \<noteq> None"
    "uri_path u = ascii ''/gateway''" by (auto simp: gateway_client_def gateway_url_def)
  have good: "list_all (good_line api) (ra_headers ?a)" "length (ra_headers ?a) \<le> hm_capacity api"
    using oc content_type_line by (simp_all add: gateway_client_def good_line_def)
  have m: "method_body (ra_method ?a) (ra_body ?a) = Some (Full d)" by (simp add: method_body_def)
  from build_request_wrapper_good [OF u(1-3) good m] obtain h where
    built: "build_request_wrapper api ?a = Inr \<lparr>rq_method = ascii ''POST'', rq_uri = u, rq_version = default_version,
      rq_headers = h, rq_body = Full d\<rparr>" and
    "hm_values api h CONTENT_TYPE = map snd (filter (\<lambda>(k, v). k = CONTENT_TYPE) (lines_fields api (ra_headers ?a)))" by auto
  moreover have "filter (\<lambda>(k, v). k = CONTENT_TYPE) (lines_fields api (oc_proxy_headers oc)) = []"
    using oc by (intro filter_absent) (simp add: gateway_client_def)
  ultimately have "hm_get api h CONTENT_TYPE = Some (ascii ''message/ohttp-req'')"
    by (simp add: get_first lines_fields_append lines_fields_Cons content_type_line)
  then have kind: "gateway_from_req api \<lparr>rq_method = ascii ''POST'', rq_uri = u, rq_version = default_version,
      rq_headers = h, rq_body = arrive d\<rparr> = Some OhttpReq"
    by (simp add: gateway_from_req_def)
  obtain h' where "hm_insert api (hm_empty api) CONTENT_TYPE (response_content_type OhttpReq) = Some h'"
    using insert_room [of "hm_empty api" CONTENT_TYPE "response_content_type OhttpReq"] oc by (auto simp: iter_empty gateway_client_def)
  then have h': "(hm_insert_or_panic api (hm_empty api) CONTENT_TYPE (response_content_type OhttpReq) :: 'hm rresult) = Inr h'"
    by (simp add: hm_insert_or_panic_def)
  have "gateway_fetch oct hp api random rtw fetch \<lparr>rq_method = ascii ''POST'', rq_uri = u, rq_version = default_version,
      rq_headers = h, rq_body = arrive d\<rparr> w
      = Some (Inr \<lparr>rs_version = default_version, rs_status = 200, rs_headers = h', rs_body = st\<rparr>, w')"
    using u(4) sc inner res wrapped(1) h' kind
    by (simp add: gateway_fetch_def abind_def ok_or_eyre_def aopt_def fetch_with_request_def ok_or_lib_def http_response_new_def)
  then show ?thesis
    using oc wrapped(2)
    by (simp add: ohttp_send_outer_request_def gateway_client_def ideal_transport_def built with_body_def abind_def awrap_err_def collect_stream_def)
qed

subsection \<open>The whole exchange\<close>

lemma exchange_completes:
  fixes w w' :: 'w
  assumes net: "arrives arrive" "\<And>k. length (random k) = k" "ciphers_accept hp n" and oc: "gateway_client api oc"
    and size: "\<And>k. n + encapped_key_size hp k + 2048 \<le> default_max_buf_size"
    and ready: "\<forall>sc ec. get_hpke_config hp = Inr sc \<and> offered sc ec
      \<longrightarrow> (\<exists>x. setup_request_encapsulation oct hp rng ec MESSAGE_BHTTP_REQUEST MESSAGE_BHTTP_RESPONSE = Inr x)"
    and req: "build_request_wrapper api a = Inr req" "req0 = with_body req (body_of (rq_body req))"
      "valid_request oct api req0" "stream_fits oct (bd_data (rq_body req0))" "stream_tail (bd_data (rq_body req0)) = None"
      "encode_request oct api req0 = Inr m" "length (stream_bytes (message_events oct m)) \<le> n"
    and origin: "\<forall>r. seen_as api req0 r \<longrightarrow> (\<exists>j res. rtw r = Inr j \<and> fetch j w = Some (Inr res, w') \<and> rs_body res = Some b)"
    and b: "stream_fits oct (bd_data b)" "honest_hint b" "stream_tail (bd_data b) = None"
      "encode_response oct api (http_response_new api b) = Inr mb" "length (stream_bytes (message_events oct mb)) \<le> n"
  shows "\<exists>v h. ohttp_send_request oct hp api body_of hex_encode rng
      (ideal_transport api arrive (gateway_fetch oct hp api random rtw fetch)) oc a w
    = Some (Inr \<lparr>hr_version = v, hr_status = 200, hr_headers = h, hr_body = stream_bytes (bd_data b)\<rparr>, w')
    \<and> same_headers api h (hm_empty api)"
proof -
  let ?send = "ideal_transport api arrive (gateway_fetch oct hp api random rtw fetch)"
  obtain sc where sc: "get_hpke_config hp = Inr sc" "wf_server_config hp sc" using get_hpke_config_total by blast
  obtain cb where cb: "encode_config oct hp sc = (Inr cb :: bytes rresult)" by (simp add: encode_config_bytes)
  obtain cc sb ec where ec: "decode_config oct hp (stream_buf_from cb :: report stream_buf) = Some (Inr cc, sb)"
    "first_encap_config cc = (Inr ec :: encap_config rresult)" "offered sc ec"
    using published_config [OF sc(1) cb] by blast
  have "gateway_url api (oc_proxy_config_url oc) (ascii ''/ohttp-config'')" "list_all (good_line api) (oc_proxy_headers oc)"
    "length (oc_proxy_headers oc) < hm_capacity api" using oc by (simp_all add: gateway_client_def)
  from config_request [OF this sc(1) cb, where arrive = arrive and random = random and rtw = rtw and fetch = fetch
      and cfg = "oc_proxy_tls_config oc" and w = w]
  obtain v0 h0 where "?send (default_request_args\<lparr>ra_method := Get, ra_url := oc_proxy_config_url oc,
      ra_headers := oc_proxy_headers oc, ra_body := None\<rparr>) (oc_proxy_tls_config oc) w
      = Some (Inr \<lparr>hr_version = v0, hr_status = 200, hr_headers = h0, hr_body = cb\<rparr>, w)"
    by blast
  then have fetched: "\<exists>kr. ohttp_fetch_proxy_key oct hp hex_encode ?send oc w = Some (Inr (ec, kr), w)"
    using ec by (simp add: ohttp_fetch_proxy_key_def abind_def awrap_err_def aopt_def)
  obtain rqs rrc where rqs: "setup_request_encapsulation oct hp rng ec MESSAGE_BHTTP_REQUEST MESSAGE_BHTTP_RESPONSE = Inr (rqs, rrc)"
    using ready sc(1) ec(3) by force
  note encrypted = encrypted_request [where body_of = body_of, OF net(3) rqs req(1-7)]
  then obtain en ct tag s' where en: "request_seal hp (rqs_sealer rqs) (stream_bytes (message_events oct m)) [] = (Inr (ct, tag), s')"
    "request_encapsulate_non_chunked_content oct hp rqs (stream_buf_from (stream_bytes (message_events oct m)) :: report stream_buf) = Inr en"
    "stream_tail (encap_events oct (request_seal hp) en) = None"
    "ohttp_encrypt oct hp api body_of rng a ec = Inr (stream_bytes (encap_events oct (request_seal hp) en), rrc)" by blast
  let ?d = "stream_bytes (encap_events oct (request_seal hp) en)"
  have st: "stream_bytes (arrive ?d) = ?d" "stream_tail (arrive ?d) = None" "no_empty_chunks (arrive ?d)"
    "length (stream_bytes (arrive ?d)) \<le> default_max_buf_size"
    using net(1) encrypted_length [OF sc(2) ec(3) rqs en(1,2)] size [of "pk_kem_id (ec_public_key ec)"]
      tag_size_small [of "ec_aead_id ec"] req(7)
    by (simp_all add: arrives_def header_encoded_len_def)
  obtain r where r: "seen_as api req0 r" "get_inner_oblivious_gateway_request oct hp api rtw (arrive ?d) OhttpReq sc
        = Some (rbind (rtw r) (\<lambda>j. Inr (j, \<lparr>rsc_inner = rrc_inner rrc\<rparr>)))"
    using gateway_inner_request [OF sc(2) ec(3) rqs req(3-6) encrypted(1) en(1-3) st] by blast
  obtain j res where j: "rtw r = Inr j" "fetch j w = Some (Inr res, w')" "rs_body res = Some b" using origin r(1) by blast
  obtain st where st: "wrap_inner_oblivious_gateway_response oct hp api random (http_response_new api b)
        \<lparr>gre_req_kind = OhttpReq, gre_response_sending_context = \<lparr>rsc_inner = rrc_inner rrc\<rparr>\<rparr> = Inr (http_response_new api st)"
    "stream_tail st = None"
    "\<And>v h (w :: 'w). \<exists>v' h'. ohttp_decrypt oct hp api \<lparr>hr_version = v, hr_status = 200, hr_headers = h, hr_body = stream_bytes st\<rparr> rrc w
        = Some (Inr \<lparr>hr_version = v', hr_status = 200, hr_headers = h', hr_body = stream_bytes (bd_data b)\<rparr>, w)
      \<and> same_headers api h' (hm_empty api)"
    using response_comes_back [OF net(3) _ net(2) b, of "\<lparr>rsc_inner = rrc_inner rrc\<rparr>" rrc] by auto
  have "get_inner_oblivious_gateway_request oct hp api rtw (arrive ?d) OhttpReq sc = Some (Inr (j, \<lparr>rsc_inner = rrc_inner rrc\<rparr>))"
    using r(2) j(1) by simp
  from outer_request [where arrive = arrive and fetch = fetch and d = ?d and w = w, OF oc sc(1) this j(2,3) st(1,2)] obtain v1 h1 where
    "ohttp_send_outer_request ?send oc ?d w = Some (Inr \<lparr>hr_version = v1, hr_status = 200, hr_headers = h1, hr_body = stream_bytes st\<rparr>, w')"
    by blast
  with fetched en(4) st(3) [of v1 h1 w'] show ?thesis
    by (auto simp: ohttp_send_request_def abind_def awrap_err_def)
qed

end

text \<open>
  C1: Oblivious HTTP works end to end. A client that is configured for the gateway and any
  network that delivers messages unchanged, in whatever pieces, complete the exchange: the
  client fetches and decodes the key configuration that the worker publishes, the worker
  opens the encapsulated request and hands the origin a request with the client's method,
  URI, headers and (unless it is a GET or HEAD) body, and the client returns the body of the
  origin's response. Of that response nothing but the body arrives: the status is always 200
  and there are no headers. The hypotheses bound the sizes, ask that the ciphers accept
  messages of that size and that the origin answers every request that looks like the
  client's.
\<close>

theorem ohttp_end_to_end:
  assumes "octets_crate oct" "hpke_crate hp paired" "http_crate api"
    and "arrives arrive" "\<And>k. length (random k) = k" "ciphers_accept hp n" "gateway_client api oc"
    and "\<And>k. n + encapped_key_size hp k + 2048 \<le> default_max_buf_size"
    and "\<forall>sc ec. get_hpke_config hp = Inr sc \<and> offered sc ec
      \<longrightarrow> (\<exists>x. setup_request_encapsulation oct hp rng ec MESSAGE_BHTTP_REQUEST MESSAGE_BHTTP_RESPONSE = Inr x)"
    and "build_request_wrapper api a = Inr req" "req0 = with_body req (body_of (rq_body req))"
      "valid_request oct api req0" "stream_fits oct (bd_data (rq_body req0))" "stream_tail (bd_data (rq_body req0)) = None"
      "encode_request oct api req0 = Inr m" "length (stream_bytes (message_events oct m)) \<le> n"
    and "\<forall>r. seen_as api req0 r \<longrightarrow> (\<exists>j res. rtw r = Inr j \<and> fetch j w = Some (Inr res, w') \<and> rs_body res = Some b)"
    and "stream_fits oct (bd_data b)" "honest_hint b" "stream_tail (bd_data b) = None"
      "encode_response oct api (http_response_new api b) = Inr mb" "length (stream_bytes (message_events oct mb)) \<le> n"
  shows "\<exists>v h. ohttp_send_request oct hp api body_of hex_encode rng
      (ideal_transport api arrive (gateway_fetch oct hp api random rtw fetch)) oc a w
    = Some (Inr \<lparr>hr_version = v, hr_status = 200, hr_headers = h, hr_body = stream_bytes (bd_data b)\<rparr>, w')
    \<and> same_headers api h (hm_empty api)"
proof -
  have "exchange oct hp paired api" by (intro exchange.intro ohttp.intro assms(1-3))
  from exchange.exchange_completes [where body_of = body_of and random = random and rtw = rtw and fetch = fetch and w = w
      and w' = w' and b = b and rng = rng and arrive = arrive, OF this assms(4-22)]
  show ?thesis .
qed

text \<open>A client, a network that delivers a body in one piece and an origin that answers 404 with a text.\<close>

definition demo_client :: ohttp_client where
  "demo_client =
     \<lparr>oc_proxy_http_client = TransportHttp2 (http2_client_new default_resolver), oc_proxy_headers = [],
      oc_proxy_config_url = ascii ''https://p.q/ohttp-config'', oc_proxy_gateway_url = ascii ''https://p.q/gateway'',
      oc_proxy_tls_config = default_tls_config, oc_first_hop_url = None, oc_first_hop_headers = [],
      oc_first_hop_tls_config = default_tls_config\<rparr>"

definition demo_arrive :: "bytes \<Rightarrow> report stream" where
  "demo_arrive bs = (if bs = [] then [] else [Yield (Inr bs)])"

definition demo_origin_body :: "report body" where
  "demo_origin_body = \<lparr>bd_size_hint = None, bd_data = [Yield (Inr (ascii ''hi''))]\<rparr>"

definition demo_origin ::
  "((bytes \<times> bytes) list, report stream) request \<Rightarrow> (unit, ((bytes \<times> bytes) list, report body option) response) io" where
  "demo_origin r = aret \<lparr>rs_version = HTTP_11, rs_status = 404, rs_headers = [], rs_body = Some demo_origin_body\<rparr>"

definition demo_inner :: "((bytes \<times> bytes) list, http_body) request" where
  "demo_inner =
     \<lparr>rq_method = ascii ''GET'',
      rq_uri = \<lparr>uri_scheme = Some (ascii ''https''), uri_authority = Some (ascii ''a.b''), uri_path = ascii ''/c'', uri_query = None\<rparr>,
      rq_version = default_version, rq_headers = [], rq_body = Empty\<rparr>"

lemma demo_uri:
  "uri_parse alist_http (ascii ''https://a.b/c'') = Some (rq_uri demo_inner)"
  by (simp add: demo_inner_def alist_http_def split_uri_def split_query_def ascii_def visible_byte_def lower_byte_def starts_with_def)

lemma demo_inner_built:
  "build_request_wrapper alist_http (default_request_args\<lparr>ra_url := ascii ''https://a.b/c''\<rparr>) = Inr demo_inner"
proof -
  have m: "ascii ''GET'' \<noteq> ascii ''CONNECT''" "method_from alist_http (ascii ''GET'') = Some (ascii ''GET'')"
    by (simp_all add: alist.method_standard) (simp add: ascii_def)
  have host: "\<exists>host. uri_host alist_http (rq_uri demo_inner) = Some host" "hm_empty alist_http = []"
    by (simp_all add: demo_inner_def alist_http_def)
  have u: "uri_scheme (rq_uri demo_inner) \<noteq> None" by (simp add: demo_inner_def)
  from m host u show ?thesis
    by (auto simp: build_request_wrapper_def build_request_def default_request_args_def demo_uri rbind_def ok_or_lib_def
        ok_or_eyre_def builder_start_def) (simp_all add: demo_inner_def)
qed

lemma demo_client_gateway: "gateway_client alist_http demo_client"
proof -
  have "gateway_url alist_http (ascii ''https://p.q/ohttp-config'') (ascii ''/ohttp-config'')"
    "gateway_url alist_http (ascii ''https://p.q/gateway'') (ascii ''/gateway'')"
    by (simp_all add: gateway_url_def alist_http_def split_uri_def split_query_def ascii_def visible_byte_def lower_byte_def starts_with_def)
  then show ?thesis by (simp add: gateway_client_def demo_client_def) (simp add: alist_http_def)
qed

interpretation demo_exchange: exchange "rfc9000_octets (2 ^ 64 - 1)" plain_hpke "\<lambda>_ s r. s = r" alist_http ..

lemma demo_ready:
  assumes "get_hpke_config plain_hpke = Inr sc" "offered sc ec"
  shows "\<exists>x. setup_request_encapsulation (rfc9000_octets (2 ^ 64 - 1)) plain_hpke [] ec rq rs = Inr x"
proof -
  have "wf_server_config plain_hpke sc" using demo_exchange.get_hpke_config_total assms(1) by auto
  from offered_key_pair [OF this assms(2)]
  have "sk_to_pk plain_hpke (pk_kem_id (ec_public_key ec)) (kp_private_key (offered_pair sc ec)) = Inr (pk_bytes (ec_public_key ec))"
    by (simp add: wf_key_pair_def)
  then have "length (pk_bytes (ec_public_key ec)) = plain_size (pk_kem_id (ec_public_key ec))"
    by (auto simp: plain_hpke_def split: if_splits)
  then show ?thesis
    unfolding ohttp_plain.setup_request_encapsulation_eq
    by (simp add: export_or_panic_def plain_hpke_def)
qed

lemma demo_inner_valid:
  "valid_request (rfc9000_octets (2 ^ 64 - 1)) alist_http (with_body demo_inner (util_body Empty :: report body))"
  by (simp add: valid_request_def valid_fields_def fields_fit_def request_fits_def with_body_def util_body_def demo_inner_def demo_simps)

lemma demo_messages:
  "\<exists>m. encode_request (rfc9000_octets (2 ^ 64 - 1)) alist_http (with_body demo_inner (util_body Empty :: report body)) = Inr m
     \<and> length (stream_bytes (message_events (rfc9000_octets (2 ^ 64 - 1)) m)) \<le> 1000"
  "\<exists>m. encode_response (rfc9000_octets (2 ^ 64 - 1)) alist_http (http_response_new alist_http demo_origin_body) = Inr m
     \<and> length (stream_bytes (message_events (rfc9000_octets (2 ^ 64 - 1)) m)) \<le> 1000"
proof -
  show "\<exists>m. encode_request (rfc9000_octets (2 ^ 64 - 1)) alist_http (with_body demo_inner (util_body Empty :: report body)) = Inr m
      \<and> length (stream_bytes (message_events (rfc9000_octets (2 ^ 64 - 1)) m)) \<le> 1000"
  proof (rule bhttp_native.encode_valid_request [OF demo_inner_valid])
  qed (simp_all add: with_body_def util_body_def request_head_bytes_def demo_inner_def demo_simps)
  show "\<exists>m. encode_response (rfc9000_octets (2 ^ 64 - 1)) alist_http (http_response_new alist_http demo_origin_body) = Inr m
      \<and> length (stream_bytes (message_events (rfc9000_octets (2 ^ 64 - 1)) m)) \<le> 1000"
  proof (rule bhttp_native.encode_valid_response [OF demo_exchange.valid_new_response [of demo_origin_body]])
  qed (simp_all add: http_response_new_def demo_origin_body_def honest_hint_def indeterminate_response_head_bytes_def demo_simps)
qed

theorem ohttp_end_to_end_witness:
  "\<exists>v h. ohttp_send_request (rfc9000_octets (2 ^ 64 - 1)) plain_hpke alist_http util_body id []
      (ideal_transport alist_http demo_arrive
        (gateway_fetch (rfc9000_octets (2 ^ 64 - 1)) plain_hpke alist_http (\<lambda>k. replicate k 9) Inr demo_origin))
      demo_client (default_request_args\<lparr>ra_url := ascii ''https://a.b/c''\<rparr>) ()
    = Some (Inr \<lparr>hr_version = v, hr_status = 200, hr_headers = h, hr_body = ascii ''hi''\<rparr>, ())"
proof -
  let ?oct = "rfc9000_octets (2 ^ 64 - 1)"
  obtain m mb where m: "encode_request ?oct alist_http (with_body demo_inner (util_body Empty :: report body)) = Inr m"
      "length (stream_bytes (message_events ?oct m)) \<le> 1000"
    and mb: "encode_response ?oct alist_http (http_response_new alist_http demo_origin_body) = Inr mb"
      "length (stream_bytes (message_events ?oct mb)) \<le> 1000"
    using demo_messages by blast
  have net: "arrives demo_arrive" "ciphers_accept plain_hpke 1000"
    by (auto simp: arrives_def demo_arrive_def no_empty_chunks_def ciphers_accept_def plain_hpke_def)
  have size: "1000 + encapped_key_size plain_hpke k + 2048 \<le> default_max_buf_size" for k
    by (simp add: plain_hpke_def plain_size_def default_max_buf_size_def split: kem_id.split)
  have body: "rq_body demo_inner = Empty" "stream_tail (bd_data demo_origin_body) = None" "honest_hint demo_origin_body"
    "stream_fits ?oct (bd_data demo_origin_body)" "stream_bytes (bd_data demo_origin_body) = ascii ''hi''"
    by (simp_all add: demo_inner_def demo_origin_body_def honest_hint_def fits_def rfc9000_octets_def ascii_def)
  have empty: "stream_fits ?oct (bd_data (rq_body (with_body demo_inner (util_body Empty :: report body))))"
    "stream_tail (bd_data (rq_body (with_body demo_inner (util_body Empty :: report body)))) = None"
    by (simp_all add: with_body_def util_body_def)
  have origin: "\<forall>r. seen_as alist_http (with_body demo_inner (util_body Empty :: report body)) r \<longrightarrow> (\<exists>j res. (Inr r :: _ rresult) = Inr j
      \<and> demo_origin j () = Some (Inr res, ()) \<and> rs_body res = Some demo_origin_body)"
    by (simp add: demo_origin_def)
  from ohttp_end_to_end [where body_of = util_body and random = "\<lambda>k. replicate k 9" and rtw = Inr and fetch = demo_origin
      and w = "()" and w' = "()" and b = demo_origin_body and rng = "[]" and arrive = demo_arrive and hex_encode = id,
      OF native.octets_crate_axioms plain.hpke_crate_axioms alist.http_crate_axioms net(1) _ net(2) demo_client_gateway size
        _ demo_inner_built _ demo_inner_valid empty m origin body(4,3,2) mb] demo_ready body(1,5)
  show ?thesis by auto
qed

end
