(* ===== verification/Pat.thy ===== *)
theory Pat
  imports Http2_Client
begin

text \<open>
  Private access tokens (\<^verbatim>\<open>src/pat.rs\<close>): the directory of an issuer is fetched, a public
  key is chosen from it, a blinded token request is sent and the response is finalised into
  the value of a \<^verbatim>\<open>Proxy-Authorization\<close> header. The crates that parse JSON, base64 and
  keys and that blind and unblind tokens are the record \<open>pat_api\<close>; the HTTP/2 client
  is an argument (the sending of a request).
\<close>

definition ISSUER_SCHEME :: bytes where "ISSUER_SCHEME = ascii ''https''"
definition PRIVATE_TOKEN_REQUEST :: bytes where "PRIVATE_TOKEN_REQUEST = ascii ''application/private-token-request''"
definition PRIVATE_TOKEN_RESPONSE :: bytes where "PRIVATE_TOKEN_RESPONSE = ascii ''application/private-token-response''"
definition TOKEN_TYPE_PUBLIC :: u16 where "TOKEN_TYPE_PUBLIC = 2"

text \<open>\<^verbatim>\<open>i64\<close> values are words, read with their sign.\<close>

record token_key_info =
  token_type :: u16
  token_key :: bytes
  not_before :: "64 word option"

record issuer_config =
  issuer_request_uri :: bytes
  token_keys :: "token_key_info list"

record ('k, 'ch, 'rq, 'st, 'rs, 'tok) pat_api =
  issuer_config_from_slice :: "bytes \<Rightarrow> issuer_config option"
  url_safe_decode :: "bytes \<Rightarrow> bytes option"
  url_safe_no_pad_decode :: "bytes \<Rightarrow> bytes option"
  url_safe_encode :: "bytes \<Rightarrow> bytes"
  spki_try_from :: "bytes \<Rightarrow> bytes option option"
  public_key_from_der :: "bytes \<Rightarrow> 'k option"
  public_token_challenge :: "bytes \<Rightarrow> bytes option \<Rightarrow> bytes list \<Rightarrow> 'ch"
  token_request_new :: "bytes \<Rightarrow> 'k \<Rightarrow> 'ch \<Rightarrow> ('rq \<times> 'st) option"
  token_request_serialize :: "'rq \<Rightarrow> bytes option"
  token_response_deserialize :: "bytes \<Rightarrow> 'rs option"
  issue_token :: "'rs \<Rightarrow> 'st \<Rightarrow> 'tok option"
  token_serialize :: "'tok \<Rightarrow> bytes option"

definition normalize_issuer_host :: "bytes \<Rightarrow> bytes rresult" where
  "normalize_issuer_host issuer =
     rbind (case split_once (ascii ''://'') issuer of
              Some (scheme, rest) \<Rightarrow>
                if scheme = ascii ''https'' then Inr rest
                else eyre ''unsupported --pat-issuer scheme {scheme:?}: only https is supported'' [scheme]
            | None \<Rightarrow> Inr issuer) (\<lambda>host0.
       let host = trim_end_matches slash host0
       in if host = [] then eyre ''--pat-issuer host is empty'' []
          else if slash \<in> set host
          then eyre ''--pat-issuer must be a host (optionally https://<host>), not a path: {host:?}'' [host]
          else Inr host)"

definition join_uri :: "'u url_api \<Rightarrow> bytes \<Rightarrow> bytes \<Rightarrow> bytes rresult" where
  "join_uri uapi host path_and_query =
     (let base = ISSUER_SCHEME @ ascii ''://'' @ host
      in rbind (wrap_err ''invalid issuer base URL'' (ok_or_lib ''invalid url'' (url_parse uapi base))) (\<lambda>u.
         rbind (wrap_err ''invalid issuer request URI'' (ok_or_lib ''invalid url'' (url_join uapi u path_and_query))) (\<lambda>uri.
         Inr (url_into_string uapi uri))))"

text \<open>
  \<^verbatim>\<open>(200..300).contains(&status)\<close>.
\<close>

definition fetch_issuer_config ::
  "('k, 'ch, 'rq, 'st, 'rs, 'tok) pat_api \<Rightarrow> 'u url_api \<Rightarrow> (request_args \<Rightarrow> tls_config \<Rightarrow> ('w, 'hm http_response) io)
    \<Rightarrow> tls_config \<Rightarrow> bytes \<Rightarrow> bytes \<Rightarrow> ('w, issuer_config) io" where
  "fetch_issuer_config papi uapi send cfg issuer_host directory =
     abind (alift (join_uri uapi issuer_host directory)) (\<lambda>uri.
     abind (awrap_err ''failed to fetch issuer directory''
              (send (default_request_args\<lparr>ra_method := Get, ra_url := uri\<rparr>) cfg)) (\<lambda>response.
       if \<not> (200 \<le> hr_status response \<and> hr_status response < 300)
       then alift (eyre ''issuer directory got status {}'' [show_nat (unat (hr_status response))])
       else alift (wrap_err ''failed to parse issuer directory JSON''
                     (ok_or_lib ''json'' (issuer_config_from_slice papi (hr_body response))))))"

text \<open>
  The clock: the seconds since the epoch, or none if it stands before the epoch. The cast to
  \<^verbatim>\<open>i64\<close> keeps the bits.
\<close>

definition select_public_token_key :: "u64 option \<Rightarrow> token_key_info list \<Rightarrow> token_key_info option" where
  "select_public_token_key clock keys =
     (let now = (case clock of Some secs \<Rightarrow> secs | None \<Rightarrow> 0)
      in find (\<lambda>k. token_type k = TOKEN_TYPE_PUBLIC
                 \<and> (case not_before k of Some nb \<Rightarrow> sint nb \<le> sint now | None \<Rightarrow> True)) (rev keys))"

definition parse_public_key :: "('k, 'ch, 'rq, 'st, 'rs, 'tok) pat_api \<Rightarrow> bytes \<Rightarrow> 'k rresult" where
  "parse_public_key papi token_key_b64 =
     rbind (wrap_err ''failed to base64-decode token key''
              (ok_or_lib ''base64'' (case url_safe_decode papi token_key_b64 of
                                       Some d \<Rightarrow> Some d
                                     | None \<Rightarrow> url_safe_no_pad_decode papi token_key_b64))) (\<lambda>key_bytes.
     rbind (ok_or_eyre ''failed to parse SubjectPublicKeyInfo: {e:?}'' [] (spki_try_from papi key_bytes)) (\<lambda>spki.
     rbind (ok_or_eyre ''SPKI public key has unused bits'' [] spki) (\<lambda>raw.
     ok_or_eyre ''failed to parse RSA public key: {e:?}'' [] (public_key_from_der papi raw))))"

definition request_token ::
  "('k, 'ch, 'rq, 'st, 'rs, 'tok) pat_api \<Rightarrow> 'u url_api
    \<Rightarrow> (http2_client \<Rightarrow> request_args \<Rightarrow> tls_config \<Rightarrow> ('w, 'hm http_response) io) \<Rightarrow> u64 option \<Rightarrow> bytes
    \<Rightarrow> bytes \<Rightarrow> bytes \<Rightarrow> ('w, bytes) io" where
  "request_token papi uapi send2 clock rng issuer directory =
     abind (alift (normalize_issuer_host issuer)) (\<lambda>issuer_host.
       let send = send2 (http2_client_new default_resolver);
           cfg = default_tls_config
       in
       abind (fetch_issuer_config papi uapi send cfg issuer_host directory) (\<lambda>config.
       abind (alift (ok_or_eyre ''issuer directory has no usable public (type-2) token key'' []
                (select_public_token_key clock (token_keys config)))) (\<lambda>k.
       abind (alift (parse_public_key papi (token_key k))) (\<lambda>public_key.
       abind (alift (ok_or_eyre ''failed to build token request: {e:?}'' []
                (token_request_new papi rng public_key (public_token_challenge papi issuer_host None [issuer_host])))) (\<lambda>(token_request, token_state).
       abind (alift (ok_or_eyre ''failed to serialize token request: {e:?}'' [] (token_request_serialize papi token_request))) (\<lambda>request_body.
       abind (alift (join_uri uapi issuer_host (issuer_request_uri config))) (\<lambda>issue_uri.
       abind (awrap_err ''token issuance request failed''
                (send (default_request_args\<lparr>ra_method := Post, ra_url := issue_uri,
                         ra_headers := [ascii ''Content-Type: '' @ PRIVATE_TOKEN_REQUEST,
                                        ascii ''Accept: '' @ PRIVATE_TOKEN_RESPONSE],
                         ra_body := Some request_body\<rparr>) cfg)) (\<lambda>response.
       if \<not> (200 \<le> hr_status response \<and> hr_status response < 300)
       then alift (eyre ''token issuance got status {}'' [show_nat (unat (hr_status response))])
       else
       abind (alift (ok_or_eyre ''failed to deserialize token response: {e:?}'' [] (token_response_deserialize papi (hr_body response)))) (\<lambda>token_response.
       abind (alift (ok_or_eyre ''failed to finalize token: {e:?}'' [] (issue_token papi token_response token_state))) (\<lambda>token.
       abind (alift (ok_or_eyre ''failed to serialize token: {e:?}'' [] (token_serialize papi token))) (\<lambda>serialized_token.
       aret (ascii ''PrivateToken token='' @ url_safe_encode papi serialized_token))))))))))))"

subsection \<open>The host of the issuer\<close>

lemma ascii_append: "ascii (s @ t) = ascii s @ ascii t"
  by (simp add: ascii_def)

lemma ascii_Cons: "ascii (c # s) = of_char c # ascii s"
  by (simp add: ascii_def)

lemma trim_end_matches_eq:
  "trim_end_matches c s = t \<longleftrightarrow> (\<exists>n. s = t @ replicate n c) \<and> (t \<noteq> [] \<longrightarrow> last t \<noteq> c)"
proof
  assume "trim_end_matches c s = t"
  then show "(\<exists>n. s = t @ replicate n c) \<and> (t \<noteq> [] \<longrightarrow> last t \<noteq> c)"
    using trim_end_matches_decomp [of s c] trim_end_matches_last [of c s] by auto
next
  assume "(\<exists>n. s = t @ replicate n c) \<and> (t \<noteq> [] \<longrightarrow> last t \<noteq> c)"
  then obtain n where s: "s = t @ replicate n c" and t: "t \<noteq> [] \<Longrightarrow> last t \<noteq> c" by blast
  have "dropWhile ((=) c) (rev t) = rev t"
    using t by (cases "rev t") (auto simp: rev_eq_Cons_iff)
  with s show "trim_end_matches c s = t"
    by (simp add: trim_end_matches_def dropWhile_append)
qed

lemma split_once_https: "split_once (ascii ''://'') (ascii ''https://'' @ rest) = Some (ascii ''https'', rest)"
  by (simp add: ascii_def starts_with_def)

text \<open>
  C40: the issuer is a host, or a host after \<^verbatim>\<open>https://\<close>, with any number of slashes
  after it, and it is read as that host; every other text is an error. So no other scheme is
  accepted and no path reaches the URLs that are built from the host.
\<close>

theorem issuer_host_spec:
  "normalize_issuer_host issuer = Inr host
     \<longleftrightarrow> host \<noteq> [] \<and> slash \<notin> set host
       \<and> (\<exists>n. issuer = ascii ''https://'' @ host @ replicate n slash
              \<or> issuer = host @ replicate n slash \<and> \<not> contains (ascii ''://'') issuer)"
    (is "?l \<longleftrightarrow> ?h \<and> ?s \<and> ?r")
proof -
  have last: "last host \<noteq> slash" if "host \<noteq> []" "slash \<notin> set host" for host :: bytes
    using that last_in_set by metis
  have tail: "(let h = trim_end_matches slash x in if h = [] then eyre m1 [] else if slash \<in> set h then eyre m2 [h] else Inr h) = Inr host
      \<longleftrightarrow> ?h \<and> ?s \<and> (\<exists>n. x = host @ replicate n slash)" for x m1 m2
    using trim_end_matches_eq [of slash x host] last [of host]
    by (auto simp: Let_def split: if_splits)
  show ?thesis
  proof (cases "split_once (ascii ''://'') issuer")
    case None
    then have "\<not> contains (ascii ''://'') issuer" by (simp add: split_once_None)
    moreover have "issuer \<noteq> ascii ''https://'' @ t" for t using None split_once_https by auto
    ultimately show ?thesis using None by (simp add: normalize_issuer_host_def tail)
  next
    case (Some p)
    obtain scheme rest where p: "p = (scheme, rest)" by (cases p)
    from Some have "contains (ascii ''://'') issuer" by (metis option.distinct(1) split_once_None)
    moreover have "issuer = ascii ''https://'' @ t \<longleftrightarrow> scheme = ascii ''https'' \<and> rest = t" for t
    proof
      assume "issuer = ascii ''https://'' @ t"
      then show "scheme = ascii ''https'' \<and> rest = t" using Some p split_once_https by simp
    next
      assume "scheme = ascii ''https'' \<and> rest = t"
      then show "issuer = ascii ''https://'' @ t"
        using split_once_Some [of "ascii ''://''" issuer scheme rest] Some p by (simp add: ascii_def)
    qed
    ultimately show ?thesis using Some p by (auto simp: normalize_issuer_host_def tail)
  qed
qed

subsection \<open>The key\<close>

definition usable_key :: "u64 option \<Rightarrow> token_key_info \<Rightarrow> bool" where
  "usable_key clock k \<longleftrightarrow> token_type k = 2
     \<and> (\<forall>nb. not_before k = Some nb \<longrightarrow> sint nb \<le> sint (case clock of Some secs \<Rightarrow> secs | None \<Rightarrow> 0))"

lemma last_match_snoc:
  "(\<exists>ys zs. xs @ [a] = ys @ x # zs \<and> P x \<and> (\<forall>z \<in> set zs. \<not> P z))
     \<longleftrightarrow> (if P a then x = a else \<exists>ys zs. xs = ys @ x # zs \<and> P x \<and> (\<forall>z \<in> set zs. \<not> P z))" (is "?l = ?r")
proof
  assume ?l
  then obtain ys zs where d: "xs @ [a] = ys @ x # zs" "P x" "\<forall>z \<in> set zs. \<not> P z" by blast
  show ?r
  proof (cases zs rule: rev_cases)
    case Nil
    with d show ?thesis by simp
  next
    case (snoc zs' z)
    with d(1) have "xs @ [a] = (ys @ x # zs') @ [z]" by simp
    then have "xs = ys @ x # zs'" "z = a" by (simp_all only: append1_eq_conv)
    with d snoc show ?thesis by auto
  qed
next
  assume r: ?r
  show ?l
  proof (cases "P a")
    case True
    with r show ?thesis by (intro exI [of _ xs] exI [of _ "[]"]) simp
  next
    case False
    with r obtain ys zs where "xs = ys @ x # zs" "P x" "\<forall>z \<in> set zs. \<not> P z" by auto
    with False show ?thesis by (intro exI [of _ ys] exI [of _ "zs @ [a]"]) auto
  qed
qed

lemma find_rev_Some:
  "find P (rev xs) = Some x \<longleftrightarrow> (\<exists>ys zs. xs = ys @ x # zs \<and> P x \<and> (\<forall>z \<in> set zs. \<not> P z))"
  by (induction xs rule: rev_induct) (auto simp only: last_match_snoc find.simps rev.simps rev_append append.simps option.inject
      list.distinct append_is_Nil_conv split: if_splits)

lemma select_public_token_key_Some:
  "select_public_token_key clock keys = Some k
     \<longleftrightarrow> (\<exists>ys zs. keys = ys @ k # zs \<and> usable_key clock k \<and> (\<forall>z \<in> set zs. \<not> usable_key clock z))"
proof -
  have "select_public_token_key clock keys = find (usable_key clock) (rev keys)"
    by (auto simp: select_public_token_key_def TOKEN_TYPE_PUBLIC_def usable_key_def Let_def fun_eq_iff split: option.split
        intro!: arg_cong [where f = "\<lambda>P. find P (rev keys)"])
  then show ?thesis by (simp add: find_rev_Some)
qed

text \<open>When a key was published, as far as the directory tells: its start, or always.\<close>

definition published :: "token_key_info \<Rightarrow> int" where
  "published k = (case not_before k of Some nb \<Rightarrow> sint nb | None \<Rightarrow> - (2 ^ 63))"

lemma select_newest:
  assumes "sorted (map published keys)" "select_public_token_key clock keys = Some k"
    and "k' \<in> set keys" "usable_key clock k'"
  shows "published k' \<le> published k"
proof -
  from assms(2) obtain ys zs where keys: "keys = ys @ k # zs" "\<forall>z \<in> set zs. \<not> usable_key clock z"
    by (auto simp: select_public_token_key_Some)
  with assms(3,4) have "k' = k \<or> k' \<in> set ys" by auto
  with assms(1) show ?thesis by (auto simp: keys(1) sorted_append)
qed

text \<open>The two requests of a successful run.\<close>

lemma fetch_issuer_config_Inr:
  assumes "fetch_issuer_config papi uapi send cfg host directory w = Some (Inr config, w1)"
  shows "\<exists>uri res. join_uri uapi host directory = Inr uri
    \<and> send (default_request_args\<lparr>ra_url := uri\<rparr>) cfg w = Some (Inr res, w1)
    \<and> 200 \<le> hr_status res \<and> hr_status res < 300 \<and> issuer_config_from_slice papi (hr_body res) = Some config"
  using assms by (auto simp: fetch_issuer_config_def abind_eq_Inr default_request_args_def split: if_splits)

lemma request_token_Inr:
  assumes "request_token papi uapi send2 clock rng issuer directory w = Some (Inr v, w')"
  shows "\<exists>host config w1 k pk rq st bdy uri res rs tok ser. normalize_issuer_host issuer = Inr host
    \<and> fetch_issuer_config papi uapi (send2 (http2_client_new default_resolver)) default_tls_config host directory w
        = Some (Inr config, w1)
    \<and> select_public_token_key clock (token_keys config) = Some k \<and> parse_public_key papi (token_key k) = Inr pk
    \<and> token_request_new papi rng pk (public_token_challenge papi host None [host]) = Some (rq, st)
    \<and> token_request_serialize papi rq = Some bdy \<and> join_uri uapi host (issuer_request_uri config) = Inr uri
    \<and> send2 (http2_client_new default_resolver) (default_request_args\<lparr>ra_method := Post, ra_url := uri,
          ra_headers := [ascii ''Content-Type: '' @ PRIVATE_TOKEN_REQUEST, ascii ''Accept: '' @ PRIVATE_TOKEN_RESPONSE],
          ra_body := Some bdy\<rparr>) default_tls_config w1 = Some (Inr res, w')
    \<and> 200 \<le> hr_status res \<and> hr_status res < 300 \<and> token_response_deserialize papi (hr_body res) = Some rs
    \<and> issue_token papi rs st = Some tok \<and> token_serialize papi tok = Some ser
    \<and> v = ascii ''PrivateToken token='' @ url_safe_encode papi ser"
  using assms
  by (clarsimp simp: request_token_def Let_def abind_eq_Inr split: if_splits)

text \<open>
  C39: a token is requested for the right key. If a token is minted, then it was finalised from
  the issuer's answer to one request, posted to the URI of the directory, for the challenge
  that names the issuer's host and for a key of the directory that is a public (type 2) key
  and valid already; and when the directory lists its keys in the order of their publication,
  no usable key of it was published later. The directory is fetched first, with the default
  TLS settings, and both answers have a successful status. (The code takes the last usable
  key of the list; in a directory in another order that need not be the latest one.)
\<close>

theorem token_minted_for_newest_key:
  assumes "request_token papi uapi send2 clock rng issuer directory w = Some (Inr v, w')"
  shows "\<exists>host uri w1 res config k pk rq st bdy uri2 res2 rs tok ser.
      normalize_issuer_host issuer = Inr host \<and> join_uri uapi host directory = Inr uri
    \<and> send2 (http2_client_new default_resolver) (default_request_args\<lparr>ra_url := uri\<rparr>) default_tls_config w = Some (Inr res, w1)
    \<and> 200 \<le> hr_status res \<and> hr_status res < 300 \<and> issuer_config_from_slice papi (hr_body res) = Some config
    \<and> k \<in> set (token_keys config) \<and> usable_key clock k
    \<and> (sorted (map published (token_keys config)) \<longrightarrow>
        (\<forall>k' \<in> set (token_keys config). usable_key clock k' \<longrightarrow> published k' \<le> published k))
    \<and> parse_public_key papi (token_key k) = Inr pk
    \<and> token_request_new papi rng pk (public_token_challenge papi host None [host]) = Some (rq, st)
    \<and> token_request_serialize papi rq = Some bdy \<and> join_uri uapi host (issuer_request_uri config) = Inr uri2
    \<and> send2 (http2_client_new default_resolver) (default_request_args\<lparr>ra_method := Post, ra_url := uri2,
          ra_headers := [ascii ''Content-Type: '' @ PRIVATE_TOKEN_REQUEST, ascii ''Accept: '' @ PRIVATE_TOKEN_RESPONSE],
          ra_body := Some bdy\<rparr>) default_tls_config w1 = Some (Inr res2, w')
    \<and> 200 \<le> hr_status res2 \<and> hr_status res2 < 300 \<and> token_response_deserialize papi (hr_body res2) = Some rs
    \<and> issue_token papi rs st = Some tok \<and> token_serialize papi tok = Some ser
    \<and> v = ascii ''PrivateToken token='' @ url_safe_encode papi ser"
proof -
  from request_token_Inr [OF assms] obtain host config w1 k pk rq st bdy uri2 res2 rs tok ser where
    host: "normalize_issuer_host issuer = Inr host"
    and config: "fetch_issuer_config papi uapi (send2 (http2_client_new default_resolver)) default_tls_config host directory w
        = Some (Inr config, w1)"
    and k: "select_public_token_key clock (token_keys config) = Some k"
    and rest: "parse_public_key papi (token_key k) = Inr pk"
      "token_request_new papi rng pk (public_token_challenge papi host None [host]) = Some (rq, st)"
      "token_request_serialize papi rq = Some bdy" "join_uri uapi host (issuer_request_uri config) = Inr uri2"
      "send2 (http2_client_new default_resolver) (default_request_args\<lparr>ra_method := Post, ra_url := uri2,
          ra_headers := [ascii ''Content-Type: '' @ PRIVATE_TOKEN_REQUEST, ascii ''Accept: '' @ PRIVATE_TOKEN_RESPONSE],
          ra_body := Some bdy\<rparr>) default_tls_config w1 = Some (Inr res2, w')"
      "200 \<le> hr_status res2" "hr_status res2 < 300" "token_response_deserialize papi (hr_body res2) = Some rs"
      "issue_token papi rs st = Some tok" "token_serialize papi tok = Some ser"
      "v = ascii ''PrivateToken token='' @ url_safe_encode papi ser"
    by blast
  from k have usable: "k \<in> set (token_keys config)" "usable_key clock k" by (auto simp: select_public_token_key_Some)
  have newest: "sorted (map published (token_keys config)) \<longrightarrow>
      (\<forall>k' \<in> set (token_keys config). usable_key clock k' \<longrightarrow> published k' \<le> published k)"
    using k select_newest by blast
  from fetch_issuer_config_Inr [OF config] obtain uri res where fetched: "join_uri uapi host directory = Inr uri"
    "send2 (http2_client_new default_resolver) (default_request_args\<lparr>ra_url := uri\<rparr>) default_tls_config w = Some (Inr res, w1)"
    "200 \<le> hr_status res" "hr_status res < 300" "issuer_config_from_slice papi (hr_body res) = Some config"
    by blast
  show ?thesis by (intro exI conjI) (rule host fetched usable newest rest)+
qed

text \<open>An issuer whose token is the key and the challenge, and a network that answers for it.\<close>

definition demo_keys :: "token_key_info list" where
  "demo_keys =
     [\<lparr>token_type = 2, token_key = ascii ''old'', not_before = None\<rparr>,
      \<lparr>token_type = 1, token_key = ascii ''private'', not_before = None\<rparr>,
      \<lparr>token_type = 2, token_key = ascii ''new'', not_before = Some 5\<rparr>,
      \<lparr>token_type = 2, token_key = ascii ''future'', not_before = Some 50\<rparr>]"

definition demo_pat :: "(bytes, bytes, bytes, bytes \<times> bytes, bytes, bytes) pat_api" where
  "demo_pat =
     \<lparr>issuer_config_from_slice = (\<lambda>_. Some \<lparr>issuer_request_uri = ascii ''/t'', token_keys = demo_keys\<rparr>),
      url_safe_decode = Some, url_safe_no_pad_decode = Some, url_safe_encode = id, spki_try_from = (\<lambda>b. Some (Some b)),
      public_key_from_der = Some, public_token_challenge = (\<lambda>host _ _. host),
      token_request_new = (\<lambda>_ pk ch. Some (pk @ ch, (pk, ch))), token_request_serialize = Some,
      token_response_deserialize = Some, issue_token = (\<lambda>rs st. if rs = fst st @ snd st then Some rs else None),
      token_serialize = Some\<rparr>"

definition demo_issuer :: "http2_client \<Rightarrow> request_args \<Rightarrow> tls_config \<Rightarrow> (unit, unit http_response) io" where
  "demo_issuer cl a cfg =
     aret \<lparr>hr_version = HTTP_11, hr_status = 200, hr_headers = (), hr_body = (case ra_body a of Some b \<Rightarrow> b | None \<Rightarrow> [])\<rparr>"

definition demo_url :: "bytes url_api" where
  "demo_url = \<lparr>url_parse = Some, url_host_str = Some, url_port_or_known_default = (\<lambda>_. None),
     url_join = (\<lambda>u p. Some (u @ p)), url_into_string = id\<rparr>"

lemma demo_minted:
  "request_token demo_pat demo_url demo_issuer (Some 10) [] (ascii ''a.b/'') (ascii ''/d'') () = Some (Inr (ascii ''PrivateToken token=newa.b''), ())"
proof -
  have host: "normalize_issuer_host (ascii ''a.b/'') = Inr (ascii ''a.b'')" by code_simp
  have key: "select_public_token_key (Some 10) demo_keys = Some \<lparr>token_type = 2, token_key = ascii ''new'', not_before = Some 5\<rparr>"
    by (simp add: select_public_token_key_def demo_keys_def TOKEN_TYPE_PUBLIC_def)
  show ?thesis
    by (simp add: request_token_def host key fetch_issuer_config_def join_uri_def parse_public_key_def demo_pat_def demo_url_def
        demo_issuer_def abind_def awrap_err_def ok_or_lib_def ok_or_eyre_def default_request_args_def ascii_append [symmetric])
qed

theorem token_minted_for_newest_key_witness:
  "\<exists>host k. normalize_issuer_host (ascii ''a.b/'') = Inr host \<and> k \<in> set demo_keys \<and> usable_key (Some 10) k
     \<and> (\<forall>k' \<in> set demo_keys. usable_key (Some 10) k' \<longrightarrow> published k' \<le> published k)
     \<and> ascii ''newa.b'' = token_key k @ host"
proof -
  have parse: "parse_public_key demo_pat b = Inr pk \<longleftrightarrow> pk = b" for b pk
    by (auto simp: parse_public_key_def demo_pat_def)
  have v: "ascii ''PrivateToken token=newa.b'' = ascii ''PrivateToken token='' @ ascii ''newa.b''"
    by (simp add: ascii_append [symmetric])
  have config: "issuer_config_from_slice demo_pat b = Some c \<longleftrightarrow> c = \<lparr>issuer_request_uri = ascii ''/t'', token_keys = demo_keys\<rparr>" for b c
    by (auto simp: demo_pat_def)
  have issue: "issue_token demo_pat rs st = Some tok \<longleftrightarrow> rs = fst st @ snd st \<and> tok = rs"
    "token_request_new demo_pat rng pk ch = Some (rq, st) \<longleftrightarrow> rq = pk @ ch \<and> st = (pk, ch)"
    "public_token_challenge demo_pat host None hs = host"
    "token_serialize demo_pat t = Some ser \<longleftrightarrow> ser = t" "url_safe_encode demo_pat ser = ser"
    for rs st tok rng pk ch rq host hs t ser by (auto simp: demo_pat_def)
  have "sorted (map published demo_keys)" by (simp add: demo_keys_def published_def)
  then show ?thesis
    using token_minted_for_newest_key [OF demo_minted] unfolding parse v config issue by auto
qed

text \<open>
  The order of the list decides, not the dates: an older key listed last is preferred to a
  newer one.
\<close>

lemma later_listed_key_wins:
  "select_public_token_key (Some 10) [\<lparr>token_type = 2, token_key = ascii ''new'', not_before = Some 9\<rparr>,
     \<lparr>token_type = 2, token_key = ascii ''old'', not_before = Some 1\<rparr>]
   = Some \<lparr>token_type = 2, token_key = ascii ''old'', not_before = Some 1\<rparr>"
  by (simp add: select_public_token_key_def TOKEN_TYPE_PUBLIC_def)

end
