(* ===== verification/Cli_Run.thy ===== *)
theory Cli_Run
  imports Ohttp_Client Pat
begin

text \<open>
  A run of the command line (\<^verbatim>\<open>src/lib.rs\<close>, with \<^verbatim>\<open>HttpClientKind\<close> of
  \<^verbatim>\<open>src/client/mod.rs\<close>): the arguments are validated, a token is minted if one is asked
  for, a client is selected and the request is sent. The HTTP/2 and HTTP/3 clients are
  arguments of the definitions, as the functions that send a request.
\<close>

datatype http_client_kind = OHttp ohttp_client | Http2 http2_client | Http3 http3_client

definition client_kind_send_request ::
  "octets_api \<Rightarrow> 'c hpke_api \<Rightarrow> 'hm http_api \<Rightarrow> (http_body \<Rightarrow> report body) \<Rightarrow> (bytes \<Rightarrow> bytes) \<Rightarrow> bytes
    \<Rightarrow> (http2_client \<Rightarrow> ('w, 'hm) sending) \<Rightarrow> (http3_client \<Rightarrow> ('w, 'hm) sending) \<Rightarrow> http_client_kind \<Rightarrow> ('w, 'hm) sending" where
  "client_kind_send_request oct hp api body_of hex_encode rng send2 send3 k req cfg =
     (case k of
        OHttp c \<Rightarrow> awrap_err ''OHTTP Client failed to send request''
          (ohttp_send_request oct hp api body_of hex_encode rng
             (transport_send_request send2 send3 (oc_proxy_http_client c)) c req)
      | Http2 c \<Rightarrow> awrap_err ''HTTP/2 Client failed to send request'' (send2 c req cfg)
      | Http3 c \<Rightarrow> awrap_err ''HTTP/3 Client failed to send request'' (send3 c req cfg))"

text \<open>The token is pushed to the proxy headers of the arguments, which are returned changed.\<close>

definition mint_pat_if_requested :: "(bytes \<Rightarrow> bytes \<Rightarrow> ('w, bytes) io) \<Rightarrow> args \<Rightarrow> ('w, args) io" where
  "mint_pat_if_requested mint a =
     (case arg_pat_issuer a of
        None \<Rightarrow> aret a
      | Some issuer \<Rightarrow>
          if arg_proxy a = None then alift (eyre ''--pat-issuer requires --proxy'' [])
          else if arg_ohttp a
          then alift (eyre ''--pat-issuer is not yet implemented for --ohttp; it is currently only supported for CONNECT proxying'' [])
          else abind (awrap_err ''failed to mint Privacy Pass token'' (mint issuer (arg_pat_issuer_directory a))) (\<lambda>header_value.
               aret (a\<lparr>arg_proxy_header := arg_proxy_header a @ [ascii ''Proxy-Authorization:'' @ header_value]\<rparr>)))"

definition select_http_client :: "args \<Rightarrow> (http_client_kind \<times> tls_config) rresult" where
  "select_http_client a =
     (let r = resolver_of_args a
      in if arg_ohttp a
         then rbind (wrap_err ''OHTTP Client initialization error''
                (ohttp_client_new (arg_proxy_http3 a) (arg_proxy a) (arg_gateway_path a) (arg_config_path a) (arg_proxy_header a)
                   (proxy_tls_config a) (arg_first_hop a) (arg_first_hop_header a) (first_hop_tls_config a) r))
                (\<lambda>c. Inr (OHttp c, default_tls_config))
         else if arg_proxy a \<noteq> None
         then if arg_proxy_http3 a
              then if arg_http3 a then eyre ''MASQUE, or proxy-http3 connect with inner http3 is not implemented yet'' []
                   else eyre ''CONNECT-TLS proxying through http3 is not implemented yet'' []
              else Inr (Http2 (http2_client_new r), target_tls_config a)
         else if arg_http3 a then Inr (Http3 (http3_client_new r), target_tls_config a)
         else Inr (Http2 (http2_client_new r), target_tls_config a))"

definition raw_run ::
  "(bytes \<Rightarrow> bytes \<Rightarrow> ('w, bytes) io) \<Rightarrow> (http_client_kind \<Rightarrow> ('w, 'hm) sending) \<Rightarrow> args \<Rightarrow> ('w, 'hm http_response) io" where
  "raw_run mint send a =
     (case validate a of (r, a1) \<Rightarrow>
        abind (alift r) (\<lambda>_.
        abind (mint_pat_if_requested mint a1) (\<lambda>a2.
        abind (alift (select_http_client a2)) (\<lambda>(client, cfg).
        abind (alift (request_args_try_from a2)) (\<lambda>req.
        send client req cfg)))))"

definition run ::
  "(bytes \<Rightarrow> bytes \<Rightarrow> ('w, bytes) io) \<Rightarrow> (http_client_kind \<Rightarrow> ('w, 'hm) sending) \<Rightarrow> args \<Rightarrow> ('w, bytes) io" where
  "run mint send a = abind (raw_run mint send a) (\<lambda>res. aret (body_as_string_lossy res))"

text \<open>An error becomes the empty output; a panic is not caught.\<close>

definition run_handle_error ::
  "(bytes \<Rightarrow> bytes \<Rightarrow> ('w, bytes) io) \<Rightarrow> (http_client_kind \<Rightarrow> ('w, 'hm) sending) \<Rightarrow> args \<Rightarrow> ('w, bytes) io" where
  "run_handle_error mint send a w =
     map_option (apfst (\<lambda>r. case r of Inr b \<Rightarrow> Inr b | Inl e \<Rightarrow> if panics e then Inl e else Inr []))
       (run mint send a w)"

datatype log_verbosity = Critical | Warning | Info | Debug | Trace

definition configure_logging :: "(log_verbosity \<Rightarrow> ('w, unit) io) \<Rightarrow> args \<Rightarrow> ('w, unit) io" where
  "configure_logging telemetry_init a =
     telemetry_init
       (if arg_silent a then Critical
        else if arg_verbosity a = 0 then Warning
        else if arg_verbosity a = 1 then Info
        else if arg_verbosity a = 2 then Debug
        else Trace)"

definition tunnel ::
  "(log_verbosity \<Rightarrow> ('w, unit) io) \<Rightarrow> (bytes \<Rightarrow> ('w, unit) io) \<Rightarrow> (bytes \<Rightarrow> bytes \<Rightarrow> ('w, bytes) io)
    \<Rightarrow> (http_client_kind \<Rightarrow> ('w, 'hm) sending) \<Rightarrow> args \<Rightarrow> ('w, unit) io" where
  "tunnel telemetry_init print_out mint send a =
     abind (\<lambda>w. map_option (apfst (\<lambda>r. case r of Inr u \<Rightarrow> Inr u | Inl _ \<Rightarrow> Inl (Panicked ''error configuring telemetry logging'')))
              (configure_logging telemetry_init a w)) (\<lambda>_.
     abind (run_handle_error mint send a) print_out)"

subsection \<open>The client that is selected\<close>

lemma abind_cong_result:
  "(\<And>a s'. m s = Some (Inr a, s') \<Longrightarrow> f a s' = g a s') \<Longrightarrow> abind m f s = abind m g s"
  by (auto simp: abind_def split: Option.bind_split sum.split)

lemma setup_args_kept [simp]:
  "arg_resolve (setup_args a) = arg_resolve a" "arg_gateway_path (setup_args a) = arg_gateway_path a"
  "arg_config_path (setup_args a) = arg_config_path a" "arg_proxy_header (setup_args a) = arg_proxy_header a"
  "arg_first_hop (setup_args a) = arg_first_hop a" "arg_first_hop_header (setup_args a) = arg_first_hop_header a"
  "arg_pat_issuer (setup_args a) = arg_pat_issuer a" "resolver_of_args (setup_args a) = resolver_of_args a"
  "target_tls_config (setup_args a) = target_tls_config a" "proxy_tls_config (setup_args a) = proxy_tls_config a"
  "first_hop_tls_config (setup_args a) = first_hop_tls_config a"
  by (subst setup_args_other, simp add: resolver_of_args_def target_tls_config_def proxy_tls_config_def first_hop_tls_config_def)+

text \<open>
  C38: a run uses the protocols it was asked to use. With \<^verbatim>\<open>--ohttp\<close> the client is the
  Oblivious HTTP client, over HTTP/3 exactly if \<^verbatim>\<open>--proxy-http3\<close> is given, and the inner
  request carries nothing of the proxy. Otherwise a proxy is used by CONNECT over HTTP/2,
  with the proxy's own headers and TLS settings, and what is not supported is an error;
  without a proxy the request goes to the target over the protocol asked for.
\<close>

theorem client_matches_arguments:
  assumes "clap_accepts a" "validate a = (Inr (), b)"
  shows "\<exists>req. request_args_try_from b = Inr req
    \<and> (case arg_proxy a of
         None \<Rightarrow> ra_proxy_connect req = None \<and> ra_proxy_header req = []
           \<and> select_http_client b = Inr (if arg_http3 a then Http3 (http3_client_new (resolver_of_args a))
                else Http2 (http2_client_new (resolver_of_args a)), target_tls_config a)
       | Some p \<Rightarrow>
           if arg_ohttp a
           then ra_proxy_connect req = None \<and> ra_proxy_header req = []
             \<and> (\<exists>c. select_http_client b = Inr (OHttp c, default_tls_config)
                  \<and> oc_proxy_headers c = arg_proxy_header a \<and> oc_proxy_tls_config c = proxy_tls_config a
                  \<and> oc_first_hop_url c = arg_first_hop a \<and> oc_first_hop_headers c = arg_first_hop_header a
                  \<and> oc_proxy_http_client c = (if arg_proxy_http3 a then TransportHttp3 (http3_client_new (resolver_of_args a))
                       else TransportHttp2 (http2_client_new (resolver_of_args a))))
           else if arg_proxy_http3 a then (\<exists>msg. select_http_client b = eyre msg [])
           else ra_proxy_connect req = Some p \<and> ra_proxy_header req = arg_proxy_header a
             \<and> ra_proxy_tls_config req = Some (proxy_tls_config a) \<and> \<not> arg_http3 a
             \<and> select_http_client b = Inr (Http2 (http2_client_new (resolver_of_args a)), default_tls_config))"
proof -
  have ok: "acceptable a" using validate_fst [of a] assms(2) by simp
  have b: "b = setup_args a" using validate_snd [of a] assms(2) by simp
  have req: "\<exists>req. request_args_try_from b = Inr req
      \<and> ra_proxy_connect req = (if arg_proxy a \<noteq> None \<and> \<not> arg_ohttp a then arg_proxy a else None)
      \<and> ra_proxy_tls_config req = (if arg_proxy a \<noteq> None \<and> \<not> arg_ohttp a then Some (proxy_tls_config a) else None)
      \<and> ra_proxy_header req = (if arg_proxy a \<noteq> None \<and> \<not> arg_ohttp a then arg_proxy_header a else [])"
    by (simp add: request_args_try_from_def b Let_def)
  have tls: "arg_proxy a \<noteq> None \<Longrightarrow> target_tls_config a = default_tls_config"
    using assms(1) by (simp add: clap_accepts_def target_tls_config_def default_tls_config_def)
  show ?thesis
  proof (cases "arg_proxy a")
    case None
    with assms(1) have "\<not> arg_ohttp a" by (simp add: clap_accepts_def)
    with None req show ?thesis by (auto simp: select_http_client_def Let_def b)
  next
    case (Some p)
    with req tls ok show ?thesis
      by (auto simp: select_http_client_def Let_def b ohttp_client_new_def acceptable_def)
  qed
qed

theorem client_matches_arguments_witness:
  "\<exists>b req. validate (default_args\<lparr>arg_url := ascii ''https://a.b/'', arg_proxy := Some (ascii ''https://p.q'')\<rparr>) = (Inr (), b)
     \<and> request_args_try_from b = Inr req \<and> ra_proxy_connect req = Some (ascii ''https://p.q'')
     \<and> select_http_client b = Inr (Http2 (http2_client_new default_resolver), default_tls_config)"
proof -
  let ?a = "default_args\<lparr>arg_url := ascii ''https://a.b/'', arg_proxy := Some (ascii ''https://p.q'')\<rparr>"
  have acc: "acceptable ?a" by (simp add: acceptable_def effective_method_def default_args_def)
  have "fst (validate ?a) = Inr ()" using acc by (simp add: validate_fst)
  then have v: "validate ?a = (Inr (), snd (validate ?a))" by (metis prod.collapse)
  have "clap_accepts ?a" by (simp add: clap_accepts_def default_args_def)
  from client_matches_arguments [OF this v] v show ?thesis
    by (auto simp: default_args_def resolver_of_args_def resolver_new_def default_resolver_def)
qed

subsection \<open>Who is contacted\<close>

definition ohttp_contacts :: "ohttp_client \<Rightarrow> bytes set" where
  "ohttp_contacts c =
     {oc_proxy_config_url c, case oc_first_hop_url c of Some u \<Rightarrow> u | None \<Rightarrow> oc_proxy_gateway_url c}"

lemma ohttp_send_request_cong:
  assumes "\<And>r cfg. ra_url r \<in> ohttp_contacts c \<Longrightarrow> send r cfg = send' r cfg"
  shows "ohttp_send_request oct hp api body_of hex_encode rng send c a
    = ohttp_send_request oct hp api body_of hex_encode rng send' c a"
proof -
  have "ohttp_fetch_proxy_key oct hp hex_encode send c = ohttp_fetch_proxy_key oct hp hex_encode send' c"
    using assms by (simp add: ohttp_fetch_proxy_key_def ohttp_contacts_def)
  moreover have "ohttp_send_outer_request send c d = ohttp_send_outer_request send' c d" for d
    using assms by (cases "oc_first_hop_url c") (simp_all add: ohttp_send_outer_request_def ohttp_contacts_def Let_def)
  ultimately show ?thesis by (simp add: ohttp_send_request_def)
qed

text \<open>The URLs of an Oblivious HTTP run: the configuration of the gateway, and the relay or the gateway.\<close>

definition ohttp_urls :: "args \<Rightarrow> bytes set" where
  "ohttp_urls a =
     (case arg_proxy a of
        None \<Rightarrow> {}
      | Some purl \<Rightarrow>
          let p = trim_end_matches slash purl
          in {p @ slash # trim_start_matches slash (arg_config_path a),
              case arg_first_hop a of Some u \<Rightarrow> u | None \<Rightarrow> p @ slash # trim_start_matches slash (arg_gateway_path a)})"

text \<open>
  C37: an Oblivious HTTP run contacts nobody but the gateway and the relay. Whatever the
  arguments, it does not depend on what the network would answer for any other URL, such as
  the target's, nor on a token issuer.
\<close>

theorem ohttp_contacts_only_proxy:
  assumes "arg_ohttp a"
    and "\<And>cl r cfg. ra_url r \<in> ohttp_urls a \<Longrightarrow> send2 cl r cfg = send2' cl r cfg"
    and "\<And>cl r cfg. ra_url r \<in> ohttp_urls a \<Longrightarrow> send3 cl r cfg = send3' cl r cfg"
  shows "raw_run mint (client_kind_send_request oct hp api body_of hex_encode rng send2 send3) a
    = raw_run mint' (client_kind_send_request oct hp api body_of hex_encode rng send2' send3') a"
proof -
  let ?b = "setup_args a"
  have mint: "mint_pat_if_requested mint ?b = mint_pat_if_requested mint' ?b"
    using assms(1) by (cases "arg_pat_issuer a") (auto simp: mint_pat_if_requested_def)
  have minted: "mint_pat_if_requested mint' ?b w = Some (Inr a2, w') \<Longrightarrow> a2 = ?b" for a2 w w'
    using assms(1) by (auto simp: mint_pat_if_requested_def alift_def split: option.splits if_splits)
  have client: "client_kind_send_request oct hp api body_of hex_encode rng send2 send3 k req cfg
      = client_kind_send_request oct hp api body_of hex_encode rng send2' send3' k req cfg"
    if "select_http_client ?b = Inr (k, cfg)" for k req cfg
  proof -
    from that assms(1) obtain c p where k: "k = OHttp c" "arg_proxy a = Some p"
      and c: "oc_proxy_config_url c = trim_end_matches slash p @ slash # trim_start_matches slash (arg_config_path a)"
        "oc_proxy_gateway_url c = trim_end_matches slash p @ slash # trim_start_matches slash (arg_gateway_path a)"
        "oc_first_hop_url c = arg_first_hop a"
      by (auto simp: select_http_client_def ohttp_client_new_def Let_def)
    have "ohttp_contacts c = ohttp_urls a"
      by (cases "arg_first_hop a") (simp_all add: ohttp_contacts_def ohttp_urls_def k c Let_def)
    then have "transport_send_request send2 send3 t r cfg' = transport_send_request send2' send3' t r cfg'"
      if "ra_url r \<in> ohttp_contacts c" for t r cfg'
      using that assms(2,3) by (simp add: transport_send_request_def split: transport_client_kind.split)
    then have "ohttp_send_request oct hp api body_of hex_encode rng (transport_send_request send2 send3 t) c req
        = ohttp_send_request oct hp api body_of hex_encode rng (transport_send_request send2' send3' t) c req" for t
      by (rule ohttp_send_request_cong)
    then show ?thesis by (simp add: client_kind_send_request_def k)
  qed
  show ?thesis
    unfolding raw_run_def case_prod_beta mint validate_snd
    by (intro ext abind_cong_result) (auto dest!: minted simp: client)
qed

text \<open>A network that would answer for the target.\<close>

definition demo_target :: "'cl \<Rightarrow> (unit, (bytes \<times> bytes) list) sending" where
  "demo_target cl r cfg =
     (if ra_url r = ascii ''https://a.b/''
      then aret \<lparr>hr_version = HTTP_11, hr_status = 200, hr_headers = [], hr_body = []\<rparr> else (\<lambda>w. None))"

theorem ohttp_contacts_only_proxy_witness:
  "raw_run (\<lambda>_ _. aret []) (client_kind_send_request (rfc9000_octets (2 ^ 64 - 1)) plain_hpke alist_http util_body id [] demo_target demo_target)
     (default_args\<lparr>arg_url := ascii ''https://a.b/'', arg_ohttp := True, arg_proxy := Some (ascii ''https://p.q'')\<rparr>)
   = raw_run (\<lambda>_ _. alift (eyre ''no issuer'' []))
       (client_kind_send_request (rfc9000_octets (2 ^ 64 - 1)) plain_hpke alist_http util_body id [] (\<lambda>_ _ _ w. None) (\<lambda>_ _ _ w. None))
     (default_args\<lparr>arg_url := ascii ''https://a.b/'', arg_ohttp := True, arg_proxy := Some (ascii ''https://p.q'')\<rparr>)"
proof -
  have "ascii ''https://a.b/'' \<notin> ohttp_urls
      (default_args\<lparr>arg_url := ascii ''https://a.b/'', arg_ohttp := True, arg_proxy := Some (ascii ''https://p.q'')\<rparr>)"
    by (simp add: ohttp_urls_def default_args_def Let_def trim_end_matches_def trim_start_matches_def ascii_def)
  then show ?thesis by (intro ohttp_contacts_only_proxy) (auto simp: demo_target_def)
qed

end
