(* ===== verification/Spec2Isabelle.thy ===== *)
theory Spec2Isabelle
  imports Bhttp_Body Bhttp_Chunking Bhttp_Roundtrip Hpke_Server Robustness Http3_Connection Ohttp_Exchange Cli_Run
begin

text \<open>
  A verification development for \<^verbatim>\<open>pvcli\<close>, a curl-like client for privacy protocols
  (HTTP/1.1, HTTP/2 and HTTP/3, CONNECT proxies, Oblivious HTTP, private access tokens), and
  for the crates it is built from.

  \<^bold>\<open>The program.\<close> The crate \<^verbatim>\<open>stream-buf\<close> buffers a stream of byte chunks and
  \<^verbatim>\<open>stream-octets\<close> decodes integers from it. On them stand \<^verbatim>\<open>hyper-binary\<close>
  (binary HTTP messages) and \<^verbatim>\<open>ohttp-hpke\<close> (key configurations and the encapsulation
  of requests and responses). The command line (\<^verbatim>\<open>src/src\<close>) validates its arguments,
  mints a token if asked, selects a client and sends the request; the Oblivious HTTP client
  uses both crates over the HTTP/2 or HTTP/3 client. \<^verbatim>\<open>ohttp-gateway-worker\<close> is the
  other side: it publishes its keys, opens requests, fetches from the origin and seals the
  response.

  \<^bold>\<open>Conventions.\<close> Machine integers are words. A Rust \<^verbatim>\<open>Result\<close> is a sum whose left
  side distinguishes I/O errors, errors of the wrapped stream and panics, so that the
  absence of panics is a theorem: \<^verbatim>\<open>unwrap\<close>, \<^verbatim>\<open>assert!\<close> and
  \<^verbatim>\<open>debug_assert_eq!\<close>, the subtractions and the calls of \<^verbatim>\<open>split_to\<close>,
  \<^verbatim>\<open>split_at_mut\<close>, \<^verbatim>\<open>advance\<close> and \<^verbatim>\<open>[..n]\<close> that the code guards panic out of
  range in the model as well (\<open>Pvcli_Base\<close>), and the guards are used to show that they do
  not. Where a length is a minimum with the length of the buffer in the same expression
  (\<^verbatim>\<open>chunks\<close>, the pieces of a streamed body), taking that many bytes is written out. A
  \<^verbatim>\<open>poll\<close> function is a function on states that may answer \<^term>\<open>Pending\<close>; an
  \<^verbatim>\<open>async fn\<close> is its run to completion, \<^const>\<open>None\<close> if it never completes
  (\<open>Pvcli_Base\<close>). A stream is the list of what its polls deliver: waiting, a chunk or an
  error. The outside world of the client (sockets, TLS, name resolution, files) is a type
  variable \<open>'w\<close>.

  \<^bold>\<open>Crates that are not part of the program\<close> are records of functions, the parameters of
  the definitions that call them, and a locale states what the code relies on:
  \<open>octets_crate\<close> (\<open>Octets_Crate\<close>), \<open>http_crate\<close> and its extension \<open>http_names\<close>
  (\<open>Http_Crate\<close>), \<open>hpke_crate\<close> (\<open>Hpke_Crate\<close>), \<open>unicode_case\<close> (\<open>Rust_Text\<close>) and
  \<open>body_util\<close> (\<open>Ohttp_Client\<close>). Each is interpreted on an executable instance, so that the
  hypotheses of the theorems can hold together; \<open>Rust_Text\<close> models the string functions of
  the standard library. hyper, boringSSL, quiche, the worker platform and the system
  resolver are records without laws: the theorems hold whatever they do.

  \<^bold>\<open>Theories and sources.\<close>
  \<^item> \<open>Stream_Buf\<close>: \<^verbatim>\<open>crates/stream-buf/src/lib.rs\<close>, and \<open>Stream_Octets\<close>:
    \<^verbatim>\<open>crates/stream-octets/src/lib.rs\<close>. Reads return exactly the bytes to come, however they
    arrive, within the buffer limit; a locale for streams that make progress gives the list
    of everything a stream delivers.
  \<^item> \<open>Bhttp_Decoder\<close>, \<open>Bhttp_Body\<close>, \<open>Bhttp_Chunking\<close>: \<^verbatim>\<open>crates/hyper-binary/src/decoder\<close>.
    Decoding does not depend on the chunking of the input, and the frames of a body are what
    an abstract relation on bytes delivers.
  \<^item> \<open>Bhttp_Encoder\<close>, \<open>Bhttp_Roundtrip\<close>: \<^verbatim>\<open>crates/hyper-binary/src/encoder\<close>. Encoding never
    panics, the computed lengths of the initial chunks are exactly the written lengths,
    decoding inverts it.
  \<^item> \<open>Hpke_Keys\<close>, \<open>Hpke_Config\<close>, \<open>Hpke_Response\<close>, \<open>Hpke_Streams\<close>, \<open>Hpke_Client\<close>,
    \<open>Hpke_Server\<close>: \<^verbatim>\<open>crates/ohttp-hpke/src\<close>. The invariant of the server's keys, the
    round trip of the published configuration, distinct nonces, the key and nonce of every
    chunk of a response, both stream state machines
    against an abstract relation, detection of truncation, and the exchange of requests and
    responses between client and server.
  \<^item> \<open>Robustness\<close>: on every input the decoders return and do not panic (one panic of a
    full header map excepted).
  \<^item> \<open>Client_Base\<close>, \<open>Cli_Args\<close>, \<open>Client_Mod\<close>, \<open>Client_Request\<close>, \<open>Client_Resolver\<close>,
    \<open>Client_Cert\<close>: \<^verbatim>\<open>src/src/args.rs\<close>, \<^verbatim>\<open>error.rs\<close> and \<^verbatim>\<open>client/mod.rs\<close>,
    \<^verbatim>\<open>request.rs\<close>, \<^verbatim>\<open>resolver.rs\<close>, \<^verbatim>\<open>cert.rs\<close>. Validation,
    the request that arguments describe, what building it writes to the log and that this
    hides credentials, precedence of overrides, TLS settings.
  \<^item> \<open>Http2_Client\<close>: \<^verbatim>\<open>client/http2.rs\<close>. TLS before use, CONNECT tunnels, origin form.
  \<^item> \<open>Http3_Body\<close>, \<open>Http3_Connection\<close>, \<open>Http3_Client\<close>: \<^verbatim>\<open>client/http3\<close>. Bodies over the
    driver's channels, with every answer of the channel, failures in the middle of a write
    included; the connection task as an inductive run over events and requests, with the
    invariant that matches responses to requests, while other connections take identifiers
    from the same process-wide counter.
  \<^item> \<open>Ohttp_Client\<close>: \<^verbatim>\<open>client/ohttp.rs\<close>; \<open>Gateway_Worker\<close>:
    \<^verbatim>\<open>crates/ohttp-gateway-worker/src/lib.rs\<close>; \<open>Ohttp_Exchange\<close>: both together, over any
    network that delivers messages unchanged.
  \<^item> \<open>Pat\<close>: \<^verbatim>\<open>pat.rs\<close>, the host of the issuer and the key a token is requested for;
    \<open>Cli_Run\<close>: \<^verbatim>\<open>lib.rs\<close>, a whole run of the command line.

  \<^bold>\<open>Bounds and fuel.\<close> Loops over input are \<^theory_text>\<open>partial_function (option)\<close> or recursion with a
  measure; that they return is proved (\<open>Robustness\<close>, and the progress of every stream).
  Reading an HTTP/3 body takes the list of buffer sizes of the caller; any list longer than
  the number of frames and bytes to come is enough. Theorems that speak of the content of a
  buffer assume \<open>wf_buf\<close>: what is still to come is within the limit of the buffer (10 MiB by
  default) and the stream has no empty chunks; the lemma
  \<open>has_more_data_empty_chunk\<close> shows why the latter is needed. Nonces are distinct up to the
  message limit of the counter, request identifiers up to \<open>2\<^sup>6\<^sup>4\<close>.

  \<^bold>\<open>Not modelled.\<close> The parser that clap generates (its documented constraints are the
  predicate \<open>clap_accepts\<close>), what is written to the log (but for the records of
  a request in \<open>Client_Request\<close> and the redaction of arguments and HTTP/3 headers),
  \<^verbatim>\<open>Debug\<close> and \<^verbatim>\<open>Display\<close> output, the main function, tests, build and container files:
  they carry no logic of their own. Cryptography, TLS, QUIC and the Fetch API are parameters,
  as above. Of the HTTP/3 connection the spawned tasks are the runs of their functions; the
  scheduler is the choice of the next event.
\<close>

end
